(* ===== verification/Yougle_Prelude.thy ===== *)
theory Yougle_Prelude
  imports Main "HOL-Library.Word"
begin

text \<open>
  What every component theory shares: the machine types of the Rust sources, the result of a
  Rust function (a value, an error or a panic), the byte encodings the wire formats are built
  from, and the SQL tables the two databases are made of, as lists of rows in rowid order with
  the statements the sources execute on them. The \<open>column\<close> locale is the contract of one
  column of a table with a primary key: what a read returns after
  \<^verbatim>\<open>UPDATE t SET c = v WHERE key = k\<close>.
\<close>

section \<open>Machine types\<close>

type_synonym byte = "8 word"
type_synonym bytes = "byte list"
type_synonym u32 = "32 word"
type_synonym u64 = "64 word"

text \<open>
  SQLite and the clock functions use \<^verbatim>\<open>i64\<close>: an \<^typ>\<open>int\<close> here, with the two casts
  \<^verbatim>\<open>x as i64\<close> and \<^verbatim>\<open>x as u64\<close> written out as two's complement.
\<close>

type_synonym i64 = int

definition i64_max :: i64 where
  "i64_max = 9223372036854775807"

definition i64_min :: i64 where
  "i64_min = - 9223372036854775808"

definition as_i64 :: "u64 \<Rightarrow> i64" where
  "as_i64 w = sint w"

definition as_u64 :: "i64 \<Rightarrow> u64" where
  "as_u64 i = word_of_int i"

lemma as_u64_as_i64 [simp]: "as_u64 (as_i64 w) = w"
  by (simp add: as_u64_def as_i64_def)

lemma as_i64_as_u64 [simp]: "i64_min \<le> i \<Longrightarrow> i \<le> i64_max \<Longrightarrow> as_i64 (as_u64 i) = i"
  by (simp add: as_u64_def as_i64_def i64_min_def i64_max_def signed_of_int
      signed_take_bit_int_eq_self)

lemma as_i64_eq_iff [simp]: "as_i64 a = as_i64 b \<longleftrightarrow> a = b"
  by (metis as_u64_as_i64)

lemma as_i64_bounds: "i64_min \<le> as_i64 w" "as_i64 w \<le> i64_max"
  using sint_range_size[of w] by (simp_all add: as_i64_def i64_min_def i64_max_def word_size)

lemma as_u64_inject:
  "i64_min \<le> a \<Longrightarrow> a \<le> i64_max \<Longrightarrow> i64_min \<le> b \<Longrightarrow> b \<le> i64_max
    \<Longrightarrow> as_u64 a = as_u64 b \<longleftrightarrow> a = b"
  by (metis as_i64_as_u64)

lemma unat_as_u64: "0 \<le> i \<Longrightarrow> i \<le> i64_max \<Longrightarrow> unat (as_u64 i) = nat i"
  by (simp add: as_u64_def i64_max_def unat_eq_nat_uint unsigned_of_int take_bit_int_eq_self)

lemma as_i64_nonneg: "unat w < 2 ^ 63 \<Longrightarrow> as_i64 w = int (unat w)"
proof -
  assume "unat w < 2 ^ 63"
  then have "as_u64 (int (unat w)) = w" by (simp add: as_u64_def)
  moreover have "i64_min \<le> int (unat w)" "int (unat w) \<le> i64_max"
    using \<open>unat w < 2 ^ 63\<close> by (simp_all add: i64_min_def i64_max_def del: of_nat_unat)
  ultimately show ?thesis by (metis as_i64_as_u64)
qed

section \<open>The result of a Rust function\<close>

text \<open>
  \<^verbatim>\<open>Result<T, E>\<close> together with the third way a call can end: a panic (a failed
  \<^verbatim>\<open>expect\<close>, an out-of-range slice, an arithmetic overflow), which unwinds through every
  caller and is not caught by \<^verbatim>\<open>?\<close>, \<^verbatim>\<open>.ok()\<close> or \<^verbatim>\<open>let _ =\<close>.
\<close>

datatype ('a, 'e) outcome = Ok 'a | Err 'e | Panic

fun bind_outcome :: "('a, 'e) outcome \<Rightarrow> ('a \<Rightarrow> ('b, 'e) outcome) \<Rightarrow> ('b, 'e) outcome" where
  "bind_outcome (Ok a) k = k a"
| "bind_outcome (Err e) k = Err e"
| "bind_outcome Panic k = Panic"

fun map_err :: "('e \<Rightarrow> 'f) \<Rightarrow> ('a, 'e) outcome \<Rightarrow> ('a, 'f) outcome" where
  "map_err f (Ok a) = Ok a"
| "map_err f (Err e) = Err (f e)"
| "map_err f Panic = Panic"

fun map_ok :: "('a \<Rightarrow> 'b) \<Rightarrow> ('a, 'e) outcome \<Rightarrow> ('b, 'e) outcome" where
  "map_ok f (Ok a) = Ok (f a)"
| "map_ok f (Err e) = Err e"
| "map_ok f Panic = Panic"

fun is_ok :: "('a, 'e) outcome \<Rightarrow> bool" where
  "is_ok (Ok a) = True"
| "is_ok (Err e) = False"
| "is_ok Panic = False"

definition ok_or :: "'e \<Rightarrow> 'a option \<Rightarrow> ('a, 'e) outcome" where
  "ok_or e x = (case x of None \<Rightarrow> Err e | Some a \<Rightarrow> Ok a)"

definition expect :: "('a, 'e) outcome \<Rightarrow> ('a, 'f) outcome" where
  "expect r = (case r of Ok a \<Rightarrow> Ok a | Err e \<Rightarrow> Panic | Panic \<Rightarrow> Panic)"

text \<open>\<^verbatim>\<open>map_err\<close> on the result of a library call, a sum of its error and its value.\<close>

fun or_err :: "('e \<Rightarrow> 'f) \<Rightarrow> 'e + 'a \<Rightarrow> ('a, 'f) outcome" where
  "or_err f (Inl e) = Err (f e)"
| "or_err f (Inr a) = Ok a"

lemma or_err_Ok_iff [simp]: "or_err f x = Ok a \<longleftrightarrow> x = Inr a"
  by (cases x) auto

lemma or_err_not_Panic [simp]: "or_err f x \<noteq> Panic"
  by (cases x) auto

lemma bind_outcome_Ok_iff:
  "bind_outcome m k = Ok b \<longleftrightarrow> (\<exists>a. m = Ok a \<and> k a = Ok b)"
  by (cases m) auto

lemma map_err_Ok_iff [simp]: "map_err f m = Ok b \<longleftrightarrow> m = Ok b"
  by (cases m) auto

lemma map_ok_Ok_iff: "map_ok f m = Ok b \<longleftrightarrow> (\<exists>a. m = Ok a \<and> b = f a)"
  by (cases m) auto

lemma ok_or_simps [simp]: "ok_or e None = Err e" "ok_or e (Some a) = Ok a"
  by (simp_all add: ok_or_def)

lemma ok_or_Ok_iff [simp]: "ok_or e x = Ok a \<longleftrightarrow> x = Some a"
  by (cases x) auto

lemma expect_simps [simp]: "expect (Ok a) = Ok a" "expect (Err e) = Panic" "expect Panic = Panic"
  by (simp_all add: expect_def)

text \<open>
  A method that changes state and may fail returns the state it leaves behind in every case:
  statements already executed are not undone by a later \<^verbatim>\<open>?\<close>.
\<close>

type_synonym ('s, 'a, 'e) action = "'s \<Rightarrow> ('a, 'e) outcome \<times> 's"

definition and_then ::
  "('s, 'a, 'e) action \<Rightarrow> ('a \<Rightarrow> ('s, 'b, 'e) action) \<Rightarrow> ('s, 'b, 'e) action" where
  "and_then m k s = (case m s of
       (Ok a, s') \<Rightarrow> k a s'
     | (Err e, s') \<Rightarrow> (Err e, s')
     | (Panic, s') \<Rightarrow> (Panic, s'))"

definition pure :: "'a \<Rightarrow> ('s, 'a, 'e) action" where
  "pure a s = (Ok a, s)"

definition fail :: "'e \<Rightarrow> ('s, 'a, 'e) action" where
  "fail e s = (Err e, s)"

definition lift_outcome :: "('a, 'e) outcome \<Rightarrow> ('s, 'a, 'e) action" where
  "lift_outcome r s = (r, s)"

fun for_each :: "('x \<Rightarrow> ('s, unit, 'e) action) \<Rightarrow> 'x list \<Rightarrow> ('s, unit, 'e) action" where
  "for_each f [] = pure ()"
| "for_each f (x # xs) = and_then (f x) (\<lambda>_. for_each f xs)"

named_theorems action_simps \<open>unfolding of the state-passing combinators\<close>

lemma and_then_Ok [action_simps]: "m s = (Ok a, s') \<Longrightarrow> and_then m k s = k a s'"
  by (simp add: and_then_def)

lemma and_then_Err [action_simps]: "m s = (Err e, s') \<Longrightarrow> and_then m k s = (Err e, s')"
  by (simp add: and_then_def)

lemma and_then_Panic [action_simps]: "m s = (Panic, s') \<Longrightarrow> and_then m k s = (Panic, s')"
  by (simp add: and_then_def)

lemma pure_apply [action_simps]: "pure a s = (Ok a, s)"
  by (simp add: pure_def)

lemma fail_apply [action_simps]: "fail e s = (Err e, s)"
  by (simp add: fail_def)

lemma and_then_Ok_iff:
  "and_then m k s = (Ok b, t) \<longleftrightarrow> (\<exists>a s'. m s = (Ok a, s') \<and> k a s' = (Ok b, t))"
  by (auto simp: and_then_def split: prod.splits outcome.splits)

lemma and_then_OkE:
  assumes "and_then m k s = (Ok b, t)"
  obtains a s' where "m s = (Ok a, s')" and "k a s' = (Ok b, t)"
  using assms by (auto simp: and_then_Ok_iff)

text \<open>A predicate every step keeps is kept by a sequence of steps, whatever its result.\<close>

lemma and_then_assoc: "and_then (and_then m k) h = and_then m (\<lambda>a. and_then (k a) h)"
  by (auto simp: and_then_def fun_eq_iff split: prod.splits outcome.splits)

lemma and_then_keeps:
  assumes "P s" and "\<And>s. P s \<Longrightarrow> P (snd (m s))" and "\<And>a s. P s \<Longrightarrow> P (snd (k a s))"
  shows "P (snd (and_then m k s))"
proof (cases "m s")
  case (Pair r s')
  with assms(1) assms(2)[of s] have "P s'" by simp
  with Pair assms(3) show ?thesis by (cases r) (auto simp: and_then_def)
qed

lemma for_each_keeps:
  assumes "\<And>x s. P s \<Longrightarrow> P (snd (f x s))"
  shows "P s \<Longrightarrow> P (snd (for_each f xs s))"
proof (induction xs arbitrary: s)
  case Nil
  then show ?case by (simp add: pure_def)
next
  case (Cons x xs)
  show ?case
    by (simp, rule and_then_keeps) (use Cons assms in auto)
qed

section \<open>Bytes\<close>

text \<open>\<^verbatim>\<open>str::as_bytes\<close>: Isabelle characters are bytes.\<close>

definition as_bytes :: "string \<Rightarrow> bytes" where
  "as_bytes s = map (\<lambda>c. word_of_nat (of_char c)) s"

text \<open>\<^verbatim>\<open>str::trim\<close>, for the white space of ASCII.\<close>

definition is_space :: "char \<Rightarrow> bool" where
  "is_space c \<longleftrightarrow> (let n = of_char c :: nat in n = 32 \<or> (9 \<le> n \<and> n \<le> 13))"

definition trim :: "string \<Rightarrow> string" where
  "trim s = rev (dropWhile is_space (rev (dropWhile is_space s)))"

text \<open>Numbers as \<^verbatim>\<open>Display\<close> prints them.\<close>

fun show_nat :: "nat \<Rightarrow> string" where
  "show_nat n = (if n < 10 then [char_of (48 + n)] else show_nat (n div 10) @ [char_of (48 + n mod 10)])"

declare show_nat.simps [simp del]

text \<open>\<^verbatim>\<open>to_be_bytes\<close> and \<^verbatim>\<open>from_be_bytes\<close> for a \<open>k\<close>-byte unsigned integer.\<close>

fun be_encode :: "nat \<Rightarrow> nat \<Rightarrow> bytes" where
  "be_encode 0 n = []"
| "be_encode (Suc k) n = be_encode k (n div 256) @ [word_of_nat n]"

definition be_decode :: "bytes \<Rightarrow> nat" where
  "be_decode bs = foldl (\<lambda>acc b. acc * 256 + unat b) 0 bs"

definition u32_to_be_bytes :: "u32 \<Rightarrow> bytes" where
  "u32_to_be_bytes w = be_encode 4 (unat w)"

definition u64_to_be_bytes :: "u64 \<Rightarrow> bytes" where
  "u64_to_be_bytes w = be_encode 8 (unat w)"

text \<open>\<^verbatim>\<open>Vec::resize\<close>: cut down to \<open>n\<close> elements, or filled up with \<open>x\<close>.\<close>

definition resize :: "nat \<Rightarrow> 'a \<Rightarrow> 'a list \<Rightarrow> 'a list" where
  "resize n x xs = take n xs @ replicate (n - length xs) x"

text \<open>\<^verbatim>\<open><[u8; N]>::try_from\<close>: a byte vector of exactly \<open>n\<close> bytes.\<close>

definition to_array :: "nat \<Rightarrow> bytes \<Rightarrow> bytes option" where
  "to_array n v = (if length v = n then Some v else None)"

lemma to_array_Some_iff [simp]: "to_array n v = Some a \<longleftrightarrow> length v = n \<and> a = v"
  by (auto simp: to_array_def)

lemma length_be_encode [simp]: "length (be_encode k n) = k"
  by (induction k arbitrary: n) auto

lemma be_decode_snoc: "be_decode (bs @ [b]) = be_decode bs * 256 + unat b"
  by (simp add: be_decode_def)

lemma be_decode_be_encode [simp]: "n < 256 ^ k \<Longrightarrow> be_decode (be_encode k n) = n"
proof (induction k arbitrary: n)
  case 0
  then show ?case by (simp add: be_decode_def)
next
  case (Suc k)
  have "n div 256 < 256 ^ k"
    using Suc.prems by (simp add: less_mult_imp_div_less mult.commute)
  then show ?case by (simp add: be_decode_snoc Suc.IH unat_of_nat)
qed

lemma be_decode_bound: "be_decode bs < 256 ^ length bs"
proof (induction bs rule: rev_induct)
  case Nil
  then show ?case by (simp add: be_decode_def)
next
  case (snoc b bs)
  have "unat b < 256" using unsigned_less[of b] by simp
  moreover have "be_decode bs * 256 + 256 \<le> 256 ^ length bs * 256"
    using snoc by (metis Suc_leI add.commute mult_Suc mult_le_mono1)
  ultimately show ?case by (simp add: be_decode_snoc mult.commute)
qed

lemma be_encode_be_decode: "be_encode (length bs) (be_decode bs) = bs"
proof (induction bs rule: rev_induct)
  case Nil
  then show ?case by simp
next
  case (snoc b bs)
  have lt: "unat b < 256" using unsigned_less[of b] by simp
  then have "(be_decode bs * 256 + unat b) div 256 = be_decode bs" by simp
  moreover have "(256 :: byte) = 0" by simp
  then have "(word_of_nat (be_decode bs * 256 + unat b) :: byte) = b"
    by (simp only: of_nat_add of_nat_mult of_nat_numeral mult_zero_right) simp
  ultimately show ?case using snoc by (simp add: be_decode_snoc)
qed

lemma be_encode_inject:
  "m < 256 ^ k \<Longrightarrow> n < 256 ^ k \<Longrightarrow> be_encode k m = be_encode k n \<longleftrightarrow> m = n"
  by (metis be_decode_be_encode)

lemma length_u64_to_be_bytes [simp]: "length (u64_to_be_bytes w) = 8"
  by (simp add: u64_to_be_bytes_def)

lemma u64_to_be_bytes_inject [simp]: "u64_to_be_bytes v = u64_to_be_bytes w \<longleftrightarrow> v = w"
proof -
  have "unat v < 256 ^ 8" "unat w < 256 ^ 8"
    using unsigned_less[of v] unsigned_less[of w] by simp_all
  then show ?thesis by (simp add: u64_to_be_bytes_def be_encode_inject word_unat_eq_iff)
qed

lemma length_resize [simp]: "length (resize n x xs) = n"
  by (simp add: resize_def)

lemma resize_extend: "length xs \<le> n \<Longrightarrow> resize n x xs = xs @ replicate (n - length xs) x"
  by (simp add: resize_def)

section \<open>SQL tables\<close>

text \<open>
  A table is the list of its rows in rowid order. The sources use five statement shapes:
  \<^verbatim>\<open>UPDATE .. WHERE\<close>, \<^verbatim>\<open>DELETE .. WHERE\<close>, a lookup by key,
  \<^verbatim>\<open>INSERT OR IGNORE\<close> and \<^verbatim>\<open>INSERT .. ON CONFLICT (key) DO UPDATE\<close>.
\<close>

definition update_where :: "('r \<Rightarrow> bool) \<Rightarrow> ('r \<Rightarrow> 'r) \<Rightarrow> 'r list \<Rightarrow> 'r list" where
  "update_where P f rows = map (\<lambda>r. if P r then f r else r) rows"

definition delete_where :: "('r \<Rightarrow> bool) \<Rightarrow> 'r list \<Rightarrow> 'r list" where
  "delete_where P rows = filter (\<lambda>r. \<not> P r) rows"

definition lookup_row :: "('r \<Rightarrow> 'k) \<Rightarrow> 'k \<Rightarrow> 'r list \<Rightarrow> 'r option" where
  "lookup_row key k rows = find (\<lambda>r. key r = k) rows"

definition insert_or_ignore :: "('r \<Rightarrow> 'k) \<Rightarrow> 'r \<Rightarrow> 'r list \<Rightarrow> 'r list" where
  "insert_or_ignore key r rows = (if key r \<in> set (map key rows) then rows else rows @ [r])"

definition upsert :: "('r \<Rightarrow> 'k) \<Rightarrow> ('r \<Rightarrow> 'r) \<Rightarrow> 'r \<Rightarrow> 'r list \<Rightarrow> 'r list" where
  "upsert key f r rows =
     (if key r \<in> set (map key rows) then update_where (\<lambda>x. key x = key r) f rows
      else rows @ [r])"

text \<open>
  The next rowid of an \<^verbatim>\<open>INTEGER PRIMARY KEY\<close> column: one more than the largest in use.
\<close>

definition next_rowid :: "('r \<Rightarrow> i64) \<Rightarrow> 'r list \<Rightarrow> i64" where
  "next_rowid rid rows = fold (\<lambda>r m. max (rid r) m) rows 0 + 1"

named_theorems table_simps \<open>reads of a table after a statement\<close>

lemma update_where_Nil [simp]: "update_where P f [] = []"
  by (simp add: update_where_def)

lemma update_where_Cons [simp]:
  "update_where P f (r # rows) = (if P r then f r else r) # update_where P f rows"
  by (simp add: update_where_def)

lemma length_update_where [simp]: "length (update_where P f rows) = length rows"
  by (simp add: update_where_def)

lemma set_update_where: "set (update_where P f rows) = (\<lambda>r. if P r then f r else r) ` set rows"
  by (simp add: update_where_def)

lemma map_update_where [table_simps]:
  "(\<And>r. P r \<Longrightarrow> g (f r) = g r) \<Longrightarrow> map g (update_where P f rows) = map g rows"
  by (simp add: update_where_def)

lemma update_where_none: "(\<And>r. r \<in> set rows \<Longrightarrow> \<not> P r) \<Longrightarrow> update_where P f rows = rows"
  by (induction rows) auto

lemma set_delete_where [simp]: "set (delete_where P rows) = {r \<in> set rows. \<not> P r}"
  by (simp add: delete_where_def)

lemma distinct_delete_where [intro]:
  "distinct (map key rows) \<Longrightarrow> distinct (map key (delete_where P rows))"
  by (simp add: delete_where_def distinct_map_filter)

lemma lookup_row_Nil [simp]: "lookup_row key k [] = None"
  by (simp add: lookup_row_def)

lemma lookup_row_Cons [simp]:
  "lookup_row key k (r # rows) = (if key r = k then Some r else lookup_row key k rows)"
  by (simp add: lookup_row_def)

lemma lookup_row_append:
  "lookup_row key k (xs @ ys) =
     (case lookup_row key k xs of None \<Rightarrow> lookup_row key k ys | Some r \<Rightarrow> Some r)"
  by (induction xs) auto

lemma lookup_row_None_iff: "lookup_row key k rows = None \<longleftrightarrow> k \<notin> key ` set rows"
  by (induction rows) auto

lemma lookup_row_SomeD: "lookup_row key k rows = Some r \<Longrightarrow> r \<in> set rows \<and> key r = k"
  by (induction rows) (auto split: if_splits)

lemma lookup_row_distinct:
  "distinct (map key rows) \<Longrightarrow> lookup_row key k rows = Some r \<longleftrightarrow> r \<in> set rows \<and> key r = k"
  by (induction rows) (auto simp: image_iff)

lemma lookup_row_delete_where [table_simps]:
  "lookup_row key k (delete_where (\<lambda>r. key r = k') rows) =
     (if k = k' then None else lookup_row key k rows)"
  by (induction rows) (auto simp: delete_where_def)

lemma lookup_row_update_where [table_simps]:
  assumes "\<And>r. key (f r) = key r"
  shows "lookup_row key k (update_where (\<lambda>r. key r = k') f rows) =
     (if k = k' then map_option f (lookup_row key k rows) else lookup_row key k rows)"
  by (induction rows) (auto simp: assms)

lemma lookup_row_upsert [table_simps]:
  assumes "\<And>x. key (f x) = key x"
  shows "lookup_row key k (upsert key f r rows) =
     (if k = key r then Some (case lookup_row key k rows of None \<Rightarrow> r | Some x \<Rightarrow> f x)
      else lookup_row key k rows)"
proof (cases "lookup_row key (key r) rows")
  case None
  then have "key r \<notin> key ` set rows" by (simp add: lookup_row_None_iff)
  with None show ?thesis
    by (auto simp: upsert_def lookup_row_append split: option.splits)
next
  case (Some x)
  then have "key r \<in> key ` set rows" using lookup_row_None_iff[of key "key r" rows] by auto
  with Some show ?thesis
    by (auto simp: upsert_def lookup_row_update_where assms)
qed

lemma map_key_upsert:
  assumes "\<And>x. key (f x) = key x"
  shows "map key (upsert key f r rows) =
     (if key r \<in> key ` set rows then map key rows else map key rows @ [key r])"
  by (simp add: upsert_def map_update_where assms)

lemma distinct_upsert [intro]:
  "(\<And>x. key (f x) = key x) \<Longrightarrow> distinct (map key rows) \<Longrightarrow> distinct (map key (upsert key f r rows))"
  by (simp add: map_key_upsert)

lemma distinct_insert_or_ignore [intro]:
  "distinct (map key rows) \<Longrightarrow> distinct (map key (insert_or_ignore key r rows))"
  by (simp add: insert_or_ignore_def)

lemma fold_max_ge: "b \<le> fold (\<lambda>r m. max (rid r) m) rows (b :: int)"
  by (induction rows arbitrary: b) (auto intro: order_trans[OF max.cobounded2])

lemma next_rowid_greater:
  assumes "r \<in> set rows"
  shows "rid r < next_rowid rid rows"
proof -
  have "rid r \<le> fold (\<lambda>r m. max (rid r) m) rows b" for b :: int
    using assms
  proof (induction rows arbitrary: b)
    case (Cons x xs)
    then show ?case
      using fold_max_ge[of "max (rid x) b" rid xs] by auto
  qed simp
  from this[of 0] show ?thesis by (simp add: next_rowid_def)
qed

lemma next_rowid_pos: "0 < next_rowid rid rows"
  using fold_max_ge[of 0 rid rows] by (simp add: next_rowid_def)

lemma next_rowid_fresh: "next_rowid rid rows \<notin> rid ` set rows"
  using next_rowid_greater[of _ rows rid] by fastforce

subsection \<open>One column of a table with a primary key\<close>

locale column =
  fixes key :: "'r \<Rightarrow> 'k"
    and col :: "'r \<Rightarrow> 'c"
    and set_col :: "'c \<Rightarrow> 'r \<Rightarrow> 'r"
  assumes key_set_col: "key (set_col c r) = key r"
    and col_set_col: "col (set_col c r) = c"
begin

lemma read_after_set:
  "map_option col (lookup_row key k (update_where (\<lambda>r. key r = k') (set_col c) rows)) =
     (if k = k' \<and> k \<in> key ` set rows then Some c else map_option col (lookup_row key k rows))"
proof (cases "lookup_row key k rows")
  case None
  then have "k \<notin> key ` set rows" by (simp add: lookup_row_None_iff)
  with None show ?thesis by (auto simp: lookup_row_update_where key_set_col)
next
  case (Some r)
  then have "k \<in> key ` set rows" using lookup_row_None_iff[of key k rows] by auto
  with Some show ?thesis
    by (auto simp: lookup_row_update_where key_set_col col_set_col)
qed

lemma other_rows_untouched:
  "k \<noteq> k' \<Longrightarrow>
     lookup_row key k (update_where (\<lambda>r. key r = k') (set_col c) rows) = lookup_row key k rows"
  by (simp add: lookup_row_update_where key_set_col)

lemma keys_kept:
  "map key (update_where (\<lambda>r. key r = k') (set_col c) rows) = map key rows"
  by (simp add: map_update_where key_set_col)

end

section \<open>SQLite integers\<close>

text \<open>
  The columns that the sources increment inside SQL (\<^verbatim>\<open>SET lamport = lamport + 1\<close>) are
  SQLite numbers: a 64-bit INTEGER, or, once an INTEGER addition has overflowed, the REAL that
  SQLite computes instead. From an INTEGER that overflows by one this is the double
  \<open>2 ^ 63\<close>, which is larger than every INTEGER and absorbs further additions of one.
\<close>

datatype sqlnum = Integer i64 | Real63

instantiation sqlnum :: linorder
begin

fun less_eq_sqlnum :: "sqlnum \<Rightarrow> sqlnum \<Rightarrow> bool" where
  "less_eq_sqlnum (Integer a) (Integer b) = (a \<le> b)"
| "less_eq_sqlnum (Integer a) Real63 = True"
| "less_eq_sqlnum Real63 (Integer b) = False"
| "less_eq_sqlnum Real63 Real63 = True"

definition less_sqlnum :: "sqlnum \<Rightarrow> sqlnum \<Rightarrow> bool" where
  "less_sqlnum a b = (a \<le> b \<and> \<not> b \<le> a)"

instance
proof
  fix x y z :: sqlnum
  show "(x < y) = (x \<le> y \<and> \<not> y \<le> x)" by (simp add: less_sqlnum_def)
  show "x \<le> x" by (cases x) auto
  show "x \<le> y \<Longrightarrow> y \<le> z \<Longrightarrow> x \<le> z" by (cases x; cases y; cases z) auto
  show "x \<le> y \<Longrightarrow> y \<le> x \<Longrightarrow> x = y" by (cases x; cases y) auto
  show "x \<le> y \<or> y \<le> x" by (cases x; cases y) auto
qed

end

fun sql_succ :: "sqlnum \<Rightarrow> sqlnum" where
  "sql_succ (Integer i) = (if i < i64_max then Integer (i + 1) else Real63)"
| "sql_succ Real63 = Real63"

text \<open>\<^verbatim>\<open>row.get::<_, i64>\<close> refuses a REAL (\<^verbatim>\<open>InvalidColumnType\<close>).\<close>

fun get_i64 :: "sqlnum \<Rightarrow> i64 option" where
  "get_i64 (Integer i) = Some i"
| "get_i64 Real63 = None"

lemma max_Integer [simp]: "max (Integer a) (Integer b) = Integer (max a b)"
  by (auto simp: max_def)

lemma max_Real63 [simp]: "max Real63 x = Real63" "max x Real63 = Real63"
  by (cases x; simp add: max_def)+

lemma sql_succ_mono: "a \<le> b \<Longrightarrow> sql_succ a \<le> sql_succ b"
  by (cases a; cases b) auto

lemma sql_succ_ge: "a \<le> sql_succ a"
  by (cases a) auto

section \<open>Runs\<close>

text \<open>A run of a labelled step relation, with the events of its steps.\<close>

inductive steps :: "('s \<Rightarrow> 'e \<Rightarrow> 's \<Rightarrow> bool) \<Rightarrow> 's \<Rightarrow> 'e list \<Rightarrow> 's \<Rightarrow> bool"
  for step s0 where
  no_steps: "steps step s0 [] s0"
| more_steps: "\<lbrakk>steps step s0 tr s; step s ev s'\<rbrakk> \<Longrightarrow> steps step s0 (tr @ [ev]) s'"

inductive_cases steps_snocE: "steps step s0 (tr @ [ev]) s'"

lemma steps_snoc_iff: "steps step s0 (tr @ [ev]) s' \<longleftrightarrow> (\<exists>s. steps step s0 tr s \<and> step s ev s')"
  by (auto elim: steps_snocE intro: more_steps)

end
