(* ===== verification/Proto_Padding.thy ===== *)
theory Proto_Padding
  imports Yougle_Prelude
begin

text \<open>
  \<^verbatim>\<open>crates/pm-proto/src/error.rs\<close> and \<^verbatim>\<open>padding.rs\<close>: the fixed padding
  buckets every envelope is put into. Two locales state what a padding scheme promises to its
  clients: \<open>padding_scheme\<close> is the contract (unpadding gives the data back, and the
  padded length depends on the length class alone), \<open>length_prefixed\<close> is the layout both
  padding routines of the repository share (a big-endian length, the data, zeros), which
  implements the contract. This theory interprets it for the envelope padding; the backup
  padding of \<^verbatim>\<open>pm-crypto\<close> is the other interpretation. \<^verbatim>\<open>usize\<close> is 64 bits wide.
\<close>

section \<open>What a padding scheme promises\<close>

locale padding_scheme =
  fixes pad_to :: "bytes \<Rightarrow> bytes option"
    and unpad_from :: "bytes \<Rightarrow> bytes option"
    and size_class :: "nat \<Rightarrow> nat option"
  assumes unpad_pad: "pad_to d = Some p \<Longrightarrow> unpad_from p = Some d"
    and pad_length: "map_option length (pad_to d) = size_class (length d)"
begin

lemma pad_defined_iff: "(\<exists>p. pad_to d = Some p) \<longleftrightarrow> size_class (length d) \<noteq> None"
  using pad_length[of d, symmetric] by (cases "pad_to d") auto

lemma pad_inject: "pad_to d = Some p \<Longrightarrow> pad_to e = Some p \<Longrightarrow> d = e"
  by (metis option.inject unpad_pad)

lemma length_reveals_class_only:
  assumes "pad_to d = Some p" and "pad_to e = Some q"
  shows "length p = length q \<longleftrightarrow> size_class (length d) = size_class (length e)"
  using assms pad_length[of d, symmetric] pad_length[of e, symmetric] by auto

end

text \<open>
  The shared layout: \<open>plen\<close> bytes of big-endian length, the data, and zeros up to the bucket
  chosen for the data's length; unpadding reads the length back and slices. A Rust vector is
  shorter than \<open>2 ^ 63\<close> bytes.
\<close>

locale length_prefixed =
  fixes plen :: nat
    and bucket_for :: "nat \<Rightarrow> nat option"
    and padded :: "bytes \<Rightarrow> bytes option"
    and unpadded :: "bytes \<Rightarrow> bytes option"
  assumes bucket_fits: "bucket_for n = Some b \<Longrightarrow> n + plen \<le> b \<and> n < 256 ^ plen \<and> b < 2 ^ 63"
    and padded_layout: "padded d =
      map_option (\<lambda>b. resize b 0 (be_encode plen (length d) @ d)) (bucket_for (length d))"
    and unpadded_slice: "length p < 2 ^ 63 \<Longrightarrow> plen \<le> length p \<Longrightarrow> plen + be_decode (take plen p) \<le> length p
      \<Longrightarrow> unpadded p = Some (take (be_decode (take plen p)) (drop plen p))"
begin

lemma padded_shape:
  assumes "padded d = Some p"
  shows "\<exists>z. p = be_encode plen (length d) @ d @ replicate z 0"
    and "bucket_for (length d) = Some (length p)"
    and "length d < 256 ^ plen"
    and "length p < 2 ^ 63"
proof -
  from assms obtain b where b: "bucket_for (length d) = Some b"
    and p: "p = resize b 0 (be_encode plen (length d) @ d)"
    by (auto simp: padded_layout)
  from bucket_fits[OF b] have "plen + length d \<le> b" and lt: "length d < 256 ^ plen" by auto
  then have "p = be_encode plen (length d) @ d @ replicate (b - (plen + length d)) 0"
    by (simp add: p resize_extend)
  then show "\<exists>z. p = be_encode plen (length d) @ d @ replicate z 0" by blast
  show "bucket_for (length d) = Some (length p)" by (simp add: b p)
  show "length d < 256 ^ plen" by (fact lt)
  show "length p < 2 ^ 63" using bucket_fits[OF b] by (simp add: p)
qed

end

sublocale length_prefixed \<subseteq> ps: padding_scheme padded unpadded bucket_for
proof
  fix d p
  assume "padded d = Some p"
  then obtain z where p: "p = be_encode plen (length d) @ d @ replicate z 0"
    and lt: "length d < 256 ^ plen" and short: "length p < 2 ^ 63"
    using padded_shape by blast
  from short p lt show "unpadded p = Some d"
    using unpadded_slice[of p] by simp
next
  fix d
  show "map_option length (padded d) = bucket_for (length d)"
    by (cases "bucket_for (length d)") (simp_all add: padded_layout)
qed

section \<open>Errors of the wire layer\<close>

datatype ProtoError =
    TooLargeToPad nat nat
  | PaddedBufferTooShort
  | PaddedLengthInvalid nat nat
  | DerivationLengthInvalid nat
  | Serialization string

section \<open>The envelope buckets\<close>

definition BUCKETS :: "nat list" where
  "BUCKETS = [256, 1024, 4096]"

definition LEN_PREFIX_SIZE :: nat where
  "LEN_PREFIX_SIZE = 4"

definition pad :: "bytes \<Rightarrow> (bytes, ProtoError) outcome" where
  "pad data =
     (let needed = length data + LEN_PREFIX_SIZE in
      case find (\<lambda>b. needed \<le> b) BUCKETS of
        None \<Rightarrow> Err (TooLargeToPad (length data) (last BUCKETS - LEN_PREFIX_SIZE))
      | Some bucket \<Rightarrow>
          Ok (resize bucket 0 (u32_to_be_bytes (word_of_nat (length data)) @ data)))"

definition unpad :: "bytes \<Rightarrow> (bytes, ProtoError) outcome" where
  "unpad padded =
     (if length padded < LEN_PREFIX_SIZE then Err PaddedBufferTooShort
      else
        let declared = be_decode (take LEN_PREFIX_SIZE padded);
            end = LEN_PREFIX_SIZE + declared
        in if length padded < end
           then Err (PaddedLengthInvalid declared (length padded))
           else Ok (take (end - LEN_PREFIX_SIZE) (drop LEN_PREFIX_SIZE padded)))"

text \<open>The bucket an input of a given length is put into.\<close>

definition envelope_bucket :: "nat \<Rightarrow> nat option" where
  "envelope_bucket n = find (\<lambda>b. n + LEN_PREFIX_SIZE \<le> b) BUCKETS"

definition ok_value :: "('a, 'e) outcome \<Rightarrow> 'a option" where
  "ok_value r = (case r of Ok a \<Rightarrow> Some a | Err e \<Rightarrow> None | Panic \<Rightarrow> None)"

lemma ok_value_Some_iff [simp]: "ok_value r = Some a \<longleftrightarrow> r = Ok a"
  by (cases r) (auto simp: ok_value_def)

lemma envelope_bucket_simp:
  "envelope_bucket n =
     (if n \<le> 252 then Some 256 else if n \<le> 1020 then Some 1024
      else if n \<le> 4092 then Some 4096 else None)"
  by (auto simp: envelope_bucket_def BUCKETS_def LEN_PREFIX_SIZE_def)

lemma envelope_bucket_fits: "envelope_bucket n = Some b \<Longrightarrow> n + 4 \<le> b \<and> n < 256 ^ 4"
  by (auto simp: envelope_bucket_simp split: if_splits)

lemma pad_layout:
  "ok_value (pad d) =
     map_option (\<lambda>b. resize b 0 (be_encode 4 (length d) @ d)) (envelope_bucket (length d))"
proof (cases "envelope_bucket (length d)")
  case None
  then show ?thesis by (simp add: pad_def envelope_bucket_def ok_value_def Let_def)
next
  case (Some b)
  then have "unat (word_of_nat (length d) :: u32) = length d"
    using envelope_bucket_fits[OF Some] by (simp add: unat_of_nat)
  with Some show ?thesis
    by (simp add: pad_def envelope_bucket_def Let_def u32_to_be_bytes_def ok_value_def)
qed

interpretation env_pad: length_prefixed 4 envelope_bucket "\<lambda>d. ok_value (pad d)" "\<lambda>p. ok_value (unpad p)"
proof
  show "envelope_bucket n = Some b \<Longrightarrow> n + 4 \<le> b \<and> n < 256 ^ 4 \<and> b < 2 ^ 63" for n b
    using envelope_bucket_fits[of n b] by (auto simp: envelope_bucket_simp split: if_splits)
  show "ok_value (pad d) =
    map_option (\<lambda>b. resize b 0 (be_encode 4 (length d) @ d)) (envelope_bucket (length d))" for d
    by (rule pad_layout)
  show "ok_value (unpad p) = Some (take (be_decode (take 4 p)) (drop 4 p))"
    if "length p < 2 ^ 63" and "4 \<le> length p" and "4 + be_decode (take 4 p) \<le> length p" for p
    using that by (simp add: unpad_def LEN_PREFIX_SIZE_def Let_def)
qed

lemma pad_Ok_iff: "(\<exists>p. pad d = Ok p) \<longleftrightarrow> length d \<le> 4092"
  using env_pad.ps.pad_defined_iff[of d] by (auto simp: envelope_bucket_simp split: if_splits)

lemma pad_Err: "4092 < length d \<Longrightarrow> pad d = Err (TooLargeToPad (length d) 4092)"
  by (simp add: pad_def BUCKETS_def LEN_PREFIX_SIZE_def)

lemma pad_length_bucket: "pad d = Ok p \<Longrightarrow> envelope_bucket (length d) = Some (length p)"
  using env_pad.padded_shape(2)[of d p] by simp

section \<open>Properties\<close>

text \<open>
  C27: padding then unpadding returns the original data, for every input that fits the largest
  bucket (4092 bytes plus the 4-byte length); anything longer is refused with
  \<^verbatim>\<open>TooLargeToPad\<close> and never truncated.
\<close>

theorem unpad_pad_roundtrip:
  "(if length d \<le> 4092
    then \<exists>p. pad d = Ok p \<and> length p \<in> set BUCKETS \<and> unpad p = Ok d
    else pad d = Err (TooLargeToPad (length d) 4092))"
proof (cases "length d \<le> 4092")
  case True
  then obtain p where p: "pad d = Ok p" using pad_Ok_iff by blast
  moreover from p have "unpad p = Ok d" using env_pad.ps.unpad_pad[of d p] by simp
  moreover from pad_length_bucket[OF p] have "length p \<in> set BUCKETS"
    by (auto simp: envelope_bucket_simp BUCKETS_def split: if_splits)
  ultimately show ?thesis using True by auto
qed (simp add: pad_Err)

text \<open>
  The length of a padded buffer reveals only which bucket the data falls into: two inputs
  have the same padded length exactly when they have the same bucket.
\<close>

lemma padded_length_reveals_bucket_only:
  assumes "pad d = Ok p" and "pad e = Ok q"
  shows "length p = length q \<longleftrightarrow> envelope_bucket (length d) = envelope_bucket (length e)"
  using env_pad.ps.length_reveals_class_only[of d p e q] assms by simp

text \<open>
  \<^verbatim>\<open>unpad\<close> is total on arbitrary bytes from the network and accepts exactly the
  buffers that carry their data's length in front of it: \<open>unpad p\<close> is \<open>Ok d\<close> if and only
  if \<open>p\<close> is the 4-byte big-endian length of \<open>d\<close>, then \<open>d\<close>, then anything; it never
  panics.
\<close>

lemma unpad_accepts_exactly:
  "(unpad p = Ok d \<longleftrightarrow> (\<exists>rest. length d < 2 ^ 32 \<and> p = be_encode 4 (length d) @ d @ rest))
   \<and> unpad p \<noteq> Panic"
proof (intro conjI iffI)
  assume "unpad p = Ok d"
  then have len: "4 \<le> length p" "4 + be_decode (take 4 p) \<le> length p"
    and d: "d = take (be_decode (take 4 p)) (drop 4 p)"
    by (auto simp: unpad_def LEN_PREFIX_SIZE_def Let_def split: if_splits)
  then have ld: "length d = be_decode (take 4 p)" by simp
  have "be_decode (take 4 p) < 2 ^ 32" using be_decode_bound[of "take 4 p"] len(1) by simp
  moreover have "be_encode 4 (length d) = take 4 p"
    using be_encode_be_decode[of "take 4 p"] len(1) ld by simp
  moreover have "drop 4 p = d @ drop (length d) (drop 4 p)"
    by (metis append_take_drop_id d ld)
  ultimately show "\<exists>rest. length d < 2 ^ 32 \<and> p = be_encode 4 (length d) @ d @ rest"
    using ld by (metis append_take_drop_id)
next
  assume "\<exists>rest. length d < 2 ^ 32 \<and> p = be_encode 4 (length d) @ d @ rest"
  then show "unpad p = Ok d"
    by (auto simp: unpad_def LEN_PREFIX_SIZE_def Let_def)
next
  show "unpad p \<noteq> Panic" by (simp add: unpad_def Let_def)
qed

end
