(* ===== verification/Proto_Wire.thy ===== *)
theory Proto_Wire
  imports Proto_Padding
begin

text \<open>
  \<^verbatim>\<open>crates/pm-proto/src/envelope.rs\<close>, \<^verbatim>\<open>node_protocol.rs\<close> and
  \<^verbatim>\<open>direct_protocol.rs\<close>: the envelope and the messages of the two wire protocols. The
  serialiser (the \<^verbatim>\<open>bincode\<close> crate) is a parameter, a pair of functions per type;
  \<open>codec_roundtrip\<close> is what bincode documents of it: a value that serialises is what its
  bytes deserialise to.
\<close>

section \<open>Serialisation as a parameter\<close>

record 'a codec =
  enc :: "'a \<Rightarrow> string + bytes"
  dec :: "bytes \<Rightarrow> string + 'a"

definition codec_roundtrip :: "'a codec \<Rightarrow> bool" where
  "codec_roundtrip c \<longleftrightarrow> (\<forall>x b. enc c x = Inr b \<longrightarrow> dec c b = Inr x)"

text \<open>A codec that knows one value, for instances.\<close>

definition single_codec :: "'a \<Rightarrow> bytes \<Rightarrow> 'a codec" where
  "single_codec v bs =
     \<lparr>enc = (\<lambda>x. if x = v then Inr bs else Inl ''unsupported''),
      dec = (\<lambda>b. if b = bs then Inr v else Inl ''invalid'')\<rparr>"

lemma single_codec_roundtrip: "codec_roundtrip (single_codec v bs)"
  by (simp add: codec_roundtrip_def single_codec_def)

lemma codec_roundtripD: "codec_roundtrip c \<Longrightarrow> enc c x = Inr b \<Longrightarrow> dec c b = Inr x"
  by (simp add: codec_roundtrip_def)

section \<open>The envelope\<close>

definition ENVELOPE_VERSION :: byte where
  "ENVELOPE_VERSION = 1"

record AttachmentRef =
  att_id :: bytes
  att_size :: u64

record Envelope =
  version :: byte
  olm_type :: byte
  ciphertext :: bytes
  env_n :: u64
  env_lamport :: u64
  env_sent_at :: u64
  env_msg_id :: bytes
  attachments :: "AttachmentRef list"

definition Envelope_new ::
  "byte \<Rightarrow> bytes \<Rightarrow> u64 \<Rightarrow> u64 \<Rightarrow> u64 \<Rightarrow> bytes \<Rightarrow> Envelope" where
  "Envelope_new otype ct n lamport sent_at msg_id =
     \<lparr>version = ENVELOPE_VERSION, olm_type = otype, ciphertext = ct, env_n = n,
      env_lamport = lamport, env_sent_at = sent_at, env_msg_id = msg_id, attachments = []\<rparr>"

definition to_padded_bytes :: "Envelope codec \<Rightarrow> Envelope \<Rightarrow> (bytes, ProtoError) outcome" where
  "to_padded_bytes c env =
     (case enc c env of Inl e \<Rightarrow> Err (Serialization e) | Inr bs \<Rightarrow> pad bs)"

definition from_padded_bytes :: "Envelope codec \<Rightarrow> bytes \<Rightarrow> (Envelope, ProtoError) outcome" where
  "from_padded_bytes c padded =
     bind_outcome (unpad padded)
       (\<lambda>bs. case dec c bs of Inl e \<Rightarrow> Err (Serialization e) | Inr env \<Rightarrow> Ok env)"

lemma to_padded_bytes_OkE:
  assumes "to_padded_bytes c env = Ok p"
  obtains bs where "enc c env = Inr bs" and "pad bs = Ok p"
  using assms by (auto simp: to_padded_bytes_def split: sum.splits)

lemma from_to_padded_bytes:
  assumes "codec_roundtrip c" and "to_padded_bytes c env = Ok p"
  shows "from_padded_bytes c p = Ok env"
proof -
  from assms(2) obtain bs where bs: "enc c env = Inr bs" and p: "pad bs = Ok p"
    by (rule to_padded_bytes_OkE)
  from p have "unpad p = Ok bs" using env_pad.ps.unpad_pad[of bs p] by simp
  with codec_roundtripD[OF assms(1) bs] show ?thesis by (simp add: from_padded_bytes_def)
qed

lemma from_padded_bytes_not_Panic [simp]: "from_padded_bytes c p \<noteq> Panic"
  by (auto simp: from_padded_bytes_def unpad_def Let_def split: sum.splits)

section \<open>The node protocol\<close>

definition MAX_MESSAGE_SIZE :: nat where
  "MAX_MESSAGE_SIZE = 1024 * 1024"

datatype NodeRequest =
    RegisterSlot bytes bytes                  \<comment> \<open>mailbox key, slot hash\<close>
  | Write bytes bytes                         \<comment> \<open>auth, blob\<close>
  | Fetch bytes                               \<comment> \<open>mailbox key\<close>
  | Ack bytes "u64 list"                      \<comment> \<open>mailbox key, ids\<close>
  | PutBackup bytes bytes                     \<comment> \<open>mailbox key, blob\<close>
  | GetBackup bytes                           \<comment> \<open>mailbox key\<close>
  | ScheduleRetry bytes bytes bytes bytes     \<comment> \<open>mailbox key, msg id, recipient key, envelope\<close>
  | PollFailedDeliveries bytes                \<comment> \<open>mailbox key\<close>

record StoredBlob =
  blob_id :: u64
  blob_data :: bytes
  blob_delivered :: bool

datatype NodeResponse =
    RespOk
  | Blobs "StoredBlob list"
  | Backup "bytes option"
  | FailedDeliveries "bytes list"
  | RespError string

section \<open>The direct protocol\<close>

datatype DirectAck = AckOk | AckError string

section \<open>Properties\<close>

text \<open>
  Envelopes survive the wire. An envelope that serialises to at most 4092 bytes is padded to
  one of the three bucket sizes and read back unchanged; a longer one is refused, and bytes that
  came from no envelope are an error value, never a panic.
\<close>

lemma envelope_roundtrip:
  assumes "codec_roundtrip c" and "enc c env = Inr bs"
  shows "(if length bs \<le> 4092
          then \<exists>p. to_padded_bytes c env = Ok p \<and> length p \<in> set BUCKETS
                 \<and> from_padded_bytes c p = Ok env
          else to_padded_bytes c env = Err (TooLargeToPad (length bs) 4092))
    \<and> from_padded_bytes c q \<noteq> Panic"
proof (cases "length bs \<le> 4092")
  case True
  then obtain p where p: "pad bs = Ok p" using pad_Ok_iff by blast
  then have tp: "to_padded_bytes c env = Ok p" by (simp add: to_padded_bytes_def assms(2))
  moreover from pad_length_bucket[OF p] have "length p \<in> set BUCKETS"
    by (auto simp: envelope_bucket_simp BUCKETS_def split: if_splits)
  ultimately show ?thesis using True from_to_padded_bytes[OF assms(1) tp] by auto
next
  case False
  then show ?thesis by (simp add: to_padded_bytes_def assms(2) pad_Err)
qed

definition sample_envelope :: Envelope where
  "sample_envelope = Envelope_new 0 [171, 171] 42 100 1754000000000 (replicate 16 7)"

lemma envelope_roundtrip_witness:
  "\<exists>p. to_padded_bytes (single_codec sample_envelope [1, 2, 3]) sample_envelope = Ok p
     \<and> length p \<in> set BUCKETS
     \<and> from_padded_bytes (single_codec sample_envelope [1, 2, 3]) p = Ok sample_envelope"
proof -
  have e: "enc (single_codec sample_envelope [1, 2, 3]) sample_envelope = Inr [1, 2, 3]"
    by (simp add: single_codec_def)
  show ?thesis using envelope_roundtrip[OF single_codec_roundtrip e] by simp
qed

end
