(* ===== verification/Node_Store.thy ===== *)
theory Node_Store
  imports Proto_Wire
begin

text \<open>
  \<^verbatim>\<open>crates/pm-node/src/store.rs\<close> over the schema of
  \<^verbatim>\<open>crates/pm-node/src/migrations/0001_init.sql\<close>: the mailbox of one owner. The state is
  the database, one list of rows per table; the retry tables are here because the two stores
  share one connection, and are used by the theory \<^verbatim>\<open>Node_Retry\<close>. SHA-256 (the
  \<^verbatim>\<open>sha2\<close> crate) is a parameter. The \<open>mailbox\<close> locale is the contract the request
  handler relies on, proved of the SQL statements by interpretation through the abstract mailbox
  of section \<open>Abstract mailbox\<close>.
\<close>

section \<open>The node's database\<close>

record blob_row =
  br_id :: i64
  br_blob :: bytes
  br_delivered :: i64

record retry_row =
  rr_msg_id :: bytes
  rr_recipient :: bytes
  rr_envelope :: bytes
  rr_attempts :: i64
  rr_next_attempt_at_ms :: i64

text \<open>
  \<open>blobs_seq\<close> is the table's row of \<^verbatim>\<open>sqlite_sequence\<close>, from which an
  \<^verbatim>\<open>AUTOINCREMENT\<close> key is taken; \<open>backup_row\<close> is the table that \<^verbatim>\<open>CHECK (id = 0)\<close>
  limits to one row.
\<close>

record node_db =
  registered_slots :: "bytes list"
  blobs :: "blob_row list"
  blobs_seq :: i64
  backup_row :: "bytes option"
  retry_entries :: "retry_row list"
  failed_deliveries :: "bytes list"

definition empty_node_db :: node_db where
  "empty_node_db =
     \<lparr>registered_slots = [], blobs = [], blobs_seq = 0, backup_row = None,
      retry_entries = [], failed_deliveries = []\<rparr>"

section \<open>MailboxStore\<close>

datatype WriteError = NoMatchingSlot

definition register_slot :: "bytes \<Rightarrow> node_db \<Rightarrow> node_db" where
  "register_slot slot_hash db =
     db\<lparr>registered_slots := insert_or_ignore (\<lambda>h. h) slot_hash (registered_slots db)\<rparr>"

text \<open>
  Consume the slot, then store the blob, in one transaction: a failure between the two leaves
  the database as it was. An \<^verbatim>\<open>AUTOINCREMENT\<close> table that has used the largest rowid
  refuses the insert, which the code turns into a panic.
\<close>

definition store_write ::
  "(bytes \<Rightarrow> bytes) \<Rightarrow> bytes \<Rightarrow> bytes \<Rightarrow> (node_db, u64, WriteError) action" where
  "store_write sha256 auth blob db =
     (let slot_hash = sha256 auth in
      if slot_hash \<notin> set (registered_slots db) then (Err NoMatchingSlot, db)
      else if blobs_seq db \<ge> i64_max then (Panic, db)
      else
        let new_id = blobs_seq db + 1 in
        (Ok (as_u64 new_id),
         db\<lparr>registered_slots := delete_where (\<lambda>h. h = slot_hash) (registered_slots db),
            blobs := blobs db @ [\<lparr>br_id = new_id, br_blob = blob, br_delivered = 0\<rparr>],
            blobs_seq := new_id\<rparr>))"

definition row_to_blob :: "blob_row \<Rightarrow> StoredBlob" where
  "row_to_blob r =
     \<lparr>blob_id = as_u64 (br_id r), blob_data = br_blob r, blob_delivered = (br_delivered r \<noteq> 0)\<rparr>"

definition fetch_all :: "node_db \<Rightarrow> StoredBlob list" where
  "fetch_all db = map row_to_blob (sort_key br_id (blobs db))"

definition ack_one :: "u64 \<Rightarrow> blob_row list \<Rightarrow> blob_row list" where
  "ack_one i rows = update_where (\<lambda>r. br_id r = as_i64 i) (br_delivered_update (\<lambda>_. 1)) rows"

definition ack :: "u64 list \<Rightarrow> node_db \<Rightarrow> node_db" where
  "ack ids db = db\<lparr>blobs := fold ack_one ids (blobs db)\<rparr>"

definition put_backup :: "bytes \<Rightarrow> node_db \<Rightarrow> node_db" where
  "put_backup blob db = db\<lparr>backup_row := Some blob\<rparr>"

definition get_backup :: "node_db \<Rightarrow> bytes option" where
  "get_backup db = backup_row db"

section \<open>Well-formed databases\<close>

text \<open>
  What the schema and the statements keep true of the mailbox tables: slots are distinct, blob
  ids are strictly increasing, positive and at most the sequence counter.
\<close>

definition mailbox_wf :: "node_db \<Rightarrow> bool" where
  "mailbox_wf db \<longleftrightarrow>
     distinct (registered_slots db)
   \<and> sorted_wrt (<) (map br_id (blobs db))
   \<and> (\<forall>i \<in> br_id ` set (blobs db). 0 < i \<and> i \<le> blobs_seq db)
   \<and> 0 \<le> blobs_seq db \<and> blobs_seq db \<le> i64_max"

lemma mailbox_wf_empty [simp]: "mailbox_wf empty_node_db"
  by (simp add: mailbox_wf_def empty_node_db_def i64_max_def)

lemma register_slot_wf [intro]: "mailbox_wf db \<Longrightarrow> mailbox_wf (register_slot h db)"
  using distinct_insert_or_ignore[of "\<lambda>h. h" "registered_slots db" h]
  by (simp add: mailbox_wf_def register_slot_def)

lemma store_write_wf [intro]:
  assumes "mailbox_wf db"
  shows "mailbox_wf (snd (store_write sha auth blob db))"
proof -
  have "sorted_wrt (<) (map br_id (blobs db) @ [blobs_seq db + 1])"
    using assms by (fastforce simp: mailbox_wf_def sorted_wrt_append)
  then show ?thesis
    using assms distinct_delete_where[of "\<lambda>h. h" "registered_slots db"]
    by (auto simp: mailbox_wf_def store_write_def Let_def)
qed

lemma ack_one_ids [simp]: "map br_id (ack_one i rows) = map br_id rows"
  by (simp add: ack_one_def map_update_where)

lemma fold_ack_one_ids [simp]: "map br_id (fold ack_one ids rows) = map br_id rows"
  by (induction ids arbitrary: rows) auto

lemma fold_ack_one_id_set [simp]: "br_id ` set (fold ack_one ids rows) = br_id ` set rows"
  by (metis fold_ack_one_ids list.set_map)

lemma length_fold_ack_one [simp]: "length (fold ack_one ids rows) = length rows"
  by (metis fold_ack_one_ids length_map)

lemma ack_wf [intro]: "mailbox_wf db \<Longrightarrow> mailbox_wf (ack ids db)"
  by (simp add: mailbox_wf_def ack_def)

lemma put_backup_wf [intro]: "mailbox_wf db \<Longrightarrow> mailbox_wf (put_backup b db)"
  by (simp add: mailbox_wf_def put_backup_def)

section \<open>Abstract mailbox\<close>

text \<open>What the tables mean: a set of open slots and the stored blobs by id.\<close>

definition slots :: "node_db \<Rightarrow> bytes set" where
  "slots db = set (registered_slots db)"

definition stored :: "node_db \<Rightarrow> u64 \<Rightarrow> (bytes \<times> bool) option" where
  "stored db i =
     map_option (\<lambda>r. (br_blob r, br_delivered r \<noteq> 0)) (lookup_row br_id (as_i64 i) (blobs db))"

definition mark_delivered_in :: "u64 set \<Rightarrow> (u64 \<Rightarrow> (bytes \<times> bool) option) \<Rightarrow> u64 \<Rightarrow> (bytes \<times> bool) option"
  where "mark_delivered_in I m i = map_option (\<lambda>(b, d). (b, d \<or> i \<in> I)) (m i)"

text \<open>
  The contract of a mailbox: registering opens a slot, a write spends exactly the slot its
  authorisation hashes to and stores the blob under an id never used before, an acknowledgement
  only sets the delivered mark, and a refused write changes nothing.
\<close>

locale mailbox =
  fixes reg :: "'h \<Rightarrow> 's \<Rightarrow> 's"
    and wr :: "'a \<Rightarrow> bytes \<Rightarrow> 's \<Rightarrow> (u64, 'e) outcome \<times> 's"
    and mark :: "u64 list \<Rightarrow> 's \<Rightarrow> 's"
    and hash :: "'a \<Rightarrow> 'h"
    and open_slots :: "'s \<Rightarrow> 'h set"
    and contents :: "'s \<Rightarrow> u64 \<Rightarrow> (bytes \<times> bool) option"
    and invar :: "'s \<Rightarrow> bool"
  assumes reg_slots: "open_slots (reg h s) = insert h (open_slots s)"
    and reg_contents: "contents (reg h s) = contents s"
    and wr_refused: "hash a \<notin> open_slots s \<Longrightarrow> \<exists>e. wr a b s = (Err e, s)"
    and wr_unchanged: "wr a b s = (r, s') \<Longrightarrow> \<not> is_ok r \<Longrightarrow> s' = s"
    and wr_accepted: "invar s \<Longrightarrow> wr a b s = (Ok i, s') \<Longrightarrow>
      hash a \<in> open_slots s \<and> open_slots s' = open_slots s - {hash a}
      \<and> contents s i = None \<and> contents s' = (contents s)(i \<mapsto> (b, False))"
    and mark_slots: "open_slots (mark ids s) = open_slots s"
    and mark_contents: "contents (mark ids s) = mark_delivered_in (set ids) (contents s)"
    and reg_invar: "invar s \<Longrightarrow> invar (reg h s)"
    and wr_invar: "invar s \<Longrightarrow> invar (snd (wr a b s))"
    and mark_invar: "invar s \<Longrightarrow> invar (mark ids s)"
begin

lemma no_replay:
  assumes "invar s" and "wr a b s = (Ok i, s')"
  shows "\<exists>e. wr a b' s' = (Err e, s')"
  using wr_accepted[OF assms] by (intro wr_refused) simp

lemma read_back:
  assumes "invar s" and "wr a b s = (Ok i, s')"
  shows "contents s' i = Some (b, False)"
  using wr_accepted[OF assms] by simp

lemma wr_keeps_contents:
  assumes "invar s" and "contents s j = Some v"
  shows "contents (snd (wr a b s)) j = Some v"
proof (cases "wr a b s")
  case (Pair r s')
  show ?thesis
  proof (cases r)
    case (Ok i)
    with wr_accepted[OF assms(1)] Pair assms(2) have "i \<noteq> j" "contents s' = (contents s)(i \<mapsto> (b, False))"
      by auto
    with Pair assms(2) show ?thesis by simp
  qed (use Pair assms(2) wr_unchanged[OF Pair] in auto)
qed

lemma mark_keeps_contents:
  assumes "contents s j = Some (b, d)"
  shows "contents (mark ids s) j = Some (b, d \<or> j \<in> set ids)"
  using assms by (simp add: mark_contents mark_delivered_in_def)

lemma mark_adds_nothing: "contents s j = None \<Longrightarrow> contents (mark ids s) j = None"
  by (simp add: mark_contents mark_delivered_in_def)

end

subsection \<open>The SQL statements implement it\<close>

lemma slots_register [simp]: "slots (register_slot h db) = insert h (slots db)"
  by (auto simp: slots_def register_slot_def insert_or_ignore_def)

lemma slots_empty [simp]: "slots empty_node_db = {}"
  by (simp add: slots_def empty_node_db_def)

lemma stored_cong [simp]: "stored (db\<lparr>registered_slots := x\<rparr>) = stored db"
  "stored (db\<lparr>backup_row := y\<rparr>) = stored db" "stored (db\<lparr>retry_entries := z\<rparr>) = stored db"
  "stored (db\<lparr>failed_deliveries := u\<rparr>) = stored db"
  by (auto simp: stored_def fun_eq_iff)

lemma lookup_ack_one:
  "lookup_row br_id k (ack_one i rows) =
     (if k = as_i64 i then map_option (br_delivered_update (\<lambda>_. 1)) (lookup_row br_id k rows)
      else lookup_row br_id k rows)"
  by (simp add: ack_one_def lookup_row_update_where)

lemma stored_ack: "stored (ack ids db) = mark_delivered_in (set ids) (stored db)"
proof
  fix i
  have "map_option (\<lambda>r. (br_blob r, br_delivered r \<noteq> 0)) (lookup_row br_id (as_i64 i) (fold ack_one ids rows)) =
    mark_delivered_in (set ids)
      (\<lambda>i. map_option (\<lambda>r. (br_blob r, br_delivered r \<noteq> 0)) (lookup_row br_id (as_i64 i) rows)) i" for rows
  proof (induction ids arbitrary: rows)
    case Nil
    then show ?case by (simp add: mark_delivered_in_def option.map_comp comp_def)
  next
    case (Cons j ids)
    show ?case
      by (simp add: Cons.IH mark_delivered_in_def lookup_ack_one option.map_comp comp_def)
  qed
  then show "stored (ack ids db) i = mark_delivered_in (set ids) (stored db) i"
    by (simp add: stored_def ack_def mark_delivered_in_def)
qed

lemma store_write_Ok_iff:
  "store_write sha a b db = (Ok i, db') \<longleftrightarrow>
     sha a \<in> slots db \<and> blobs_seq db < i64_max \<and> i = as_u64 (blobs_seq db + 1)
   \<and> db' = db\<lparr>registered_slots := delete_where (\<lambda>h. h = sha a) (registered_slots db),
              blobs := blobs db @ [\<lparr>br_id = blobs_seq db + 1, br_blob = b, br_delivered = 0\<rparr>],
              blobs_seq := blobs_seq db + 1\<rparr>"
  by (auto simp: store_write_def slots_def Let_def)

lemma stored_fresh:
  assumes "mailbox_wf db" and "blobs_seq db < i64_max"
  shows "lookup_row br_id (blobs_seq db + 1) (blobs db) = None"
  using assms by (fastforce simp: lookup_row_None_iff mailbox_wf_def)

lemma store_write_accepted:
  assumes wf: "mailbox_wf db" and ok: "store_write sha a b db = (Ok i, db')"
  shows "sha a \<in> slots db \<and> slots db' = slots db - {sha a}
    \<and> stored db i = None \<and> stored db' = (stored db)(i \<mapsto> (b, False))"
proof -
  from ok have mem: "sha a \<in> slots db" and lt: "blobs_seq db < i64_max"
    and i: "i = as_u64 (blobs_seq db + 1)"
    and db': "db' = db\<lparr>registered_slots := delete_where (\<lambda>h. h = sha a) (registered_slots db),
              blobs := blobs db @ [\<lparr>br_id = blobs_seq db + 1, br_blob = b, br_delivered = 0\<rparr>],
              blobs_seq := blobs_seq db + 1\<rparr>"
    by (simp_all add: store_write_Ok_iff)
  from wf lt have "i64_min \<le> blobs_seq db + 1" "blobs_seq db + 1 \<le> i64_max"
    by (simp_all add: mailbox_wf_def i64_min_def)
  then have ai: "as_i64 i = blobs_seq db + 1" by (simp add: i)
  have none: "lookup_row br_id (as_i64 i) (blobs db) = None"
    using stored_fresh[OF wf lt] ai by simp
  have "stored db' = (stored db)(i \<mapsto> (b, False))"
  proof
    fix j
    show "stored db' j = ((stored db)(i \<mapsto> (b, False))) j"
      using none by (cases "j = i")
        (auto simp: stored_def db' lookup_row_append ai as_i64_eq_iff[symmetric] simp del: as_i64_eq_iff
          split: option.splits)
  qed
  moreover have "stored db i = None" using none by (simp add: stored_def)
  moreover have "slots db' = slots db - {sha a}" by (auto simp: slots_def db')
  ultimately show ?thesis using mem by simp
qed

interpretation mb: mailbox register_slot "store_write sha" ack sha slots stored mailbox_wf for sha
proof
  show "slots (register_slot h db) = insert h (slots db)" for h db by simp
  show "stored (register_slot h db) = stored db" for h db by (simp add: register_slot_def)
  show "sha a \<notin> slots db \<Longrightarrow> \<exists>e. store_write sha a b db = (Err e, db)" for a b db
    by (simp add: store_write_def slots_def)
  show "store_write sha a b db = (r, db') \<Longrightarrow> \<not> is_ok r \<Longrightarrow> db' = db" for a b db r db'
    by (auto simp: store_write_def Let_def split: if_splits)
  show "slots (ack ids db) = slots db" for ids db by (simp add: slots_def ack_def)
  show "sha a \<in> slots db \<and> slots db' = slots db - {sha a} \<and> stored db i = None
      \<and> stored db' = (stored db)(i \<mapsto> (b, False))"
    if "mailbox_wf db" "store_write sha a b db = (Ok i, db')" for db a b i db'
    using that by (rule store_write_accepted)
qed (auto simp: stored_ack)

subsection \<open>What a fetch returns\<close>

lemma fetch_all_unsorted: "mailbox_wf db \<Longrightarrow> fetch_all db = map row_to_blob (blobs db)"
  by (simp add: fetch_all_def mailbox_wf_def strict_sorted_iff sorted_sort_id sort_key_id_if_sorted)

lemma blob_ids_in_range:
  "mailbox_wf db \<Longrightarrow> r \<in> set (blobs db) \<Longrightarrow> 0 < br_id r \<and> br_id r \<le> i64_max"
  by (fastforce simp: mailbox_wf_def)

lemma as_i64_blob_id:
  assumes "mailbox_wf db" and "r \<in> set (blobs db)"
  shows "as_i64 (as_u64 (br_id r)) = br_id r"
  using blob_ids_in_range[OF assms] by (intro as_i64_as_u64) (simp_all add: i64_min_def)

lemma distinct_blob_ids: "mailbox_wf db \<Longrightarrow> distinct (map br_id (blobs db))"
  by (simp add: mailbox_wf_def strict_sorted_iff)

lemma fetch_all_iff_stored:
  assumes wf: "mailbox_wf db"
  shows "b \<in> set (fetch_all db) \<longleftrightarrow> stored db (blob_id b) = Some (blob_data b, blob_delivered b)"
proof
  assume "b \<in> set (fetch_all db)"
  then obtain r where r: "r \<in> set (blobs db)" and b: "b = row_to_blob r"
    by (auto simp: fetch_all_unsorted[OF wf])
  then have "lookup_row br_id (as_i64 (blob_id b)) (blobs db) = Some r"
    using lookup_row_distinct[OF distinct_blob_ids[OF wf]] as_i64_blob_id[OF wf r]
    by (simp add: row_to_blob_def)
  then show "stored db (blob_id b) = Some (blob_data b, blob_delivered b)"
    by (simp add: stored_def b row_to_blob_def)
next
  assume "stored db (blob_id b) = Some (blob_data b, blob_delivered b)"
  then obtain r where r: "lookup_row br_id (as_i64 (blob_id b)) (blobs db) = Some r"
    and data: "blob_data b = br_blob r" "blob_delivered b = (br_delivered r \<noteq> 0)"
    by (auto simp: stored_def)
  from lookup_row_SomeD[OF r] have "r \<in> set (blobs db)" "br_id r = as_i64 (blob_id b)" by auto
  moreover from this data have "b = row_to_blob r" by (simp add: row_to_blob_def)
  ultimately show "b \<in> set (fetch_all db)" by (simp add: fetch_all_unsorted[OF wf])
qed

lemma fetch_all_ids_increasing:
  assumes wf: "mailbox_wf db"
  shows "sorted_wrt (<) (map blob_id (fetch_all db))"
proof -
  have "as_u64 (br_id r) < as_u64 (br_id s)"
    if "r \<in> set (blobs db)" "s \<in> set (blobs db)" "br_id r < br_id s" for r s
    using that blob_ids_in_range[OF wf, of r] blob_ids_in_range[OF wf, of s]
    by (simp add: word_less_nat_alt unat_as_u64)
  moreover have "sorted_wrt (\<lambda>r s. br_id r < br_id s) (blobs db)"
    using wf by (simp add: mailbox_wf_def sorted_wrt_map)
  ultimately show ?thesis
    by (auto simp: fetch_all_unsorted[OF wf] sorted_wrt_map row_to_blob_def
        intro: sorted_wrt_mono_rel[rotated])
qed

section \<open>Properties\<close>

text \<open>
  A write is a one-time, authorised deposit. In a well-formed mailbox whose id space is not
  exhausted, a write succeeds exactly when the SHA-256 of its authorisation is a registered
  slot; it then consumes that slot and no other, stores the blob unread under an id not in use,
  leaves every other blob as it was, and a second write with the same authorisation is refused
  and changes nothing.
\<close>

lemma write_spends_one_slot:
  assumes "mailbox_wf db" and "blobs_seq db < i64_max"
  shows "(if sha auth \<in> slots db
          then \<exists>i db'. store_write sha auth blob db = (Ok i, db')
                 \<and> slots db' = slots db - {sha auth}
                 \<and> stored db i = None
                 \<and> stored db' = (stored db)(i \<mapsto> (blob, False))
                 \<and> (\<forall>blob2. store_write sha auth blob2 db' = (Err NoMatchingSlot, db'))
          else store_write sha auth blob db = (Err NoMatchingSlot, db))"
proof (cases "sha auth \<in> slots db")
  case True
  with assms(2) obtain i db' where ok: "store_write sha auth blob db = (Ok i, db')"
    by (simp add: store_write_def slots_def Let_def)
  from mb.no_replay[OF assms(1) ok]
  have "store_write sha auth blob2 db' = (Err NoMatchingSlot, db')" for blob2
    by (metis WriteError.exhaust)
  with True ok mb.wr_accepted[OF assms(1) ok] show ?thesis by auto
qed (simp add: store_write_def slots_def)

text \<open>
  A fetch reports the whole mailbox, once and in order: the ids are strictly increasing, and
  a blob is in the answer exactly when it is stored under that id with that delivered mark.
\<close>

lemma fetch_reports_everything_in_order:
  assumes "mailbox_wf db"
  shows "sorted_wrt (<) (map blob_id (fetch_all db))
    \<and> (b \<in> set (fetch_all db) \<longleftrightarrow>
         stored db (blob_id b) = Some (blob_data b, blob_delivered b))"
  using fetch_all_ids_increasing[OF assms] fetch_all_iff_stored[OF assms] by blast

definition sample_mailbox :: node_db where
  "sample_mailbox =
     snd (store_write (\<lambda>a. a) [2] [8, 9]
       (snd (store_write (\<lambda>a. a) [1] [5] (register_slot [2] (register_slot [1] empty_node_db)))))"

lemma sample_mailbox_wf: "mailbox_wf sample_mailbox"
  unfolding sample_mailbox_def by (intro store_write_wf register_slot_wf mailbox_wf_empty)

text \<open>
  Acknowledging marks and keeps. After an acknowledgement every stored blob is still stored
  with its bytes unchanged, exactly the acknowledged ids have become delivered, unknown ids are
  ignored, and acknowledging the same ids again changes nothing.
\<close>

lemma ack_marks_and_keeps:
  "stored (ack ids db) i =
     map_option (\<lambda>(b, d). (b, d \<or> i \<in> set ids)) (stored db i)
   \<and> stored (ack ids (ack ids db)) = stored (ack ids db)
   \<and> slots (ack ids db) = slots db \<and> length (blobs (ack ids db)) = length (blobs db)"
proof -
  have "length (blobs (ack ids db)) = length (blobs db)"
    by (simp add: ack_def)
  moreover have "stored (ack ids (ack ids db)) = stored (ack ids db)"
    by (auto simp: stored_ack mark_delivered_in_def fun_eq_iff option.map_comp comp_def
        intro!: option.map_cong)
  ultimately show ?thesis by (simp add: stored_ack mark_delivered_in_def mb.mark_slots)
qed

end
