(* ===== verification/Node_Retry.thy ===== *)
theory Node_Retry
  imports Node_Store
begin

text \<open>
  \<^verbatim>\<open>crates/pm-node/src/retry_queue.rs\<close>: deliveries the node retries for its owner. The
  state is the database of \<^verbatim>\<open>Node_Store\<close>; the wall clock (\<^verbatim>\<open>now_ms\<close>) is an
  argument of the operations that read it, in milliseconds. The queue contract of the
  \<open>retry_queue\<close> locale is what the sweep loop relies on: due entries are handed out once per
  grace period, an entry is dropped by a success, and counted by a failure until the attempts
  are used up.
\<close>

section \<open>Constants\<close>

definition MAX_RETRY_ATTEMPTS :: nat where
  "MAX_RETRY_ATTEMPTS = 3"

definition RETRY_BACKOFF :: "i64 list" where
  "RETRY_BACKOFF = [5000, 15000]"

definition IN_FLIGHT_GRACE :: i64 where
  "IN_FLIGHT_GRACE = 12000"

record DueDelivery =
  due_msg_id :: bytes
  due_recipient :: bytes
  due_envelope :: bytes

section \<open>Operations\<close>

definition schedule :: "i64 \<Rightarrow> bytes \<Rightarrow> bytes \<Rightarrow> bytes \<Rightarrow> node_db \<Rightarrow> node_db" where
  "schedule now msg_id recipient envelope db =
     db\<lparr>retry_entries :=
          upsert rr_msg_id
            (\<lambda>r. r\<lparr>rr_recipient := recipient, rr_envelope := envelope, rr_attempts := 0,
                  rr_next_attempt_at_ms := now\<rparr>)
            \<lparr>rr_msg_id = msg_id, rr_recipient = recipient, rr_envelope = envelope,
             rr_attempts = 0, rr_next_attempt_at_ms = now\<rparr>
            (retry_entries db)\<rparr>"

definition row_to_due :: "retry_row \<Rightarrow> DueDelivery" where
  "row_to_due r =
     \<lparr>due_msg_id = rr_msg_id r, due_recipient = rr_recipient r, due_envelope = rr_envelope r\<rparr>"

definition push_out :: "i64 \<Rightarrow> bytes \<Rightarrow> retry_row list \<Rightarrow> retry_row list" where
  "push_out t msg_id rows =
     update_where (\<lambda>r. rr_msg_id r = msg_id) (rr_next_attempt_at_ms_update (\<lambda>_. t)) rows"

definition take_due :: "i64 \<Rightarrow> node_db \<Rightarrow> DueDelivery list \<times> node_db" where
  "take_due now db =
     (let due = map row_to_due (filter (\<lambda>r. rr_next_attempt_at_ms r \<le> now) (retry_entries db));
          grace_until = now + IN_FLIGHT_GRACE
      in (due, db\<lparr>retry_entries :=
                    fold (\<lambda>d. push_out grace_until (due_msg_id d)) due (retry_entries db)\<rparr>))"

definition mark_delivered :: "bytes \<Rightarrow> node_db \<Rightarrow> node_db" where
  "mark_delivered msg_id db =
     db\<lparr>retry_entries := delete_where (\<lambda>r. rr_msg_id r = msg_id) (retry_entries db)\<rparr>"

text \<open>
  \<^verbatim>\<open>attempts as u32 + 1\<close> and the index into the backoff table are the two places where
  the arithmetic can fail; both end in a panic and are ruled out by the attempt counts the queue
  keeps (\<open>retry_wf\<close> below).
\<close>

definition mark_failed :: "i64 \<Rightarrow> bytes \<Rightarrow> (node_db, unit, unit) action" where
  "mark_failed now msg_id db =
     (case lookup_row rr_msg_id msg_id (retry_entries db) of
        None \<Rightarrow> (Ok (), db)
      | Some r \<Rightarrow>
          let attempts = unat (word_of_int (rr_attempts r) :: u32) + 1 in
          if attempts \<ge> 2 ^ 32 then (Panic, db)
          else if attempts \<ge> MAX_RETRY_ATTEMPTS then
            (Ok (), db\<lparr>retry_entries := delete_where (\<lambda>r. rr_msg_id r = msg_id) (retry_entries db),
                       failed_deliveries :=
                         insert_or_ignore (\<lambda>m. m) msg_id (failed_deliveries db)\<rparr>)
          else if attempts - 1 \<ge> length RETRY_BACKOFF then (Panic, db)
          else
            (Ok (), db\<lparr>retry_entries :=
                         update_where (\<lambda>r. rr_msg_id r = msg_id)
                           (\<lambda>r. r\<lparr>rr_attempts := int attempts,
                                 rr_next_attempt_at_ms := now + RETRY_BACKOFF ! (attempts - 1)\<rparr>)
                           (retry_entries db)\<rparr>))"

definition take_failed :: "node_db \<Rightarrow> bytes list \<times> node_db" where
  "take_failed db = (failed_deliveries db, db\<lparr>failed_deliveries := []\<rparr>)"

section \<open>Well-formed queues\<close>

definition retry_wf :: "node_db \<Rightarrow> bool" where
  "retry_wf db \<longleftrightarrow>
     distinct (map rr_msg_id (retry_entries db))
   \<and> (\<forall>r \<in> set (retry_entries db). 0 \<le> rr_attempts r \<and> rr_attempts r < int MAX_RETRY_ATTEMPTS)
   \<and> distinct (failed_deliveries db)"

text \<open>The queue seen as a map from message ids to their rows.\<close>

definition pending :: "node_db \<Rightarrow> bytes \<Rightarrow> retry_row option" where
  "pending db m = lookup_row rr_msg_id m (retry_entries db)"

lemma retry_wf_iff:
  "retry_wf db \<longleftrightarrow>
     distinct (map rr_msg_id (retry_entries db)) \<and> distinct (failed_deliveries db)
   \<and> (\<forall>m r. pending db m = Some r \<longrightarrow> 0 \<le> rr_attempts r \<and> rr_attempts r < 3)"
  using lookup_row_distinct[of rr_msg_id "retry_entries db"]
  by (auto simp: retry_wf_def pending_def MAX_RETRY_ATTEMPTS_def)

lemma retry_wf_empty [simp]: "retry_wf empty_node_db"
  by (simp add: retry_wf_def empty_node_db_def)

lemma pending_msg_id: "pending db m = Some r \<Longrightarrow> rr_msg_id r = m"
  using lookup_row_SomeD[of rr_msg_id m "retry_entries db" r] by (simp add: pending_def)

lemma pending_set:
  "retry_wf db \<Longrightarrow> r \<in> set (retry_entries db) \<longleftrightarrow> pending db (rr_msg_id r) = Some r"
  by (simp add: retry_wf_iff pending_def lookup_row_distinct)

lemma pending_bounds:
  "retry_wf db \<Longrightarrow> pending db m = Some r \<Longrightarrow> 0 \<le> rr_attempts r \<and> rr_attempts r < 3"
  by (simp add: retry_wf_iff)

lemma due_msg_id_row [simp]: "due_msg_id (row_to_due r) = rr_msg_id r"
  by (simp add: row_to_due_def)

subsection \<open>What each operation does to the queue\<close>

lemma pending_schedule:
  "pending (schedule now m k e db) =
     (pending db)(m \<mapsto> \<lparr>rr_msg_id = m, rr_recipient = k, rr_envelope = e, rr_attempts = 0,
                      rr_next_attempt_at_ms = now\<rparr>)"
proof
  fix x
  show "pending (schedule now m k e db) x =
     ((pending db)(m \<mapsto> \<lparr>rr_msg_id = m, rr_recipient = k, rr_envelope = e, rr_attempts = 0,
                      rr_next_attempt_at_ms = now\<rparr>)) x"
    using pending_msg_id[of db m]
    by (auto simp: pending_def schedule_def lookup_row_upsert split: option.splits)
qed

lemma schedule_wf [intro]: "retry_wf db \<Longrightarrow> retry_wf (schedule now m k e db)"
  unfolding retry_wf_iff pending_schedule
  by (auto simp: schedule_def map_key_upsert split: if_splits)

lemma fold_push_out_keys [simp]:
  "map rr_msg_id (fold (\<lambda>d. push_out t (due_msg_id d)) ds rows) = map rr_msg_id rows"
  by (induction ds arbitrary: rows) (auto simp: push_out_def map_update_where)

lemma lookup_fold_push_out:
  "lookup_row rr_msg_id m (fold (\<lambda>d. push_out t (due_msg_id d)) ds rows) =
     (if m \<in> due_msg_id ` set ds
      then map_option (rr_next_attempt_at_ms_update (\<lambda>_. t)) (lookup_row rr_msg_id m rows)
      else lookup_row rr_msg_id m rows)"
  by (induction ds arbitrary: rows)
    (auto simp: push_out_def lookup_row_update_where option.map_comp comp_def)

lemma set_take_due:
  assumes wf: "retry_wf db"
  shows "d \<in> set (fst (take_due now db)) \<longleftrightarrow>
    (\<exists>r. pending db (due_msg_id d) = Some r \<and> rr_next_attempt_at_ms r \<le> now \<and> d = row_to_due r)"
    (is "?L \<longleftrightarrow> ?R")
proof -
  have "?L \<longleftrightarrow> (\<exists>r \<in> set (retry_entries db). rr_next_attempt_at_ms r \<le> now \<and> d = row_to_due r)"
    by (auto simp: take_due_def Let_def)
  also have "\<dots> \<longleftrightarrow> ?R"
  proof
    assume "\<exists>r \<in> set (retry_entries db). rr_next_attempt_at_ms r \<le> now \<and> d = row_to_due r"
    then obtain r where "r \<in> set (retry_entries db)" "rr_next_attempt_at_ms r \<le> now" "d = row_to_due r"
      by blast
    with pending_set[OF wf, of r] show ?R by auto
  next
    assume ?R
    then obtain r where r: "pending db (due_msg_id d) = Some r" "rr_next_attempt_at_ms r \<le> now"
      "d = row_to_due r" by blast
    with pending_set[OF wf, of r] have "r \<in> set (retry_entries db)" by simp
    with r show "\<exists>r \<in> set (retry_entries db). rr_next_attempt_at_ms r \<le> now \<and> d = row_to_due r"
      by blast
  qed
  finally show ?thesis .
qed

lemma take_due_distinct:
  assumes "retry_wf db"
  shows "distinct (map due_msg_id (fst (take_due now db)))"
  using assms by (simp add: take_due_def Let_def retry_wf_def row_to_due_def comp_def distinct_map_filter)

lemma pending_take_due:
  assumes "retry_wf db"
  shows "pending (snd (take_due now db)) m =
    map_option (\<lambda>r. if rr_next_attempt_at_ms r \<le> now
                    then r\<lparr>rr_next_attempt_at_ms := now + IN_FLIGHT_GRACE\<rparr> else r) (pending db m)"
proof -
  have "m \<in> due_msg_id ` set (fst (take_due now db)) \<longleftrightarrow>
      (\<exists>r. pending db m = Some r \<and> rr_next_attempt_at_ms r \<le> now)"
  proof
    assume "m \<in> due_msg_id ` set (fst (take_due now db))"
    then show "\<exists>r. pending db m = Some r \<and> rr_next_attempt_at_ms r \<le> now"
      using set_take_due[OF assms] by auto
  next
    assume "\<exists>r. pending db m = Some r \<and> rr_next_attempt_at_ms r \<le> now"
    then obtain r where r: "pending db m = Some r" "rr_next_attempt_at_ms r \<le> now" by blast
    then have "row_to_due r \<in> set (fst (take_due now db))"
      using set_take_due[OF assms, of "row_to_due r"] pending_msg_id[OF r(1)] by simp
    then show "m \<in> due_msg_id ` set (fst (take_due now db))"
      using pending_msg_id[OF r(1)] by (force simp: image_iff)
  qed
  then show ?thesis
    by (cases "pending db m")
      (auto simp: pending_def take_due_def Let_def lookup_fold_push_out)
qed

lemma take_due_wf [intro]: "retry_wf db \<Longrightarrow> retry_wf (snd (take_due now db))"
  unfolding retry_wf_iff[of "snd (take_due now db)"] pending_take_due
  by (auto simp: retry_wf_iff take_due_def Let_def)

lemma take_due_failed [simp]: "failed_deliveries (snd (take_due now db)) = failed_deliveries db"
  by (simp add: take_due_def Let_def)

lemma pending_mark_delivered: "pending (mark_delivered m db) = (pending db)(m := None)"
  by (auto simp: fun_eq_iff pending_def mark_delivered_def lookup_row_delete_where)

lemma mark_delivered_wf [intro]: "retry_wf db \<Longrightarrow> retry_wf (mark_delivered m db)"
  unfolding retry_wf_iff pending_mark_delivered
  by (auto simp: mark_delivered_def)

lemma take_failed_wf [intro]: "retry_wf db \<Longrightarrow> retry_wf (snd (take_failed db))"
  by (simp add: retry_wf_def take_failed_def)

lemma mark_failed_unknown: "pending db m = None \<Longrightarrow> mark_failed now m db = (Ok (), db)"
  by (simp add: mark_failed_def pending_def)

lemma attempts_word:
  assumes "retry_wf db" and "pending db m = Some r"
  shows "unat (word_of_int (rr_attempts r) :: u32) = nat (rr_attempts r)"
  using pending_bounds[OF assms]
  by (simp add: unat_eq_nat_uint unsigned_of_int take_bit_int_eq_self)

lemma mark_failed_last:
  assumes "retry_wf db" and "pending db m = Some r" and "rr_attempts r = 2"
  shows "mark_failed now m db =
    (Ok (), db\<lparr>retry_entries := delete_where (\<lambda>r. rr_msg_id r = m) (retry_entries db),
               failed_deliveries := insert_or_ignore (\<lambda>m. m) m (failed_deliveries db)\<rparr>)"
  using assms attempts_word[OF assms(1,2)]
  by (simp add: mark_failed_def pending_def MAX_RETRY_ATTEMPTS_def)

lemma mark_failed_early:
  assumes "retry_wf db" and "pending db m = Some r" and "rr_attempts r < 2"
  shows "mark_failed now m db =
    (Ok (), db\<lparr>retry_entries :=
       update_where (\<lambda>r. rr_msg_id r = m)
         (\<lambda>x. x\<lparr>rr_attempts := rr_attempts r + 1,
               rr_next_attempt_at_ms := now + RETRY_BACKOFF ! nat (rr_attempts r)\<rparr>)
         (retry_entries db)\<rparr>)"
proof -
  from assms have "0 \<le> rr_attempts r" by (simp add: retry_wf_iff)
  with assms attempts_word[OF assms(1,2)] show ?thesis
    by (simp add: mark_failed_def pending_def MAX_RETRY_ATTEMPTS_def RETRY_BACKOFF_def add.commute)
qed

lemma pending_mark_failed:
  assumes "retry_wf db"
  shows "pending (snd (mark_failed now m db)) =
    (pending db)(m := (case pending db m of
        None \<Rightarrow> None
      | Some r \<Rightarrow> if rr_attempts r = 2 then None
                 else Some (r\<lparr>rr_attempts := rr_attempts r + 1,
                             rr_next_attempt_at_ms := now + RETRY_BACKOFF ! nat (rr_attempts r)\<rparr>)))"
proof (cases "pending db m")
  case None
  then show ?thesis by (auto simp: mark_failed_unknown)
next
  case (Some r)
  with assms consider "rr_attempts r = 2" | "rr_attempts r < 2" by (fastforce simp: retry_wf_iff)
  then show ?thesis
  proof cases
    case 1
    with Some show ?thesis
      by (auto simp: mark_failed_last[OF assms Some] fun_eq_iff pending_def lookup_row_delete_where)
  next
    case 2
    with Some show ?thesis
      by (auto simp: mark_failed_early[OF assms Some] fun_eq_iff pending_def lookup_row_update_where)
  qed
qed

lemma failed_mark_failed:
  assumes "retry_wf db"
  shows "failed_deliveries (snd (mark_failed now m db)) =
    (case pending db m of
       Some r \<Rightarrow> if rr_attempts r = 2 then insert_or_ignore (\<lambda>m. m) m (failed_deliveries db)
                 else failed_deliveries db
     | None \<Rightarrow> failed_deliveries db)"
proof (cases "pending db m")
  case None
  then show ?thesis by (simp add: mark_failed_unknown)
next
  case (Some r)
  with assms consider "rr_attempts r = 2" | "rr_attempts r < 2" by (fastforce simp: retry_wf_iff)
  then show ?thesis
    using Some by cases (simp_all add: mark_failed_last[OF assms Some] mark_failed_early[OF assms Some])
qed

lemma mark_failed_Ok:
  assumes "retry_wf db"
  shows "fst (mark_failed now m db) = Ok ()"
proof (cases "pending db m")
  case None
  then show ?thesis by (simp add: mark_failed_unknown)
next
  case (Some r)
  with assms consider "rr_attempts r = 2" | "rr_attempts r < 2" by (fastforce simp: retry_wf_iff)
  then show ?thesis
    using Some by cases (simp_all add: mark_failed_last[OF assms Some] mark_failed_early[OF assms Some])
qed

lemma mark_failed_wf [intro]:
  assumes "retry_wf db"
  shows "retry_wf (snd (mark_failed now m db))"
proof -
  have "distinct (map rr_msg_id (retry_entries (snd (mark_failed now m db))))"
    using assms by (auto simp: mark_failed_def retry_wf_def Let_def map_update_where split: option.splits)
  moreover have "distinct (failed_deliveries (snd (mark_failed now m db)))"
    using assms distinct_insert_or_ignore[of "\<lambda>m. m" "failed_deliveries db" m]
    by (auto simp: failed_mark_failed retry_wf_def split: option.splits)
  ultimately show ?thesis
    using assms unfolding retry_wf_iff[of "snd (mark_failed now m db)"] pending_mark_failed[OF assms]
    by (fastforce simp: retry_wf_iff split: option.splits if_splits)
qed

section \<open>The contract of the sweep\<close>

text \<open>
  What the sweep loop relies on: handing out at a time takes exactly what is due and protects it
  for the grace period, reporting an outcome removes the entry or counts the failure, and
  nothing is reported as failed before its attempts are used up.
\<close>

locale retry_queue =
  fixes enqueue :: "i64 \<Rightarrow> 'm \<Rightarrow> 'p \<Rightarrow> 'q \<Rightarrow> 'q"
    and hand_out :: "i64 \<Rightarrow> 'q \<Rightarrow> 'm list \<times> 'q"
    and finish :: "'m \<Rightarrow> 'q \<Rightarrow> 'q"
    and fail_once :: "i64 \<Rightarrow> 'm \<Rightarrow> 'q \<Rightarrow> 'q"
    and due_at :: "'q \<Rightarrow> 'm \<Rightarrow> i64 option"
    and tries :: "'q \<Rightarrow> 'm \<Rightarrow> nat option"
    and given_up :: "'q \<Rightarrow> 'm set"
    and grace :: i64
    and limit :: nat
    and good :: "'q \<Rightarrow> bool"
  assumes hand_out_iff: "good q \<Longrightarrow>
      m \<in> set (fst (hand_out now q)) \<longleftrightarrow> (\<exists>t. due_at q m = Some t \<and> t \<le> now)"
    and hand_out_due: "good q \<Longrightarrow> due_at (snd (hand_out now q)) m =
      map_option (\<lambda>t. if t \<le> now then now + grace else t) (due_at q m)"
    and hand_out_tries: "good q \<Longrightarrow> tries (snd (hand_out now q)) = tries q"
    and enqueue_due: "due_at (enqueue now m p q) m = Some now"
    and enqueue_tries: "tries (enqueue now m p q) m = Some 0"
    and enqueue_given_up: "given_up (enqueue now m p q) = given_up q"
    and finish_due: "due_at (finish m q) = (due_at q)(m := None)"
    and finish_tries: "tries (finish m q) = (tries q)(m := None)"
    and fail_tries: "good q \<Longrightarrow> tries q m = Some k \<Longrightarrow>
      tries (fail_once now m q) m = (if Suc k < limit then Some (Suc k) else None)"
    and fail_given_up: "good q \<Longrightarrow> tries q m = Some k \<Longrightarrow>
      given_up (fail_once now m q) = (if Suc k < limit then given_up q else insert m (given_up q))"
    and fail_unknown: "tries q m = None \<Longrightarrow> fail_once now m q = q"
    and good_enqueue: "good q \<Longrightarrow> good (enqueue now m p q)"
    and good_hand_out: "good q \<Longrightarrow> good (snd (hand_out now q))"
    and good_finish: "good q \<Longrightarrow> good (finish m q)"
    and good_fail: "good q \<Longrightarrow> good (fail_once now m q)"
begin

lemma fresh_is_due: "good q \<Longrightarrow> m \<in> set (fst (hand_out now (enqueue now m p q)))"
  using enqueue_due hand_out_iff[OF good_enqueue] by fastforce

lemma not_handed_out_twice:
  assumes "good q" and "m \<in> set (fst (hand_out now q))" and "now' < now + grace"
  shows "m \<notin> set (fst (hand_out now' (snd (hand_out now q))))"
  using assms hand_out_iff[OF good_hand_out[OF assms(1)], of m now' now]
    hand_out_due[OF assms(1), of now m] hand_out_iff[OF assms(1), of m now]
  by auto

lemma finished_is_gone: "good q \<Longrightarrow> m \<notin> set (fst (hand_out now (finish m q)))"
  using hand_out_iff[OF good_finish, of q m now m] by (simp add: finish_due)

text \<open>Failing an entry at each of a list of times.\<close>

lemma fails_good: "good q \<Longrightarrow> good (fold (\<lambda>t. fail_once t m) ts q)"
  by (induction ts arbitrary: q) (auto intro: good_fail)

lemma fails_count:
  assumes "good q" and "tries q m = Some k" and "k + length ts < limit"
  shows "tries (fold (\<lambda>t. fail_once t m) ts q) m = Some (k + length ts)
    \<and> given_up (fold (\<lambda>t. fail_once t m) ts q) = given_up q"
  using assms
proof (induction ts arbitrary: q k)
  case (Cons t ts)
  then show ?case using fail_tries[of q m k t] fail_given_up[of q m k t] good_fail[of q t m] by simp
qed simp

lemma fails_exhaust:
  assumes "good q" and "tries q m = Some k" and "k + length ts + 1 = limit"
  shows "tries (fail_once t m (fold (\<lambda>t. fail_once t m) ts q)) m = None
    \<and> given_up (fail_once t m (fold (\<lambda>t. fail_once t m) ts q)) = insert m (given_up q)"
proof -
  have "k + length ts < limit" using assms(3) by simp
  from fails_count[OF assms(1,2) this] show ?thesis
    using fail_tries[OF fails_good[OF assms(1)], of m ts m "k + length ts" t]
      fail_given_up[OF fails_good[OF assms(1)], of m ts m "k + length ts" t] assms(3)
    by auto
qed

end

definition due_time :: "node_db \<Rightarrow> bytes \<Rightarrow> i64 option" where
  "due_time db m = map_option rr_next_attempt_at_ms (pending db m)"

definition attempts_made :: "node_db \<Rightarrow> bytes \<Rightarrow> nat option" where
  "attempts_made db m = map_option (\<lambda>r. nat (rr_attempts r)) (pending db m)"

lemma take_due_due_time:
  "retry_wf db \<Longrightarrow> due_time (snd (take_due now db)) m =
     map_option (\<lambda>t. if t \<le> now then now + IN_FLIGHT_GRACE else t) (due_time db m)"
  by (cases "pending db m") (simp_all add: due_time_def pending_take_due)

lemma take_due_attempts: "retry_wf db \<Longrightarrow> attempts_made (snd (take_due now db)) = attempts_made db"
proof
  show "retry_wf db \<Longrightarrow> attempts_made (snd (take_due now db)) m = attempts_made db m" for m
    by (cases "pending db m") (simp_all add: attempts_made_def pending_take_due)
qed

lemma take_due_iff:
  assumes "retry_wf db"
  shows "m \<in> set (map due_msg_id (fst (take_due now db))) \<longleftrightarrow> (\<exists>t. due_time db m = Some t \<and> t \<le> now)"
proof
  assume "m \<in> set (map due_msg_id (fst (take_due now db)))"
  then show "\<exists>t. due_time db m = Some t \<and> t \<le> now"
    using set_take_due[OF assms] by (auto simp: due_time_def)
next
  assume "\<exists>t. due_time db m = Some t \<and> t \<le> now"
  then obtain r where r: "pending db m = Some r" "rr_next_attempt_at_ms r \<le> now"
    by (auto simp: due_time_def)
  with set_take_due[OF assms, of "row_to_due r"] pending_msg_id[OF r(1)]
  show "m \<in> set (map due_msg_id (fst (take_due now db)))" by (force simp: image_iff)
qed

interpretation rq: retry_queue "\<lambda>now m (k, e). schedule now m k e"
  "\<lambda>now db. (map due_msg_id (fst (take_due now db)), snd (take_due now db))" mark_delivered
  "\<lambda>now m db. snd (mark_failed now m db)" due_time attempts_made
  "\<lambda>db. set (failed_deliveries db)" IN_FLIGHT_GRACE 3 retry_wf
proof (unfold_locales, goal_cases)
  case (1 q m now) then show ?case by (simp only: fst_conv take_due_iff)
next
  case (2 q now m) then show ?case by (simp add: take_due_due_time)
next
  case (3 q now) then show ?case by (simp add: take_due_attempts)
next
  case (4 now m p q) show ?case by (simp add: due_time_def pending_schedule split: prod.split)
next
  case (5 now m p q) show ?case by (simp add: attempts_made_def pending_schedule split: prod.split)
next
  case (6 now m p q) show ?case by (simp add: schedule_def split: prod.split)
next
  case (7 m q) show ?case by (auto simp: due_time_def pending_mark_delivered)
next
  case (8 m q) show ?case by (auto simp: attempts_made_def pending_mark_delivered)
next
  case (9 q m k now)
  then obtain r where "pending q m = Some r" "k = nat (rr_attempts r)" by (auto simp: attempts_made_def)
  with 9 pending_bounds[of q m r] show ?case
    by (auto simp: attempts_made_def pending_mark_failed nat_add_distrib)
next
  case (10 q m k now)
  then obtain r where "pending q m = Some r" "k = nat (rr_attempts r)" by (auto simp: attempts_made_def)
  with 10 pending_bounds[of q m r] show ?case
    by (auto simp: failed_mark_failed insert_or_ignore_def)
next
  case (11 q m now) then show ?case by (simp add: attempts_made_def mark_failed_unknown)
next
  case (12 q now m p) then show ?case by (auto split: prod.split)
qed auto

section \<open>Properties\<close>

text \<open>
  The sweep takes exactly what is due, and never hands the same delivery out twice while an
  attempt may still be running: an entry taken at \<open>now\<close> is not taken again by any sweep in the
  following 12 seconds.
\<close>

lemma take_due_protects_in_flight:
  assumes "retry_wf db"
  shows "set (map due_msg_id (fst (take_due now db))) = {m. \<exists>t. due_time db m = Some t \<and> t \<le> now}
    \<and> distinct (map due_msg_id (fst (take_due now db)))
    \<and> (m \<in> set (map due_msg_id (fst (take_due now db))) \<longrightarrow> now' < now + 12000 \<longrightarrow>
         m \<notin> set (map due_msg_id (fst (take_due now' (snd (take_due now db))))))"
  using take_due_iff[OF assms, of _ now] take_due_distinct[OF assms, of now]
    rq.not_handed_out_twice[OF assms, of m now now']
  by (auto simp: IN_FLIGHT_GRACE_def simp del: set_map)

text \<open>
  A delivery is given up after exactly three failed attempts. After scheduling, the first
  and the second failure keep it queued and report nothing; the third removes it and puts it on
  the failed list, which the next poll returns and empties. Reports about a message that is no
  longer queued change nothing.
\<close>

lemma three_failures_give_up:
  assumes "retry_wf db"
  shows "let db1 = snd (mark_failed t1 m (schedule now m k e db));
             db2 = snd (mark_failed t2 m db1);
             db3 = snd (mark_failed t3 m db2)
    in attempts_made db1 m = Some 1 \<and> attempts_made db2 m = Some 2 \<and> attempts_made db3 m = None
     \<and> set (failed_deliveries db1) = set (failed_deliveries db)
     \<and> set (failed_deliveries db2) = set (failed_deliveries db)
     \<and> set (fst (take_failed db3)) = insert m (set (failed_deliveries db))
     \<and> distinct (fst (take_failed db3))
     \<and> fst (take_failed (snd (take_failed db3))) = []
     \<and> snd (mark_failed t4 m db3) = db3"
proof -
  let ?q = "schedule now m k e db"
  have good: "retry_wf ?q" using assms by auto
  have tries: "attempts_made ?q m = Some 0" by (simp add: attempts_made_def pending_schedule)
  have fl: "failed_deliveries ?q = failed_deliveries db" by (simp add: schedule_def)
  have gone: "attempts_made (snd (mark_failed t3 m (snd (mark_failed t2 m (snd (mark_failed t1 m ?q)))))) m = None"
    using rq.fails_exhaust[OF good tries, of "[t1, t2]" t3] by simp
  have "retry_wf (snd (mark_failed t3 m (snd (mark_failed t2 m (snd (mark_failed t1 m ?q))))))"
    using good by auto
  then have "distinct (failed_deliveries (snd (mark_failed t3 m (snd (mark_failed t2 m (snd (mark_failed t1 m ?q)))))))"
    by (simp add: retry_wf_iff)
  with gone show ?thesis
    using rq.fails_count[OF good tries, of "[t1]"] rq.fails_count[OF good tries, of "[t1, t2]"]
      rq.fails_exhaust[OF good tries, of "[t1, t2]" t3] rq.fail_unknown[OF gone, of t4]
    by (simp add: Let_def take_failed_def fl)
qed

end
