(* ===== verification/Node_Rate.thy ===== *)
theory Node_Rate
  imports Yougle_Prelude
begin

text \<open>
  \<^verbatim>\<open>crates/pm-node/src/rate_limit.rs\<close>: a fixed-window request counter per remote
  identity. The hash map is a map from endpoint ids (a type parameter: iroh's
  \<^verbatim>\<open>EndpointId\<close>) to windows, the clock an argument. The theorems bound what one identity
  can get through in a window, and show that pruning is invisible.
\<close>

section \<open>State and operations\<close>

record Window =
  started_at_ms :: i64
  window_count :: nat

record 'id RateLimiter =
  max_per_window :: nat
  window_ms :: i64
  windows :: "'id \<Rightarrow> Window option"

definition RateLimiter_new :: "nat \<Rightarrow> i64 \<Rightarrow> 'id RateLimiter" where
  "RateLimiter_new mx w = \<lparr>max_per_window = mx, window_ms = w, windows = Map.empty\<rparr>"

definition saturating_sub :: "i64 \<Rightarrow> i64 \<Rightarrow> i64" where
  "saturating_sub a b = max i64_min (min i64_max (a - b))"

definition expired :: "'id RateLimiter \<Rightarrow> i64 \<Rightarrow> Window \<Rightarrow> bool" where
  "expired l now w \<longleftrightarrow> window_ms l \<le> saturating_sub now (started_at_ms w)"

text \<open>The entry the counter works on: inserted when missing, reset when its window is over.\<close>

definition current_window :: "'id RateLimiter \<Rightarrow> i64 \<Rightarrow> 'id \<Rightarrow> Window" where
  "current_window l now i =
     (let fresh = \<lparr>started_at_ms = now, window_count = 0\<rparr> in
      case windows l i of
        None \<Rightarrow> fresh
      | Some w \<Rightarrow> if expired l now w then fresh else w)"

definition allow :: "i64 \<Rightarrow> 'id \<Rightarrow> 'id RateLimiter \<Rightarrow> bool \<times> 'id RateLimiter" where
  "allow now i l =
     (let w = current_window l now i in
      if max_per_window l \<le> window_count w
      then (False, l\<lparr>windows := (windows l)(i \<mapsto> w)\<rparr>)
      else (True, l\<lparr>windows := (windows l)(i \<mapsto> w\<lparr>window_count := window_count w + 1\<rparr>)\<rparr>))"

definition prune_expired :: "i64 \<Rightarrow> 'id RateLimiter \<Rightarrow> 'id RateLimiter" where
  "prune_expired now l =
     l\<lparr>windows := (\<lambda>i. case windows l i of
          None \<Rightarrow> None
        | Some w \<Rightarrow> if saturating_sub now (started_at_ms w) < window_ms l then Some w else None)\<rparr>"

text \<open>A history of calls: requests by identities and prunes by the sweep, each at its time.\<close>

datatype 'id limiter_event = Request i64 'id | Prune i64

fun limiter_run :: "'id RateLimiter \<Rightarrow> 'id limiter_event list \<Rightarrow> bool list \<times> 'id RateLimiter" where
  "limiter_run l [] = ([], l)"
| "limiter_run l (Request t i # es) =
     (let (b, l') = allow t i l; (bs, l'') = limiter_run l' es in (b # bs, l''))"
| "limiter_run l (Prune t # es) = limiter_run (prune_expired t l) es"

text \<open>How many requests of one identity were let through in a history.\<close>

fun allowed_for :: "'id \<Rightarrow> 'id RateLimiter \<Rightarrow> 'id limiter_event list \<Rightarrow> nat" where
  "allowed_for i l [] = 0"
| "allowed_for i l (Request t j # es) =
     (if j = i \<and> fst (allow t j l) then 1 else 0) + allowed_for i (snd (allow t j l)) es"
| "allowed_for i l (Prune t # es) = allowed_for i (prune_expired t l) es"

fun event_time :: "'id limiter_event \<Rightarrow> i64" where
  "event_time (Request t i) = t"
| "event_time (Prune t) = t"

section \<open>Invariant\<close>

text \<open>Counts stay within the budget, so the \<^verbatim>\<open>u32\<close> counter cannot overflow.\<close>

definition limiter_wf :: "'id RateLimiter \<Rightarrow> bool" where
  "limiter_wf l \<longleftrightarrow> (\<forall>i w. windows l i = Some w \<longrightarrow> window_count w \<le> max_per_window l)"

lemma limiter_wf_new [simp]: "limiter_wf (RateLimiter_new mx w)"
  by (simp add: limiter_wf_def RateLimiter_new_def)

lemma current_window_bound: "limiter_wf l \<Longrightarrow> window_count (current_window l t i) \<le> max_per_window l"
  by (auto simp: limiter_wf_def current_window_def Let_def split: option.splits)

lemma limiter_wf_allow [intro]: "limiter_wf l \<Longrightarrow> limiter_wf (snd (allow t i l))"
  using current_window_bound[of l t i] by (auto simp: limiter_wf_def allow_def Let_def)

lemma limiter_wf_prune [intro]: "limiter_wf l \<Longrightarrow> limiter_wf (prune_expired t l)"
  by (auto simp: limiter_wf_def prune_expired_def split: option.splits if_splits)

lemma allow_config [simp]:
  "max_per_window (snd (allow t i l)) = max_per_window l" "window_ms (snd (allow t i l)) = window_ms l"
  by (simp_all add: allow_def Let_def)

lemma prune_config [simp]:
  "max_per_window (prune_expired t l) = max_per_window l" "window_ms (prune_expired t l) = window_ms l"
  by (simp_all add: prune_expired_def)

lemma allow_other [simp]: "j \<noteq> i \<Longrightarrow> windows (snd (allow t j l)) i = windows l i"
  by (simp add: allow_def Let_def)

section \<open>Pruning is invisible\<close>

text \<open>
  Two limiters agree at a time when every identity would be served from the same window: one may
  lack an entry whose window is over in the other.
\<close>

definition same_at :: "i64 \<Rightarrow> 'id RateLimiter \<Rightarrow> 'id RateLimiter \<Rightarrow> bool" where
  "same_at t l m \<longleftrightarrow>
     max_per_window l = max_per_window m \<and> window_ms l = window_ms m
   \<and> (\<forall>i. windows m i = windows l i
        \<or> (windows m i = None \<and> (\<exists>w. windows l i = Some w \<and> expired l t w)))"

lemma saturating_sub_mono: "a \<le> b \<Longrightarrow> saturating_sub a c \<le> saturating_sub b c"
  by (simp add: saturating_sub_def)

lemma expired_later: "expired l t w \<Longrightarrow> t \<le> t' \<Longrightarrow> expired l t' w"
  unfolding expired_def using saturating_sub_mono[of t t' "started_at_ms w"] by linarith

lemma same_at_refl [simp]: "same_at t l l"
  by (simp add: same_at_def)

lemma same_at_later: "same_at t l m \<Longrightarrow> t \<le> t' \<Longrightarrow> same_at t' l m"
  unfolding same_at_def by (meson expired_later)

lemma same_atE:
  assumes "same_at t l m"
  obtains (same) "windows m i = windows l i"
    | (gone) w where "windows m i = None" "windows l i = Some w" "expired l t w"
  using assms by (auto simp: same_at_def)

lemma same_at_config: "same_at t l m \<Longrightarrow> max_per_window m = max_per_window l \<and> window_ms m = window_ms l"
  by (simp add: same_at_def)

lemma same_at_current:
  assumes "same_at t l m"
  shows "current_window m t i = current_window l t i"
  using assms
proof (cases rule: same_atE[where i = i])
  case same
  then show ?thesis using same_at_config[OF assms]
    by (simp add: current_window_def expired_def Let_def split: option.split)
next
  case (gone w)
  then show ?thesis by (simp add: current_window_def Let_def)
qed

lemma same_at_prune:
  assumes "same_at t l m"
  shows "same_at t l (prune_expired t m)"
proof -
  have "windows (prune_expired t m) i = windows l i
      \<or> (windows (prune_expired t m) i = None \<and> (\<exists>w. windows l i = Some w \<and> expired l t w))" for i
    using assms by (cases rule: same_atE[where i = i])
      (use same_at_config[OF assms] in
        \<open>auto simp: prune_expired_def expired_def not_less split: option.splits\<close>)
  then show ?thesis using same_at_config[OF assms] by (simp add: same_at_def)
qed

lemma same_at_allow:
  assumes "same_at t l m"
  shows "fst (allow t i m) = fst (allow t i l)" and "same_at t (snd (allow t i l)) (snd (allow t i m))"
proof -
  from assms have eq: "max_per_window l = max_per_window m" "window_ms l = window_ms m"
    by (auto simp: same_at_def)
  show "fst (allow t i m) = fst (allow t i l)"
    using same_at_current[OF assms] eq by (simp add: allow_def Let_def)
  show "same_at t (snd (allow t i l)) (snd (allow t i m))"
    using assms same_at_current[OF assms, of i] eq
    by (auto simp: same_at_def allow_def Let_def expired_def)
qed

fun drop_prunes :: "'id limiter_event list \<Rightarrow> 'id limiter_event list" where
  "drop_prunes [] = []"
| "drop_prunes (Request t i # es) = Request t i # drop_prunes es"
| "drop_prunes (Prune t # es) = drop_prunes es"

lemma run_without_prunes:
  assumes "same_at t0 l m" and "sorted (map event_time es)" and "\<forall>e \<in> set es. t0 \<le> event_time e"
  shows "fst (limiter_run m es) = fst (limiter_run l (drop_prunes es))"
  using assms
proof (induction es arbitrary: t0 l m)
  case (Cons e es)
  from Cons.prems have t: "t0 \<le> event_time e" and later: "\<forall>x \<in> set es. event_time e \<le> event_time x"
    and srt: "sorted (map event_time es)" by auto
  from same_at_later[OF Cons.prems(1) t] have same: "same_at (event_time e) l m" .
  show ?case
  proof (cases e)
    case (Request t i)
    with same_at_allow[OF same, of i] Cons.IH[OF _ srt later, of "snd (allow t i l)" "snd (allow t i m)"]
    show ?thesis by (simp add: case_prod_beta Let_def)
  next
    case (Prune t)
    with Cons.IH[OF same_at_prune[OF same] srt later] show ?thesis by simp
  qed
qed simp

section \<open>The budget of one identity\<close>

fun requests_of :: "'id \<Rightarrow> 'id limiter_event list \<Rightarrow> nat" where
  "requests_of i [] = 0"
| "requests_of i (Request t j # es) = (if j = i then 1 else 0) + requests_of i es"
| "requests_of i (Prune t # es) = requests_of i es"

text \<open>A history that fits into less than one window, from \<open>a\<close> on.\<close>

definition within_window :: "i64 \<Rightarrow> 'id RateLimiter \<Rightarrow> 'id limiter_event list \<Rightarrow> bool" where
  "within_window a l es \<longleftrightarrow> window_ms l \<le> i64_max
     \<and> list_all (\<lambda>e. a \<le> event_time e \<and> event_time e < a + window_ms l) es"

lemma within_window_Cons:
  "within_window a l (e # es) \<longleftrightarrow>
     a \<le> event_time e \<and> event_time e < a + window_ms l \<and> within_window a l es"
  by (auto simp: within_window_def)

lemma within_window_config [simp]:
  "within_window a (snd (allow t i l)) es = within_window a l es"
  "within_window a (prune_expired t l) es = within_window a l es"
  "within_window a (l\<lparr>windows := f\<rparr>) es = within_window a l es"
  by (simp_all add: within_window_def)

text \<open>A window that started in the interval is not over before the interval is.\<close>

lemma recent_not_expired:
  assumes "a \<le> started_at_ms w" and "t < a + window_ms l" and "window_ms l \<le> i64_max" and "a \<le> t"
  shows "\<not> expired l t w"
  using assms by (auto simp: expired_def saturating_sub_def i64_min_def min_def max_def)

lemma allow_recent:
  assumes "windows l i = Some w" and "\<not> expired l t w"
  shows "allow t i l =
    (window_count w < max_per_window l,
     l\<lparr>windows := (windows l)(i \<mapsto>
        (if window_count w < max_per_window l then w\<lparr>window_count := window_count w + 1\<rparr> else w))\<rparr>)"
  using assms by (simp add: allow_def current_window_def Let_def not_less)

lemma allow_fresh:
  assumes "case windows l i of None \<Rightarrow> True | Some w \<Rightarrow> expired l t w"
  shows "allow t i l =
    (0 < max_per_window l,
     l\<lparr>windows := (windows l)(i \<mapsto>
        \<lparr>started_at_ms = t, window_count = (if 0 < max_per_window l then 1 else 0)\<rparr>)\<rparr>)"
  using assms by (auto simp: allow_def current_window_def Let_def split: option.splits)

lemma prune_recent:
  "windows l i = Some w \<Longrightarrow> \<not> expired l t w \<Longrightarrow> windows (prune_expired t l) i = Some w"
  by (simp add: prune_expired_def expired_def)

lemma prune_none [simp]: "windows l i = None \<Longrightarrow> windows (prune_expired t l) i = None"
  by (simp add: prune_expired_def)

lemma prune_over: "windows l i = Some w \<Longrightarrow> expired l t w \<Longrightarrow> windows (prune_expired t l) i = None"
  by (simp add: prune_expired_def expired_def)

text \<open>In a window that started in the interval, the rest of the budget is what gets through.\<close>

lemma allowed_for_recent:
  assumes "within_window a l es" and "windows l i = Some w" and "a \<le> started_at_ms w"
  shows "allowed_for i l es = min (max_per_window l - window_count w) (requests_of i es)"
  using assms
proof (induction es arbitrary: l w)
  case (Cons e es)
  from Cons.prems have rest: "within_window a l es" by (simp add: within_window_Cons)
  from Cons.prems have live: "\<not> expired l (event_time e) w"
    by (intro recent_not_expired[of a]) (auto simp: within_window_def)
  show ?case
  proof (cases e)
    case (Prune t)
    with live have "windows (prune_expired t l) i = Some w"
      using prune_recent[OF Cons.prems(2)] by simp
    with Prune Cons.IH[of "prune_expired t l" w] Cons.prems(3) rest show ?thesis by simp
  next
    case (Request t j)
    show ?thesis
    proof (cases "j = i")
      case False
      with Request Cons.IH[of "snd (allow t j l)" w] Cons.prems(2,3) rest show ?thesis by simp
    next
      case True
      let ?w' = "if window_count w < max_per_window l then w\<lparr>window_count := window_count w + 1\<rparr> else w"
      have step: "allow t i l = (window_count w < max_per_window l, l\<lparr>windows := (windows l)(i \<mapsto> ?w')\<rparr>)"
        using allow_recent[OF Cons.prems(2)] live Request by simp
      then have at: "windows (snd (allow t i l)) i = Some ?w'" by simp
      have started: "a \<le> started_at_ms ?w'" using Cons.prems(3) by simp
      show ?thesis
        using Cons.IH[of "snd (allow t i l)" ?w'] rest at started step Request True
        by (auto simp: min_def)
    qed
  qed
qed simp

lemma allowed_for_absent:
  assumes "within_window a l es" and "windows l i = None"
  shows "allowed_for i l es = min (max_per_window l) (requests_of i es)"
  using assms
proof (induction es arbitrary: l)
  case (Cons e es)
  from Cons.prems have rest: "within_window a l es" by (simp add: within_window_Cons)
  show ?case
  proof (cases e)
    case (Prune t)
    with Cons.IH[of "prune_expired t l"] Cons.prems(2) rest show ?thesis by simp
  next
    case (Request t j)
    show ?thesis
    proof (cases "j = i")
      case False
      with Request Cons.IH[of "snd (allow t j l)"] Cons.prems(2) rest show ?thesis by simp
    next
      case True
      have step: "allow t i l = (0 < max_per_window l, l\<lparr>windows := (windows l)(i \<mapsto>
            \<lparr>started_at_ms = t, window_count = (if 0 < max_per_window l then 1 else 0)\<rparr>)\<rparr>)"
        using allow_fresh[of l t i] Cons.prems(2) by simp
      then have at: "windows (snd (allow t i l)) i =
          Some \<lparr>started_at_ms = t, window_count = (if 0 < max_per_window l then 1 else 0)\<rparr>" by simp
      have "a \<le> t" using Cons.prems(1) Request by (simp add: within_window_Cons)
      with allowed_for_recent[OF _ at, of a es] rest step Request True
      show ?thesis by (auto simp: min_def)
    qed
  qed
qed simp

text \<open>A window that was open before the interval adds what is left of its own budget.\<close>

lemma allowed_for_old:
  assumes "within_window a l es" and "windows l i = Some w"
  shows "allowed_for i l es \<le> (max_per_window l - window_count w) + max_per_window l"
  using assms
proof (induction es arbitrary: l w)
  case (Cons e es)
  from Cons.prems have rest: "within_window a l es" by (simp add: within_window_Cons)
  show ?case
  proof (cases e)
    case (Prune t)
    show ?thesis
    proof (cases "expired l t w")
      case True
      then have gone: "windows (prune_expired t l) i = None" using prune_over[OF Cons.prems(2)] by simp
      have "allowed_for i (prune_expired t l) es \<le> max_per_window l"
        using allowed_for_absent[OF _ gone, of a es] rest by simp
      with Prune show ?thesis by simp
    next
      case False
      then have "windows (prune_expired t l) i = Some w" using prune_recent[OF Cons.prems(2)] by simp
      with Cons.IH[of "prune_expired t l" w] Prune rest show ?thesis by simp
    qed
  next
    case (Request t j)
    show ?thesis
    proof (cases "j = i")
      case False
      with Request Cons.IH[of "snd (allow t j l)" w] Cons.prems(2) rest show ?thesis by simp
    next
      case True
      show ?thesis
      proof (cases "expired l t w")
        case over: True
        then have step: "allow t i l = (0 < max_per_window l, l\<lparr>windows := (windows l)(i \<mapsto>
            \<lparr>started_at_ms = t, window_count = (if 0 < max_per_window l then 1 else 0)\<rparr>)\<rparr>)"
          using allow_fresh[of l t i] Cons.prems(2) by simp
        then have at: "windows (snd (allow t i l)) i =
            Some \<lparr>started_at_ms = t, window_count = (if 0 < max_per_window l then 1 else 0)\<rparr>" by simp
        have "a \<le> t" using Cons.prems(1) Request by (simp add: within_window_Cons)
        with allowed_for_recent[OF _ at, of a es] rest step Request True
        show ?thesis by auto
      next
        case False
        let ?w' = "if window_count w < max_per_window l then w\<lparr>window_count := window_count w + 1\<rparr> else w"
        from False have step: "allow t i l =
            (window_count w < max_per_window l, l\<lparr>windows := (windows l)(i \<mapsto> ?w')\<rparr>)"
          using allow_recent[OF Cons.prems(2)] by simp
        then have at: "windows (snd (allow t i l)) i = Some ?w'" by simp
        with Cons.IH[of "snd (allow t i l)" ?w'] rest step Request True
        show ?thesis by (auto split: if_splits)
      qed
    qed
  qed
qed simp

section \<open>Properties\<close>

text \<open>
  The times have to be in order: a window that was pruned when it had expired is missed after the
  clock has been set back into it.
\<close>

lemma pruning_visible_if_clock_goes_back:
  "fst (limiter_run (RateLimiter_new 1 60) [Request 0 ''a'', Prune 60, Request 10 ''a'']) = [True, True]"
  "fst (limiter_run (RateLimiter_new 1 60) [Request 0 ''a'', Request 10 ''a'']) = [True, False]"
  by (simp_all add: RateLimiter_new_def allow_def current_window_def expired_def
      saturating_sub_def i64_min_def i64_max_def prune_expired_def Let_def)

text \<open>
  C29: while the clock does not go back, pruning changes no answer. Whatever calls to
  \<open>prune_expired\<close> the periodic sweep interleaves with the requests, every request gets the answer it
  would have got without them, if the times are in order. (The clock is the wall clock, which can be
  set back: \<open>pruning_visible_if_clock_goes_back\<close>.)
\<close>

theorem pruning_is_invisible:
  assumes "sorted (map event_time es)"
  shows "fst (limiter_run l es) = fst (limiter_run l (drop_prunes es))"
proof (cases es)
  case (Cons e es')
  with assms have "\<forall>x \<in> set es. event_time e \<le> event_time x" by auto
  with run_without_prunes[OF same_at_refl assms] show ?thesis by blast
qed simp

definition sample_history :: "string limiter_event list" where
  "sample_history = [Request 0 ''a'', Request 10 ''a'', Request 20 ''a'', Prune 70, Request 80 ''a'']"

theorem pruning_is_invisible_witness:
  "fst (limiter_run (RateLimiter_new 2 60) sample_history)
     = fst (limiter_run (RateLimiter_new 2 60) (drop_prunes sample_history))
   \<and> fst (limiter_run (RateLimiter_new 2 60) sample_history) = [True, True, False, True]"
proof -
  have "sorted (map event_time sample_history)" by (simp add: sample_history_def)
  from pruning_is_invisible[OF this] show ?thesis
    by (simp add: sample_history_def RateLimiter_new_def allow_def current_window_def expired_def
        saturating_sub_def i64_min_def i64_max_def prune_expired_def Let_def)
qed

text \<open>
  The budget of one identity. Among calls that all fall into less than one window, an
  identity the limiter holds nothing about gets exactly the first \<open>max_per_window\<close> of its requests
  through, and no identity ever gets more than twice that, whatever the other identities do and
  whenever the map is pruned.
\<close>

lemma budget_per_window:
  assumes "within_window a l es"
  shows "(windows l i = None \<longrightarrow> allowed_for i l es = min (max_per_window l) (requests_of i es))
    \<and> allowed_for i l es \<le> 2 * max_per_window l"
proof (cases "windows l i")
  case None
  with allowed_for_absent[OF assms this] show ?thesis by simp
next
  case (Some w)
  with allowed_for_old[OF assms this] show ?thesis by simp
qed

end
