(* ===== verification/Node_Handler.thy ===== *)
theory Node_Handler
  imports Node_Retry Node_Rate
begin

text \<open>
  \<^verbatim>\<open>crates/pm-node/src/handler.rs\<close>: the request handler of the node. A connection is the
  identity that opened it and the bytes it sends; the two serialisers, SHA-256 and the clock are
  parameters. The theorems are about everything the network can make the node do: who can change
  what, what is never lost, and which requests are throttled.
\<close>

section \<open>The handler\<close>

definition not_the_owner :: NodeResponse where
  "not_the_owner = RespError ''not the mailbox owner''"

fun handle ::
  "(bytes \<Rightarrow> bytes) \<Rightarrow> bytes \<Rightarrow> i64 \<Rightarrow> NodeRequest \<Rightarrow> (node_db, NodeResponse, unit) action" where
  "handle sha256 key now (RegisterSlot mailbox_key slot_hash) db =
     (if mailbox_key \<noteq> key then (Ok not_the_owner, db)
      else (Ok RespOk, register_slot slot_hash db))"
| "handle sha256 key now (Write auth blob) db =
     (case store_write sha256 auth blob db of
        (Ok i, db') \<Rightarrow> (Ok RespOk, db')
      | (Err NoMatchingSlot, db') \<Rightarrow>
          (Ok (RespError ''no matching registered slot for this write''), db')
      | (Panic, db') \<Rightarrow> (Panic, db'))"
| "handle sha256 key now (Fetch mailbox_key) db =
     (if mailbox_key \<noteq> key then (Ok not_the_owner, db)
      else (Ok (Blobs (fetch_all db)), db))"
| "handle sha256 key now (Ack mailbox_key ids) db =
     (if mailbox_key \<noteq> key then (Ok not_the_owner, db)
      else (Ok RespOk, ack ids db))"
| "handle sha256 key now (PutBackup mailbox_key blob) db =
     (if mailbox_key \<noteq> key then (Ok not_the_owner, db)
      else (Ok RespOk, put_backup blob db))"
| "handle sha256 key now (GetBackup mailbox_key) db =
     (if mailbox_key \<noteq> key then (Ok not_the_owner, db)
      else (Ok (Backup (get_backup db)), db))"
| "handle sha256 key now (ScheduleRetry mailbox_key msg_id recipient envelope) db =
     (if mailbox_key \<noteq> key then (Ok not_the_owner, db)
      else (Ok RespOk, schedule now msg_id recipient envelope db))"
| "handle sha256 key now (PollFailedDeliveries mailbox_key) db =
     (if mailbox_key \<noteq> key then (Ok not_the_owner, db)
      else let (failed, db') = take_failed db in (Ok (FailedDeliveries failed), db'))"

record 'id MailboxHandler =
  mh_db :: node_db
  mh_rate_limiter :: "'id RateLimiter"
  mh_mailbox_key :: bytes

definition MailboxHandler_new :: "node_db \<Rightarrow> 'id RateLimiter \<Rightarrow> bytes \<Rightarrow> 'id MailboxHandler" where
  "MailboxHandler_new db l key = \<lparr>mh_db = db, mh_rate_limiter = l, mh_mailbox_key = key\<rparr>"

text \<open>The two request types the rate limiter is consulted for.\<close>

fun is_limited :: "NodeRequest \<Rightarrow> bool" where
  "is_limited (RegisterSlot k h) = True"
| "is_limited (Write a b) = True"
| "is_limited _ = False"

text \<open>
  One connection. The stream is read up to \<open>MAX_MESSAGE_SIZE\<close>; longer input ends the call with an
  error before anything is looked at. What is returned is the response handed to the stream; a
  connection that breaks while the response is written changes nothing more.
\<close>

datatype AcceptError = TooLong

definition answer ::
  "(bytes \<Rightarrow> bytes) \<Rightarrow> i64 \<Rightarrow> 'id \<Rightarrow> string + NodeRequest
    \<Rightarrow> ('id MailboxHandler, NodeResponse, AcceptError) action" where
  "answer sha256 now remote_id parsed h =
     (case parsed of
        Inl e \<Rightarrow> (Ok (RespError (''malformed request: '' @ e)), h)
      | Inr request \<Rightarrow>
          let (admitted, limiter) =
                (if is_limited request then allow now remote_id (mh_rate_limiter h)
                 else (True, mh_rate_limiter h));
              h' = h\<lparr>mh_rate_limiter := limiter\<rparr>
          in if \<not> admitted then (Ok (RespError ''rate limit exceeded, try again shortly''), h')
             else case handle sha256 (mh_mailbox_key h) now request (mh_db h) of
               (Ok r, db') \<Rightarrow> (Ok r, h'\<lparr>mh_db := db'\<rparr>)
             | (_, db') \<Rightarrow> (Panic, h'\<lparr>mh_db := db'\<rparr>))"

definition accept ::
  "(bytes \<Rightarrow> bytes) \<Rightarrow> NodeRequest codec \<Rightarrow> NodeResponse codec \<Rightarrow> i64 \<Rightarrow> 'id \<Rightarrow> bytes
    \<Rightarrow> ('id MailboxHandler, bytes, AcceptError) action" where
  "accept sha256 req_codec resp_codec now remote_id request_bytes h =
     (if length request_bytes > MAX_MESSAGE_SIZE then (Err TooLong, h)
      else and_then (answer sha256 now remote_id (dec req_codec request_bytes))
             (\<lambda>response h'. case enc resp_codec response of
                 Inl e \<Rightarrow> (Panic, h')
               | Inr bs \<Rightarrow> (Ok bs, h')) h)"

section \<open>Runs\<close>

text \<open>The connections a node serves, one after the other (every operation takes the database lock).\<close>

record 'id connection =
  conn_at :: i64
  conn_remote :: 'id
  conn_bytes :: bytes

definition serve ::
  "(bytes \<Rightarrow> bytes) \<Rightarrow> NodeRequest codec \<Rightarrow> NodeResponse codec \<Rightarrow> 'id connection
    \<Rightarrow> 'id MailboxHandler \<Rightarrow> 'id MailboxHandler" where
  "serve sha rq rs c h = snd (accept sha rq rs (conn_at c) (conn_remote c) (conn_bytes c) h)"

definition serve_all ::
  "(bytes \<Rightarrow> bytes) \<Rightarrow> NodeRequest codec \<Rightarrow> NodeResponse codec \<Rightarrow> 'id connection list
    \<Rightarrow> 'id MailboxHandler \<Rightarrow> 'id MailboxHandler" where
  "serve_all sha rq rs cs h = fold (serve sha rq rs) cs h"

text \<open>What a connection can do to the database is one request's worth of \<open>handle\<close>, or nothing.\<close>

lemma answer_db:
  "mh_db (snd (answer sha now i p h)) = mh_db h
   \<or> (\<exists>r. p = Inr r \<and> mh_db (snd (answer sha now i p h)) =
        snd (handle sha (mh_mailbox_key h) now r (mh_db h)))"
  by (auto simp: answer_def Let_def split: sum.splits prod.splits outcome.splits)

lemma accept_db:
  obtains "mh_db (snd (accept sha rq rs now i bs h)) = mh_db h"
  | r where "dec rq bs = Inr r"
      "mh_db (snd (accept sha rq rs now i bs h)) = snd (handle sha (mh_mailbox_key h) now r (mh_db h))"
proof -
  have "mh_db (snd (accept sha rq rs now i bs h)) = mh_db h
     \<or> (\<exists>r. dec rq bs = Inr r \<and> mh_db (snd (accept sha rq rs now i bs h)) =
        snd (handle sha (mh_mailbox_key h) now r (mh_db h)))"
    using answer_db[of sha now i "dec rq bs" h]
    by (auto simp: accept_def and_then_def split: outcome.splits prod.splits sum.splits)
  then show ?thesis using that by blast
qed

lemma accept_key [simp]: "mh_mailbox_key (snd (accept sha rq rs now i bs h)) = mh_mailbox_key h"
  by (auto simp: accept_def answer_def and_then_def Let_def
      split: outcome.splits prod.splits sum.splits)

lemma serve_key [simp]: "mh_mailbox_key (serve sha rq rs c h) = mh_mailbox_key h"
  by (simp add: serve_def)

lemma serve_all_Nil [simp]: "serve_all sha rq rs [] h = h"
  by (simp add: serve_all_def)

lemma serve_all_Cons [simp]:
  "serve_all sha rq rs (c # cs) h = serve_all sha rq rs cs (serve sha rq rs c h)"
  by (simp add: serve_all_def)

lemma serve_all_key [simp]: "mh_mailbox_key (serve_all sha rq rs cs h) = mh_mailbox_key h"
  by (induction cs arbitrary: h) auto

text \<open>A predicate on the database that every request keeps is kept by every run.\<close>

lemma serve_all_db_induct:
  assumes "P (mh_db h)"
    and "\<And>r now db. P db \<Longrightarrow> ok r \<Longrightarrow> P (snd (handle sha (mh_mailbox_key h) now r db))"
    and "\<And>c r. c \<in> set cs \<Longrightarrow> dec rq (conn_bytes c) = Inr r \<Longrightarrow> ok r"
  shows "P (mh_db (serve_all sha rq rs cs h))"
  using assms
proof (induction cs arbitrary: h)
  case (Cons c cs)
  have "P (mh_db (serve sha rq rs c h))"
  proof (cases rule: accept_db[of sha rq rs "conn_at c" "conn_remote c" "conn_bytes c" h])
    case 1
    with Cons.prems(1) show ?thesis by (simp add: serve_def)
  next
    case (2 r)
    from 2(1) Cons.prems(3)[of c r] have "ok r" by simp
    with Cons.prems(2)[OF Cons.prems(1)] 2(2) show ?thesis by (simp add: serve_def)
  qed
  moreover have "ok r" if "c' \<in> set cs" "dec rq (conn_bytes c') = Inr r" for c' r
    using that Cons.prems(3)[of c' r] by simp
  ultimately show ?case
    using Cons.IH[of "serve sha rq rs c h"] Cons.prems(2) by simp
qed simp

section \<open>The invariant\<close>

definition node_wf :: "node_db \<Rightarrow> bool" where
  "node_wf db \<longleftrightarrow> mailbox_wf db \<and> retry_wf db"

lemma node_wf_empty [simp]: "node_wf empty_node_db"
  by (simp add: node_wf_def)

lemma retry_wf_cong:
  "retry_wf (db\<lparr>registered_slots := a\<rparr>) = retry_wf db" "retry_wf (db\<lparr>blobs := b\<rparr>) = retry_wf db"
  "retry_wf (db\<lparr>blobs_seq := c\<rparr>) = retry_wf db" "retry_wf (db\<lparr>backup_row := d\<rparr>) = retry_wf db"
  by (simp_all add: retry_wf_def)

lemma mailbox_wf_cong:
  "mailbox_wf (db\<lparr>retry_entries := a\<rparr>) = mailbox_wf db"
  "mailbox_wf (db\<lparr>failed_deliveries := b\<rparr>) = mailbox_wf db"
  by (simp_all add: mailbox_wf_def)

lemma store_write_retry_wf: "retry_wf (snd (store_write sha a b db)) = retry_wf db"
  by (simp add: store_write_def Let_def retry_wf_cong)

lemma write_snd: "snd (handle sha key now (Write a b) db) = snd (store_write sha a b db)"
  by (auto split: prod.splits outcome.splits WriteError.splits)

lemma handle_wf:
  assumes "node_wf db"
  shows "node_wf (snd (handle sha key now r db))"
proof (cases r)
  case (Write a b)
  then show ?thesis
    using assms store_write_wf[of db sha a b] write_snd[of sha key now a b db]
    by (auto simp: node_wf_def store_write_retry_wf simp del: handle.simps)
qed (use assms in \<open>auto simp: node_wf_def register_slot_def ack_def put_backup_def schedule_def
      take_failed_def retry_wf_cong mailbox_wf_cong
      dest: register_slot_wf ack_wf put_backup_wf schedule_wf take_failed_wf\<close>)

section \<open>Who can do what\<close>

text \<open>The key a request presents, if it is one of the owner's requests.\<close>

fun owner_key :: "NodeRequest \<Rightarrow> bytes option" where
  "owner_key (RegisterSlot k h) = Some k"
| "owner_key (Write a b) = None"
| "owner_key (Fetch k) = Some k"
| "owner_key (Ack k ids) = Some k"
| "owner_key (PutBackup k b) = Some k"
| "owner_key (GetBackup k) = Some k"
| "owner_key (ScheduleRetry k m r e) = Some k"
| "owner_key (PollFailedDeliveries k) = Some k"

lemma handle_refused:
  "owner_key r = Some k \<Longrightarrow> k \<noteq> key \<Longrightarrow> handle sha key now r db = (Ok not_the_owner, db)"
  by (cases r) auto

text \<open>What is left of a mailbox's capacity, together with what it holds.\<close>

definition capacity :: "node_db \<Rightarrow> nat" where
  "capacity db = length (blobs db) + length (registered_slots db)"

lemma delete_one_length:
  "distinct xs \<Longrightarrow> x \<in> set xs \<Longrightarrow> Suc (length (delete_where (\<lambda>h. h = x) xs)) = length xs"
proof (induction xs)
  case (Cons y ys)
  have "x \<notin> set ys \<Longrightarrow> filter (\<lambda>h. h \<noteq> x) ys = ys" by (induction ys) auto
  with Cons show ?case by (auto simp: delete_where_def)
qed simp

lemma capacity_write:
  assumes "mailbox_wf db"
  shows "capacity (snd (store_write sha a b db)) = capacity db"
  using assms delete_one_length[of "registered_slots db" "sha a"]
  by (auto simp: capacity_def store_write_def Let_def mailbox_wf_def)

lemma store_write_rest [simp]:
  "backup_row (snd (store_write sha a b db)) = backup_row db"
  "retry_entries (snd (store_write sha a b db)) = retry_entries db"
  "failed_deliveries (snd (store_write sha a b db)) = failed_deliveries db"
  by (simp_all add: store_write_def Let_def)

lemma store_write_slots: "slots (snd (store_write sha a b db)) \<subseteq> slots db"
  by (auto simp: store_write_def Let_def slots_def)

text \<open>The part of the database only the owner can change, and the blobs nobody can take away.\<close>

definition owner_part :: "node_db \<Rightarrow> bytes option \<times> retry_row list \<times> bytes list" where
  "owner_part db = (backup_row db, retry_entries db, failed_deliveries db)"

definition keeps_blobs :: "node_db \<Rightarrow> node_db \<Rightarrow> bool" where
  "keeps_blobs db db' \<longleftrightarrow> (\<forall>i b d. stored db i = Some (b, d) \<longrightarrow>
      (\<exists>d'. stored db' i = Some (b, d') \<and> (d \<longrightarrow> d')))"

lemma keeps_blobs_refl [simp]: "keeps_blobs db db"
  by (auto simp: keeps_blobs_def)

lemma keeps_blobs_trans: "keeps_blobs a b \<Longrightarrow> keeps_blobs b c \<Longrightarrow> keeps_blobs a c"
  unfolding keeps_blobs_def by meson

lemma keeps_blobs_handle:
  assumes "node_wf db"
  shows "keeps_blobs db (snd (handle sha key now r db))"
proof (cases r)
  case (Write a b)
  have "mailbox_wf db" using assms by (simp add: node_wf_def)
  then show ?thesis
    using mb.wr_keeps_contents[of db _ _ sha a b] write_snd[of sha key now a b db] Write
    by (fastforce simp: keeps_blobs_def simp del: handle.simps)
next
  case (Ack k ids)
  then show ?thesis by (auto simp: keeps_blobs_def stored_ack mark_delivered_in_def)
qed (auto simp: keeps_blobs_def register_slot_def put_backup_def schedule_def take_failed_def)

lemma handle_stranger:
  assumes "node_wf db" and "owner_key r \<noteq> Some key"
  shows "owner_part (snd (handle sha key now r db)) = owner_part db"
    and "slots (snd (handle sha key now r db)) \<subseteq> slots db"
    and "capacity (snd (handle sha key now r db)) = capacity db"
    and "\<And>i v. stored db i = Some v \<Longrightarrow> stored (snd (handle sha key now r db)) i = Some v"
proof -
  have "snd (handle sha key now r db) = db \<or> (\<exists>a b. r = Write a b)"
    using assms(2) by (cases r) auto
  then consider "snd (handle sha key now r db) = db"
    | a b where "snd (handle sha key now r db) = snd (store_write sha a b db)"
    using write_snd by metis
  then have "owner_part (snd (handle sha key now r db)) = owner_part db
    \<and> slots (snd (handle sha key now r db)) \<subseteq> slots db
    \<and> capacity (snd (handle sha key now r db)) = capacity db
    \<and> (\<forall>i v. stored db i = Some v \<longrightarrow> stored (snd (handle sha key now r db)) i = Some v)"
  proof cases
    case 2
    have "mailbox_wf db" using assms(1) by (simp add: node_wf_def)
    with 2 show ?thesis
      using store_write_slots[of sha a b db] capacity_write mb.wr_keeps_contents
      by (simp add: owner_part_def)
  qed simp
  then show "owner_part (snd (handle sha key now r db)) = owner_part db"
    and "slots (snd (handle sha key now r db)) \<subseteq> slots db"
    and "capacity (snd (handle sha key now r db)) = capacity db"
    and "\<And>i v. stored db i = Some v \<Longrightarrow> stored (snd (handle sha key now r db)) i = Some v"
    by auto
qed

section \<open>What the limiter sees\<close>

definition limited_request :: "NodeRequest codec \<Rightarrow> bytes \<Rightarrow> bool" where
  "limited_request rq bs \<longleftrightarrow> length bs \<le> MAX_MESSAGE_SIZE
     \<and> (case dec rq bs of Inl e \<Rightarrow> False | Inr r \<Rightarrow> is_limited r)"

fun limiter_events :: "NodeRequest codec \<Rightarrow> 'id connection list \<Rightarrow> 'id limiter_event list" where
  "limiter_events rq [] = []"
| "limiter_events rq (c # cs) =
     (if limited_request rq (conn_bytes c) then [Request (conn_at c) (conn_remote c)] else [])
     @ limiter_events rq cs"

lemma accept_limiter:
  "mh_rate_limiter (snd (accept sha rq rs now i bs h)) =
     (if limited_request rq bs then snd (allow now i (mh_rate_limiter h)) else mh_rate_limiter h)"
  by (auto simp: accept_def answer_def and_then_def Let_def limited_request_def
      split: outcome.splits prod.splits sum.splits)

text \<open>How many blobs the connections of one identity have added.\<close>

fun blobs_added ::
  "(bytes \<Rightarrow> bytes) \<Rightarrow> NodeRequest codec \<Rightarrow> NodeResponse codec \<Rightarrow> 'id \<Rightarrow> 'id connection list
    \<Rightarrow> 'id MailboxHandler \<Rightarrow> nat" where
  "blobs_added sha rq rs i [] h = 0"
| "blobs_added sha rq rs i (c # cs) h =
     (if conn_remote c = i
      then length (blobs (mh_db (serve sha rq rs c h))) - length (blobs (mh_db h)) else 0)
     + blobs_added sha rq rs i cs (serve sha rq rs c h)"

lemma handle_blobs_length:
  "length (blobs (snd (handle sha key now r db))) =
     length (blobs db) + (if \<exists>a b. r = Write a b \<and> is_ok (fst (store_write sha a b db)) then 1 else 0)"
proof (cases r)
  case (Write a b)
  then show ?thesis
    using write_snd[of sha key now a b db]
    by (auto simp: store_write_def Let_def simp del: handle.simps)
qed (auto simp: register_slot_def ack_def put_backup_def schedule_def take_failed_def)

lemma serve_blobs_length:
  "length (blobs (mh_db (serve sha rq rs c h))) \<le> length (blobs (mh_db h))
     + (if limited_request rq (conn_bytes c) \<and> fst (allow (conn_at c) (conn_remote c) (mh_rate_limiter h))
        then 1 else 0)"
proof (cases "limited_request rq (conn_bytes c)
    \<and> fst (allow (conn_at c) (conn_remote c) (mh_rate_limiter h))")
  case True
  show ?thesis
    by (cases rule: accept_db[of sha rq rs "conn_at c" "conn_remote c" "conn_bytes c" h])
      (use True in \<open>auto simp: serve_def handle_blobs_length\<close>)
next
  case False
  have "blobs (snd (handle sha key now r db)) = blobs db \<or> length (blobs (snd (handle sha key now r db))) = length (blobs db)"
    if "\<not> is_limited r" for key now r db
    using that handle_blobs_length[of sha key now r db] by auto
  then have "length (blobs (mh_db (serve sha rq rs c h))) = length (blobs (mh_db h))"
    using False handle_blobs_length[of sha "mh_mailbox_key h" "conn_at c" _ "mh_db h"]
    by (auto simp: serve_def accept_def answer_def and_then_def Let_def limited_request_def not_less
        split: outcome.splits prod.splits sum.splits if_splits) (metis snd_conv)+
  then show ?thesis by simp
qed

lemma blobs_added_allowed:
  "blobs_added sha rq rs i cs h \<le> allowed_for i (mh_rate_limiter h) (limiter_events rq cs)"
proof (induction cs arbitrary: h)
  case (Cons c cs)
  have "mh_rate_limiter (serve sha rq rs c h) =
      (if limited_request rq (conn_bytes c)
       then snd (allow (conn_at c) (conn_remote c) (mh_rate_limiter h)) else mh_rate_limiter h)"
    by (simp add: serve_def accept_limiter)
  with Cons.IH[of "serve sha rq rs c h"] serve_blobs_length[of sha rq rs c h] show ?case
    by (auto split: if_splits)
qed simp

section \<open>Properties\<close>

text \<open>
  C6: without the mailbox key the network can only spend slots the owner opened. Whatever bytes
  any number of connections send, as long as none of them presents the owner's key, the backup,
  the retry queue and the failed-delivery list stay as they are, no slot is opened, every stored
  blob stays with its bytes and its mark, and every blob that is added has used up one slot.
\<close>

theorem strangers_only_spend_slots:
  assumes "node_wf (mh_db h)"
    and "\<forall>c \<in> set cs. \<forall>r. dec rq (conn_bytes c) = Inr r \<longrightarrow> owner_key r \<noteq> Some (mh_mailbox_key h)"
  shows "let db = mh_db h; db' = mh_db (serve_all sha rq rs cs h) in
      owner_part db' = owner_part db \<and> slots db' \<subseteq> slots db
    \<and> length (blobs db') + length (registered_slots db')
        = length (blobs db) + length (registered_slots db)
    \<and> (\<forall>i v. stored db i = Some v \<longrightarrow> stored db' i = Some v)"
proof -
  let ?P = "\<lambda>db'. node_wf db' \<and> owner_part db' = owner_part (mh_db h) \<and> slots db' \<subseteq> slots (mh_db h)
    \<and> capacity db' = capacity (mh_db h) \<and> (\<forall>i v. stored (mh_db h) i = Some v \<longrightarrow> stored db' i = Some v)"
  have "?P (mh_db (serve_all sha rq rs cs h))"
  proof (rule serve_all_db_induct[where ok = "\<lambda>r. owner_key r \<noteq> Some (mh_mailbox_key h)"])
    show "?P (mh_db h)" using assms(1) by simp
    show "?P (snd (handle sha (mh_mailbox_key h) now r db))"
      if "?P db" "owner_key r \<noteq> Some (mh_mailbox_key h)" for r now db
      using that handle_wf[of db sha "mh_mailbox_key h" now r]
        handle_stranger[where sha = sha and now = now and db = db, OF _ that(2)]
        subset_trans[of "slots (snd (handle sha (mh_mailbox_key h) now r db))" "slots db"]
      by simp
    show "owner_key r \<noteq> Some (mh_mailbox_key h)"
      if "c \<in> set cs" "dec rq (conn_bytes c) = Inr r" for c r
      using that assms(2) by blast
  qed
  then show ?thesis by (simp add: Let_def capacity_def)
qed

text \<open>Instances: a codec in which the first byte selects one of a few requests.\<close>

definition sample_codec :: "NodeRequest codec" where
  "sample_codec = \<lparr>enc = (\<lambda>r. case r of Write a b \<Rightarrow> Inr (1 # b) | _ \<Rightarrow> Inl ''unsupported''),
     dec = (\<lambda>bs. case bs of (t # b) \<Rightarrow> if t = 1 then Inr (Write [7] b)
                                    else if t = 2 then Inr (RegisterSlot [9] [0, 7])
                                    else Inl ''invalid'' | [] \<Rightarrow> Inl ''invalid'')\<rparr>"

definition sample_resp_codec :: "NodeResponse codec" where
  "sample_resp_codec = \<lparr>enc = (\<lambda>r. Inr []), dec = (\<lambda>bs. Inl ''invalid'')\<rparr>"

definition sample_handler :: "string MailboxHandler" where
  "sample_handler =
     MailboxHandler_new (register_slot [0, 7] empty_node_db) (RateLimiter_new 60 60000) [9]"

definition sample_conns :: "string connection list" where
  "sample_conns = [\<lparr>conn_at = 0, conn_remote = ''bob'', conn_bytes = [1, 5]\<rparr>,
                   \<lparr>conn_at = 1, conn_remote = ''bob'', conn_bytes = [1, 6]\<rparr>]"

lemmas sample_eval = sample_conns_def sample_handler_def sample_codec_def sample_resp_codec_def
  MailboxHandler_new_def RateLimiter_new_def serve_def accept_def answer_def and_then_def allow_def
  current_window_def MAX_MESSAGE_SIZE_def Let_def store_write_def delete_where_def register_slot_def
  empty_node_db_def insert_or_ignore_def i64_max_def i64_min_def expired_def saturating_sub_def

lemma sample_handler_wf: "node_wf (mh_db sample_handler)"
  by (simp add: sample_handler_def MailboxHandler_new_def node_wf_def register_slot_wf)
    (simp add: register_slot_def retry_wf_cong)

theorem strangers_only_spend_slots_witness:
  "let db' = mh_db (serve_all (\<lambda>a. 0 # a) sample_codec sample_resp_codec sample_conns sample_handler) in
     length (blobs db') + length (registered_slots db') = 1 \<and> owner_part db' = (None, [], [])
   \<and> length (blobs db') = 1"
proof -
  have "\<forall>c \<in> set sample_conns. \<forall>r. dec sample_codec (conn_bytes c) = Inr r
      \<longrightarrow> owner_key r \<noteq> Some (mh_mailbox_key sample_handler)"
    by (simp add: sample_conns_def sample_codec_def)
  from strangers_only_spend_slots[OF sample_handler_wf this, of "\<lambda>a. 0 # a" sample_resp_codec]
  have "length (blobs (mh_db (serve_all (\<lambda>a. 0 # a) sample_codec sample_resp_codec sample_conns sample_handler)))
     + length (registered_slots (mh_db (serve_all (\<lambda>a. 0 # a) sample_codec sample_resp_codec sample_conns sample_handler))) = 1
     \<and> owner_part (mh_db (serve_all (\<lambda>a. 0 # a) sample_codec sample_resp_codec sample_conns sample_handler))
         = owner_part (mh_db sample_handler)"
    by (simp add: Let_def sample_handler_def MailboxHandler_new_def register_slot_def empty_node_db_def
        insert_or_ignore_def)
  moreover have "length (blobs (mh_db (serve_all (\<lambda>a. 0 # a) sample_codec sample_resp_codec sample_conns sample_handler))) = 1"
    by (simp add: sample_eval)
  moreover have "owner_part (mh_db sample_handler) = (None, [], [])" by code_simp
  ultimately show ?thesis by (simp add: Let_def)
qed

text \<open>
  C24: nothing that reached the mailbox is ever lost or altered. Over any sequence of connections,
  the owner's included, the database stays well-formed, and every stored blob is still there
  under its id with the same bytes; its delivered mark can only be set, never cleared.
\<close>

theorem no_request_loses_a_blob:
  assumes "node_wf (mh_db h)" and "stored (mh_db h) i = Some (b, d)"
  shows "node_wf (mh_db (serve_all sha rq rs cs h))
    \<and> (\<exists>d'. stored (mh_db (serve_all sha rq rs cs h)) i = Some (b, d') \<and> (d \<longrightarrow> d'))"
proof -
  let ?P = "\<lambda>db'. node_wf db' \<and> keeps_blobs (mh_db h) db'"
  have "?P (mh_db (serve_all sha rq rs cs h))"
    by (rule serve_all_db_induct[where ok = "\<lambda>_. True"])
      (use assms(1) handle_wf keeps_blobs_handle keeps_blobs_trans in auto)
  with assms(2) show ?thesis by (auto simp: keeps_blobs_def)
qed

theorem no_request_loses_a_blob_witness:
  "\<exists>d'. stored (mh_db (serve_all (\<lambda>a. a) sample_codec sample_resp_codec sample_conns
      (MailboxHandler_new sample_mailbox (RateLimiter_new 60 60000) [9]))) 2 = Some ([8, 9], d')"
proof -
  let ?h = "MailboxHandler_new sample_mailbox (RateLimiter_new 60 60000 :: string RateLimiter) [9]"
  have "retry_wf sample_mailbox"
    by (simp add: sample_mailbox_def store_write_retry_wf register_slot_def retry_wf_cong)
  then have wf: "node_wf (mh_db ?h)"
    by (simp add: MailboxHandler_new_def node_wf_def sample_mailbox_wf)
  have st: "stored (mh_db ?h) 2 = Some ([8, 9], False)"
    unfolding MailboxHandler_new_def by code_simp
  from no_request_loses_a_blob[OF wf st] show ?thesis by blast
qed

text \<open>
  C30: one identity can fill the mailbox only slowly. Among connections that fall into less than
  one rate-limit window, those of a single remote identity add at most twice
  \<open>max_per_window\<close> blobs, and at most \<open>max_per_window\<close> if the limiter holds nothing about it,
  however many slots are open and however many connections it makes.
\<close>

theorem throttled_writes:
  assumes "within_window a (mh_rate_limiter h) (limiter_events rq cs)"
  shows "blobs_added sha rq rs i cs h \<le> 2 * max_per_window (mh_rate_limiter h)
    \<and> (windows (mh_rate_limiter h) i = None \<longrightarrow>
         blobs_added sha rq rs i cs h \<le> max_per_window (mh_rate_limiter h))"
proof (cases "windows (mh_rate_limiter h) i")
  case None
  with allowed_for_absent[OF assms None] blobs_added_allowed[of sha rq rs i cs h] show ?thesis by simp
next
  case (Some w)
  with allowed_for_old[OF assms Some] blobs_added_allowed[of sha rq rs i cs h] show ?thesis by simp
qed

theorem throttled_writes_witness:
  "blobs_added (\<lambda>a. 0 # a) sample_codec sample_resp_codec ''bob'' sample_conns sample_handler \<le> 60
   \<and> blobs_added (\<lambda>a. 0 # a) sample_codec sample_resp_codec ''bob'' sample_conns sample_handler = 1"
proof -
  have "within_window 0 (mh_rate_limiter sample_handler) (limiter_events sample_codec sample_conns)"
    by (simp add: within_window_def limited_request_def sample_eval)
  from throttled_writes[OF this, of "\<lambda>a. 0 # a" sample_resp_codec "''bob''"] show ?thesis
    by (simp add: sample_eval)
qed

text \<open>
  The owner is served, whatever others do. Requests other than slot registration and writes
  are answered without consulting the limiter, so a flood of connections cannot delay the
  owner's polling; and after the owner stores a backup, any number of connections that do not
  present the key later, a request for it returns exactly those bytes.
\<close>

lemma owner_reads_back_backup:
  assumes "node_wf (mh_db h)"
    and "\<forall>c \<in> set cs. \<forall>r. dec rq (conn_bytes c) = Inr r \<longrightarrow> owner_key r \<noteq> Some (mh_mailbox_key h)"
  shows "let key = mh_mailbox_key h;
             h1 = snd (answer sha t1 i (Inr (PutBackup key blob)) h);
             h2 = serve_all sha rq rs cs h1
    in fst (answer sha t1 i (Inr (PutBackup key blob)) h) = Ok RespOk
     \<and> answer sha t2 j (Inr (GetBackup key)) h2 = (Ok (Backup (Some blob)), h2)
     \<and> answer sha t2 j (Inr (Fetch key)) h2 = (Ok (Blobs (fetch_all (mh_db h2))), h2)"
proof -
  let ?h1 = "snd (answer sha t1 i (Inr (PutBackup (mh_mailbox_key h) blob)) h)"
  have h1: "?h1 = h\<lparr>mh_db := put_backup blob (mh_db h)\<rparr>"
    by (simp add: answer_def Let_def)
  have wf: "node_wf (mh_db ?h1)"
    using assms(1) by (simp add: h1 node_wf_def put_backup_wf) (simp add: put_backup_def retry_wf_cong)
  let ?P = "\<lambda>db'. node_wf db' \<and> backup_row db' = Some blob"
  have "?P (mh_db (serve_all sha rq rs cs ?h1))"
  proof (rule serve_all_db_induct[where ok = "\<lambda>r. owner_key r \<noteq> Some (mh_mailbox_key h)"])
    show "?P (mh_db ?h1)" using wf by (simp add: h1 put_backup_def)
    show "?P (snd (handle sha (mh_mailbox_key ?h1) now r db))"
      if "?P db" "owner_key r \<noteq> Some (mh_mailbox_key h)" for r now db
      using that handle_wf[of db sha "mh_mailbox_key h" now r]
        handle_stranger(1)[where sha = sha and now = now, OF _ that(2)] by (simp add: h1 owner_part_def)
    show "owner_key r \<noteq> Some (mh_mailbox_key h)"
      if "c \<in> set cs" "dec rq (conn_bytes c) = Inr r" for c r
      using that assms(2) by blast
  qed
  moreover have "mh_mailbox_key (serve_all sha rq rs cs ?h1) = mh_mailbox_key h" by (simp add: h1)
  ultimately show ?thesis by (simp add: Let_def answer_def get_backup_def)
qed

lemma sample_backup_read_back:
  "fst (answer (\<lambda>a. 0 # a) 5 ''alice'' (Inr (GetBackup [9]))
     (serve_all (\<lambda>a. 0 # a) sample_codec sample_resp_codec sample_conns
       (snd (answer (\<lambda>a. 0 # a) 0 ''alice'' (Inr (PutBackup [9] [4, 4])) sample_handler))))
   = Ok (Backup (Some [4, 4]))"
proof -
  have key: "mh_mailbox_key sample_handler = [9]"
    by (simp add: sample_handler_def MailboxHandler_new_def)
  have "\<forall>c \<in> set sample_conns. \<forall>r. dec sample_codec (conn_bytes c) = Inr r
      \<longrightarrow> owner_key r \<noteq> Some (mh_mailbox_key sample_handler)"
    by (simp add: sample_conns_def sample_codec_def)
  from owner_reads_back_backup[OF sample_handler_wf this, of "\<lambda>a. 0 # a" 0 "''alice''" "[4, 4]"
      sample_resp_codec 5 "''alice''"]
  show ?thesis by (simp add: Let_def key)
qed

end
