(* ===== verification/Node_Run.thy ===== *)
theory Node_Run
  imports Node_Handler
begin

text \<open>
  \<^verbatim>\<open>crates/pm-node/src/lib.rs\<close> and \<^verbatim>\<open>main.rs\<close>: the running node, that is the request
  handler, the periodic sweep that retries deliveries, and the dial attempts the sweep spawns,
  which run concurrently with everything else. The node is a step relation; one step is one
  connection served, one tick of the sweep, the end of one dial attempt, a restart of the process,
  time passing, or the wall clock being set. The invariants say when a delivery is never dialled
  twice at the same time and how often it is dialled.
\<close>

section \<open>Constants and state\<close>

definition SWEEP_INTERVAL :: i64 where
  "SWEEP_INTERVAL = 2000"

definition RETRY_DIAL_TIMEOUT :: i64 where
  "RETRY_DIAL_TIMEOUT = 10000"

definition RATE_LIMIT_MAX_PER_WINDOW :: nat where
  "RATE_LIMIT_MAX_PER_WINDOW = 60"

definition RATE_LIMIT_WINDOW :: i64 where
  "RATE_LIMIT_WINDOW = 60000"

text \<open>
  A spawned dial attempt is the delivery it was given and the time it started. There are two
  clocks: \<open>rn_clock\<close> is the wall clock (\<^verbatim>\<open>SystemTime\<close>), which the queue and the rate limiter
  read and which can be set; \<open>rn_up\<close> is the monotonic one that the timeouts of tokio go by.
  \<open>rn_dialed\<close> and \<open>rn_restarts\<close> are history variables: how many attempts were started for
  a message since it was last scheduled, and how often the process was restarted.
\<close>

record 'id RunningNode =
  rn_handler :: "'id MailboxHandler"
  rn_in_flight :: "(DueDelivery \<times> i64) list"
  rn_clock :: i64
  rn_up :: i64
  rn_dialed :: "bytes \<Rightarrow> nat"
  rn_restarts :: nat

definition spawn :: "bytes \<Rightarrow> node_db \<Rightarrow> i64 \<Rightarrow> 'id RunningNode" where
  "spawn mailbox_key db now =
     \<lparr>rn_handler = MailboxHandler_new db
        (RateLimiter_new RATE_LIMIT_MAX_PER_WINDOW RATE_LIMIT_WINDOW) mailbox_key,
      rn_in_flight = [], rn_clock = now, rn_up = 0, rn_dialed = (\<lambda>_. 0), rn_restarts = 0\<rparr>"

definition node_state :: "'id RunningNode \<Rightarrow> node_db" where
  "node_state s = mh_db (rn_handler s)"

definition set_db :: "node_db \<Rightarrow> 'id RunningNode \<Rightarrow> 'id RunningNode" where
  "set_db db s = s\<lparr>rn_handler := (rn_handler s)\<lparr>mh_db := db\<rparr>\<rparr>"

section \<open>The sweep and its attempts\<close>

text \<open>One iteration of \<^verbatim>\<open>retry_sweep_loop\<close>.\<close>

definition sweep_tick :: "'id RunningNode \<Rightarrow> 'id RunningNode" where
  "sweep_tick s =
     (let now = rn_clock s;
          limiter = prune_expired now (mh_rate_limiter (rn_handler s));
          (due, db') = take_due now (node_state s);
          ids = map due_msg_id due
      in s\<lparr>rn_handler := (rn_handler s)\<lparr>mh_rate_limiter := limiter, mh_db := db'\<rparr>,
           rn_in_flight := rn_in_flight s @ map (\<lambda>d. (d, rn_up s)) due,
           rn_dialed := (\<lambda>m. rn_dialed s m + count_list ids m)\<rparr>)"

definition finish_task :: "DueDelivery \<times> i64 \<Rightarrow> 'id RunningNode \<Rightarrow> 'id RunningNode" where
  "finish_task task s = s\<lparr>rn_in_flight := remove1 task (rn_in_flight s)\<rparr>"

text \<open>
  The two ends of a spawned attempt: \<^verbatim>\<open>Ok(Ok(()))\<close> within the timeout, or anything else
  (no valid endpoint id, an error, the timeout).
\<close>

definition attempt_delivered :: "DueDelivery \<times> i64 \<Rightarrow> 'id RunningNode \<Rightarrow> 'id RunningNode" where
  "attempt_delivered task s =
     finish_task task (set_db (mark_delivered (due_msg_id (fst task)) (node_state s)) s)"

definition attempt_failed :: "DueDelivery \<times> i64 \<Rightarrow> 'id RunningNode \<Rightarrow> 'id RunningNode" where
  "attempt_failed task s =
     finish_task task
       (set_db (snd (mark_failed (rn_clock s) (due_msg_id (fst task)) (node_state s))) s)"

text \<open>The message a connection (re)schedules, if it is the owner's \<^verbatim>\<open>ScheduleRetry\<close>.\<close>

fun scheduled_msg :: "bytes \<Rightarrow> string + NodeRequest \<Rightarrow> bytes option" where
  "scheduled_msg key (Inr (ScheduleRetry k m r e)) = (if k = key then Some m else None)"
| "scheduled_msg key _ = None"

definition serve_connection ::
  "(bytes \<Rightarrow> bytes) \<Rightarrow> 'id \<Rightarrow> string + NodeRequest \<Rightarrow> 'id RunningNode \<Rightarrow> 'id RunningNode" where
  "serve_connection sha i parsed s =
     s\<lparr>rn_handler := snd (answer sha (rn_clock s) i parsed (rn_handler s)),
       rn_dialed := (case scheduled_msg (mh_mailbox_key (rn_handler s)) parsed of
           None \<Rightarrow> rn_dialed s
         | Some m \<Rightarrow> (rn_dialed s)(m := 0))\<rparr>"

text \<open>
  What the outside does to a node with a data directory: its process ends, at any time and in any
  way, and \<open>spawn\<close> is run again on the database file.
\<close>

definition restart :: "'id RunningNode \<Rightarrow> 'id RunningNode" where
  "restart s = (spawn (mh_mailbox_key (rn_handler s)) (node_state s) (rn_clock s))
     \<lparr>rn_up := rn_up s, rn_dialed := rn_dialed s, rn_restarts := rn_restarts s + 1\<rparr>"

section \<open>The step relation\<close>

text \<open>
  \<open>valid\<close> is iroh's \<^verbatim>\<open>EndpointId::from_bytes\<close>; \<open>lag\<close> bounds how long after its
  timeout an attempt may still be recorded as running (timers and the executor are not exact).
  Time only passes while no attempt overstays; the wall clock may be set to anything at any time.
\<close>

inductive node_step ::
  "(bytes \<Rightarrow> bytes) \<Rightarrow> (bytes \<Rightarrow> bool) \<Rightarrow> i64 \<Rightarrow> 'id RunningNode \<Rightarrow> 'id RunningNode \<Rightarrow> bool"
  for sha valid lag where
  connection: "node_step sha valid lag s (serve_connection sha i parsed s)"
| tick: "node_step sha valid lag s (sweep_tick s)"
| delivered: "\<lbrakk>task \<in> set (rn_in_flight s); valid (due_recipient (fst task))\<rbrakk>
     \<Longrightarrow> node_step sha valid lag s (attempt_delivered task s)"
| failed: "task \<in> set (rn_in_flight s) \<Longrightarrow> node_step sha valid lag s (attempt_failed task s)"
| restarted: "node_step sha valid lag s (restart s)"
| wait: "\<lbrakk>0 \<le> d; \<And>x t0. (x, t0) \<in> set (rn_in_flight s) \<Longrightarrow> rn_up s + d \<le> t0 + RETRY_DIAL_TIMEOUT + lag\<rbrakk>
     \<Longrightarrow> node_step sha valid lag s (s\<lparr>rn_clock := rn_clock s + d, rn_up := rn_up s + d\<rparr>)"
| clock_set: "node_step sha valid lag s (s\<lparr>rn_clock := rn_clock s + d\<rparr>)"

inductive node_reachable ::
  "(bytes \<Rightarrow> bytes) \<Rightarrow> (bytes \<Rightarrow> bool) \<Rightarrow> i64 \<Rightarrow> 'id RunningNode \<Rightarrow> 'id RunningNode \<Rightarrow> bool"
  for sha valid lag s0 where
  start: "node_reachable sha valid lag s0 s0"
| step: "\<lbrakk>node_reachable sha valid lag s0 s; node_step sha valid lag s s'\<rbrakk>
     \<Longrightarrow> node_reachable sha valid lag s0 s'"

inductive_cases node_stepE: "node_step sha valid lag s s'"

text \<open>
  The same steps with what is seen of each: the answer to a connection, the end of a dial attempt,
  and the wall clock being set forward or back. Sweeps, restarts and the passing of time are silent.
\<close>

datatype node_event =
    Answered "string + NodeRequest" "(NodeResponse, AcceptError) outcome"
  | DialSucceeded bytes
  | DialFailed bytes
  | ClockSet i64
  | Silent

inductive node_event_step ::
  "(bytes \<Rightarrow> bytes) \<Rightarrow> (bytes \<Rightarrow> bool) \<Rightarrow> i64 \<Rightarrow> 'id RunningNode \<Rightarrow> node_event \<Rightarrow> 'id RunningNode \<Rightarrow> bool"
  for sha valid lag where
  ev_connection: "node_event_step sha valid lag s
     (Answered parsed (fst (answer sha (rn_clock s) i parsed (rn_handler s)))) (serve_connection sha i parsed s)"
| ev_tick: "node_event_step sha valid lag s Silent (sweep_tick s)"
| ev_delivered: "\<lbrakk>task \<in> set (rn_in_flight s); valid (due_recipient (fst task))\<rbrakk>
     \<Longrightarrow> node_event_step sha valid lag s (DialSucceeded (due_msg_id (fst task))) (attempt_delivered task s)"
| ev_failed: "task \<in> set (rn_in_flight s)
     \<Longrightarrow> node_event_step sha valid lag s (DialFailed (due_msg_id (fst task))) (attempt_failed task s)"
| ev_restarted: "node_event_step sha valid lag s Silent (restart s)"
| ev_wait: "\<lbrakk>0 \<le> d; \<And>x t0. (x, t0) \<in> set (rn_in_flight s) \<Longrightarrow> rn_up s + d \<le> t0 + RETRY_DIAL_TIMEOUT + lag\<rbrakk>
     \<Longrightarrow> node_event_step sha valid lag s Silent (s\<lparr>rn_clock := rn_clock s + d, rn_up := rn_up s + d\<rparr>)"
| ev_clock_set: "node_event_step sha valid lag s (ClockSet d) (s\<lparr>rn_clock := rn_clock s + d\<rparr>)"

lemma node_step_event: "node_step sha valid lag s s' \<longleftrightarrow> (\<exists>ev. node_event_step sha valid lag s ev s')"
proof
  assume "node_step sha valid lag s s'"
  then show "\<exists>ev. node_event_step sha valid lag s ev s'"
    by cases (blast intro: node_event_step.intros)+
next
  assume "\<exists>ev. node_event_step sha valid lag s ev s'"
  then obtain ev where "node_event_step sha valid lag s ev s'" ..
  then show "node_step sha valid lag s s'"
    by cases (blast intro: node_step.intros)+
qed

lemma node_reachable_trace:
  "node_reachable sha valid lag s0 s \<longleftrightarrow> (\<exists>tr. steps (node_event_step sha valid lag) s0 tr s)"
proof
  assume "node_reachable sha valid lag s0 s"
  then show "\<exists>tr. steps (node_event_step sha valid lag) s0 tr s"
  proof induction
    case start
    show ?case by (rule exI, rule no_steps)
  next
    case (step s s')
    then show ?case using node_step_event more_steps by metis
  qed
next
  assume "\<exists>tr. steps (node_event_step sha valid lag) s0 tr s"
  then obtain tr where "steps (node_event_step sha valid lag) s0 tr s" ..
  then show "node_reachable sha valid lag s0 s"
  proof induction
    case no_steps
    show ?case by (rule node_reachable.start)
  next
    case (more_steps tr s ev s')
    then show ?case using node_step_event node_reachable.step by metis
  qed
qed

section \<open>The invariant\<close>

text \<open>
  On every run the database is well-formed and no attempt outlives its timeout.
\<close>

definition in_flight_ids :: "'id RunningNode \<Rightarrow> bytes list" where
  "in_flight_ids s = map (due_msg_id \<circ> fst) (rn_in_flight s)"

definition timely :: "i64 \<Rightarrow> 'id RunningNode \<Rightarrow> bool" where
  "timely lag s \<longleftrightarrow> (\<forall>(d, t0) \<in> set (rn_in_flight s). rn_up s \<le> t0 + RETRY_DIAL_TIMEOUT + lag)"

definition run_inv :: "i64 \<Rightarrow> 'id RunningNode \<Rightarrow> bool" where
  "run_inv lag s \<longleftrightarrow> node_wf (node_state s) \<and> timely lag s"

text \<open>
  The rest needs runs in which the owner does not schedule a message again while it is being dialled,
  and the wall clock is not set forward.
\<close>

fun leaves_dials_alone :: "'id RunningNode \<Rightarrow> node_event \<Rightarrow> bool" where
  "leaves_dials_alone s (Answered p r) =
     (case scheduled_msg (mh_mailbox_key (rn_handler s)) p of
        None \<Rightarrow> True | Some m \<Rightarrow> m \<notin> set (in_flight_ids s))"
| "leaves_dials_alone s (ClockSet d) = (d \<le> 0)"
| "leaves_dials_alone s _ = True"

definition orderly_step ::
  "(bytes \<Rightarrow> bytes) \<Rightarrow> (bytes \<Rightarrow> bool) \<Rightarrow> i64 \<Rightarrow> 'id RunningNode \<Rightarrow> node_event \<Rightarrow> 'id RunningNode \<Rightarrow> bool" where
  "orderly_step sha valid lag s ev s' \<longleftrightarrow> node_event_step sha valid lag s ev s' \<and> leaves_dials_alone s ev"

text \<open>
  In them what is left of the grace period of an attempt is at least what is left of its time, so its
  entry is not due again; attempts have different messages; and the attempts started for a message are
  accounted for by the failures on record, the one running, and restarts.
\<close>

definition flight_ok :: "i64 \<Rightarrow> 'id RunningNode \<Rightarrow> bool" where
  "flight_ok lag s \<longleftrightarrow>
     distinct (in_flight_ids s)
   \<and> (\<forall>(d, t0) \<in> set (rn_in_flight s). rn_up s \<le> t0 + RETRY_DIAL_TIMEOUT + lag
        \<and> (\<forall>t. due_time (node_state s) (due_msg_id d) = Some t
             \<longrightarrow> rn_clock s + (t0 + IN_FLIGHT_GRACE - rn_up s) \<le> t))"

fun dial_budget :: "nat option \<Rightarrow> nat \<Rightarrow> nat" where
  "dial_budget None running = 3"
| "dial_budget (Some failures) running = failures + running"

definition count_ok :: "'id RunningNode \<Rightarrow> bool" where
  "count_ok s \<longleftrightarrow> (\<forall>m. rn_dialed s m \<le>
     dial_budget (attempts_made (node_state s) m) (count_list (in_flight_ids s) m) + rn_restarts s)"

definition dial_inv :: "i64 \<Rightarrow> 'id RunningNode \<Rightarrow> bool" where
  "dial_inv lag s \<longleftrightarrow> node_wf (node_state s) \<and> flight_ok lag s \<and> count_ok s"

lemma node_state_simps [simp]:
  "node_state (set_db db s) = db" "node_state (finish_task t s) = node_state s"
  "node_state (s\<lparr>rn_clock := c\<rparr>) = node_state s" "node_state (s\<lparr>rn_clock := c, rn_up := u\<rparr>) = node_state s"
  "node_state (restart s) = node_state s" "node_state (spawn k db c) = db"
  "node_state (sweep_tick s) = snd (take_due (rn_clock s) (node_state s))"
  by (simp_all add: node_state_def set_db_def finish_task_def restart_def spawn_def
      MailboxHandler_new_def sweep_tick_def Let_def case_prod_beta)

lemma in_flight_simps [simp]:
  "in_flight_ids (set_db db s) = in_flight_ids s" "in_flight_ids (s\<lparr>rn_clock := c\<rparr>) = in_flight_ids s"
  "in_flight_ids (s\<lparr>rn_clock := c, rn_up := u\<rparr>) = in_flight_ids s"
  "in_flight_ids (restart s) = []" "in_flight_ids (serve_connection sha i p s) = in_flight_ids s"
  "in_flight_ids (sweep_tick s) =
     in_flight_ids s @ map due_msg_id (fst (take_due (rn_clock s) (node_state s)))"
  by (simp_all add: in_flight_ids_def set_db_def restart_def spawn_def serve_connection_def
      sweep_tick_def Let_def case_prod_beta)

lemma tasks_simps [simp]:
  "rn_in_flight (set_db db s) = rn_in_flight s" "rn_in_flight (restart s) = []"
  "rn_in_flight (serve_connection sha i p s) = rn_in_flight s"
  "rn_in_flight (finish_task t s) = remove1 t (rn_in_flight s)"
  "rn_in_flight (sweep_tick s) =
     rn_in_flight s @ map (\<lambda>d. (d, rn_up s)) (fst (take_due (rn_clock s) (node_state s)))"
  by (simp_all add: set_db_def restart_def spawn_def serve_connection_def finish_task_def
      sweep_tick_def Let_def case_prod_beta)

lemma clock_simps [simp]:
  "rn_clock (set_db db s) = rn_clock s" "rn_clock (finish_task t s) = rn_clock s"
  "rn_clock (restart s) = rn_clock s" "rn_clock (sweep_tick s) = rn_clock s"
  "rn_clock (serve_connection sha i p s) = rn_clock s"
  "rn_up (set_db db s) = rn_up s" "rn_up (finish_task t s) = rn_up s" "rn_up (restart s) = rn_up s"
  "rn_up (sweep_tick s) = rn_up s" "rn_up (serve_connection sha i p s) = rn_up s"
  by (simp_all add: set_db_def finish_task_def restart_def spawn_def sweep_tick_def
      serve_connection_def Let_def case_prod_beta)

lemma history_simps [simp]:
  "rn_dialed (set_db db s) = rn_dialed s" "rn_dialed (finish_task t s) = rn_dialed s"
  "rn_dialed (restart s) = rn_dialed s" "rn_restarts (restart s) = rn_restarts s + 1"
  "rn_restarts (set_db db s) = rn_restarts s" "rn_restarts (finish_task t s) = rn_restarts s"
  "rn_restarts (sweep_tick s) = rn_restarts s" "rn_restarts (serve_connection sha i p s) = rn_restarts s"
  "rn_dialed (sweep_tick s) m = rn_dialed s m
     + count_list (map due_msg_id (fst (take_due (rn_clock s) (node_state s)))) m"
  by (simp_all add: set_db_def finish_task_def restart_def sweep_tick_def serve_connection_def
      Let_def case_prod_beta)

subsection \<open>What a connection does to the queue\<close>

lemma handle_pending:
  "scheduled_msg key (Inr r) = None \<Longrightarrow> pending (snd (handle sha key now r db)) = pending db"
proof (cases r)
  case (Write a b)
  then show ?thesis
    using write_snd[of sha key now a b db] by (simp add: pending_def fun_eq_iff del: handle.simps)
qed (auto simp: pending_def fun_eq_iff register_slot_def ack_def put_backup_def take_failed_def
    split: if_splits)

lemma serve_pending_same:
  assumes "scheduled_msg (mh_mailbox_key (rn_handler s)) p = None"
  shows "pending (node_state (serve_connection sha i p s)) = pending (node_state s)"
  using answer_db[of sha "rn_clock s" i p "rn_handler s"] assms handle_pending
  by (auto simp: node_state_def serve_connection_def)

lemma scheduled_msgE:
  assumes "scheduled_msg key p = Some m"
  obtains r e where "p = Inr (ScheduleRetry key m r e)"
  using assms by (cases "(key, p)" rule: scheduled_msg.cases) (auto split: if_splits)

lemma serve_pending_scheduled:
  assumes "scheduled_msg (mh_mailbox_key (rn_handler s)) p = Some m"
  obtains r where "rr_attempts r = 0"
    and "pending (node_state (serve_connection sha i p s)) = (pending (node_state s))(m \<mapsto> r)"
proof -
  from assms obtain k e where p: "p = Inr (ScheduleRetry (mh_mailbox_key (rn_handler s)) m k e)"
    by (rule scheduled_msgE)
  then have "node_state (serve_connection sha i p s) = schedule (rn_clock s) m k e (node_state s)"
    by (simp add: node_state_def serve_connection_def answer_def Let_def)
  with pending_schedule[of "rn_clock s" m k e "node_state s"] show ?thesis by (intro that) simp_all
qed

lemma serve_wf:
  assumes "node_wf (node_state s)"
  shows "node_wf (node_state (serve_connection sha i p s))"
  using answer_db[of sha "rn_clock s" i p "rn_handler s"] assms handle_wf
  by (auto simp: node_state_def serve_connection_def)

subsection \<open>Every step keeps the invariant\<close>

lemma due_time_cong: "pending db m = pending db' m \<Longrightarrow> due_time db m = due_time db' m"
  by (simp add: due_time_def)

lemma attempts_made_cong: "pending db m = pending db' m \<Longrightarrow> attempts_made db m = attempts_made db' m"
  by (simp add: attempts_made_def)

lemma in_flight_iff: "m \<in> set (in_flight_ids s) \<longleftrightarrow> (\<exists>d t0. (d, t0) \<in> set (rn_in_flight s) \<and> due_msg_id d = m)"
  by (force simp: in_flight_ids_def)

lemma flight_okI:
  assumes "distinct (in_flight_ids s)"
    and "\<And>d t0. (d, t0) \<in> set (rn_in_flight s) \<Longrightarrow> rn_up s \<le> t0 + RETRY_DIAL_TIMEOUT + lag"
    and "\<And>d t0 t. (d, t0) \<in> set (rn_in_flight s) \<Longrightarrow> due_time (node_state s) (due_msg_id d) = Some t
      \<Longrightarrow> rn_clock s + (t0 + IN_FLIGHT_GRACE - rn_up s) \<le> t"
  shows "flight_ok lag s"
  using assms by (auto simp: flight_ok_def)

lemma flight_okD:
  assumes "flight_ok lag s"
  shows "distinct (in_flight_ids s)"
    and "(d, t0) \<in> set (rn_in_flight s) \<Longrightarrow> rn_up s \<le> t0 + RETRY_DIAL_TIMEOUT + lag"
    and "(d, t0) \<in> set (rn_in_flight s) \<Longrightarrow> due_time (node_state s) (due_msg_id d) = Some t
      \<Longrightarrow> rn_clock s + (t0 + IN_FLIGHT_GRACE - rn_up s) \<le> t"
  using assms by (auto simp: flight_ok_def)

lemma flight_ok_connection:
  assumes ok: "flight_ok lag s"
    and fresh: "\<And>m. scheduled_msg (mh_mailbox_key (rn_handler s)) p = Some m
      \<Longrightarrow> m \<notin> set (in_flight_ids s)"
  shows "flight_ok lag (serve_connection sha i p s)"
proof (rule flight_okI)
  show "distinct (in_flight_ids (serve_connection sha i p s))" using flight_okD(1)[OF ok] by simp
  fix d t0 assume task: "(d, t0) \<in> set (rn_in_flight (serve_connection sha i p s))"
  then show "rn_up (serve_connection sha i p s) \<le> t0 + RETRY_DIAL_TIMEOUT + lag"
    using flight_okD(2)[OF ok] by simp
  have "pending (node_state (serve_connection sha i p s)) (due_msg_id d) = pending (node_state s) (due_msg_id d)"
  proof (cases "scheduled_msg (mh_mailbox_key (rn_handler s)) p")
    case None
    then show ?thesis by (simp add: serve_pending_same)
  next
    case (Some m)
    with fresh task have "due_msg_id d \<noteq> m" by (force simp: in_flight_iff)
    with serve_pending_scheduled[OF Some, of sha i] show ?thesis by (metis fun_upd_other)
  qed
  from due_time_cong[OF this] show "rn_clock (serve_connection sha i p s) + (t0 + IN_FLIGHT_GRACE - rn_up (serve_connection sha i p s)) \<le> t"
    if "due_time (node_state (serve_connection sha i p s)) (due_msg_id d) = Some t" for t
    using that flight_okD(3)[OF ok] task by simp
qed

lemma count_ok_connection:
  assumes "count_ok s"
  shows "count_ok (serve_connection sha i p s)"
proof (cases "scheduled_msg (mh_mailbox_key (rn_handler s)) p")
  case None
  then have "attempts_made (node_state (serve_connection sha i p s)) = attempts_made (node_state s)"
    by (simp add: attempts_made_def fun_eq_iff serve_pending_same)
  moreover from None have "rn_dialed (serve_connection sha i p s) = rn_dialed s"
    by (simp add: serve_connection_def)
  ultimately show ?thesis using assms by (simp add: count_ok_def)
next
  case (Some m)
  then obtain r where r: "rr_attempts r = 0"
    "pending (node_state (serve_connection sha i p s)) = (pending (node_state s))(m \<mapsto> r)"
    by (rule serve_pending_scheduled)
  from Some have "rn_dialed (serve_connection sha i p s) = (rn_dialed s)(m := 0)"
    by (simp add: serve_connection_def)
  with assms r show ?thesis by (auto simp: count_ok_def attempts_made_def)
qed

lemma not_due_in_flight:
  assumes "flight_ok lag s" and "lag < 2000" and "m \<in> set (in_flight_ids s)"
  shows "\<not> (\<exists>t. due_time (node_state s) m = Some t \<and> t \<le> rn_clock s)"
proof
  assume "\<exists>t. due_time (node_state s) m = Some t \<and> t \<le> rn_clock s"
  then obtain t where t: "due_time (node_state s) m = Some t" "t \<le> rn_clock s" by blast
  from assms(3) obtain d t0 where d: "(d, t0) \<in> set (rn_in_flight s)" "due_msg_id d = m"
    by (auto simp: in_flight_iff)
  from flight_okD(2)[OF assms(1) d(1)] flight_okD(3)[OF assms(1) d(1)] d(2) t assms(2)
  show False by (simp add: RETRY_DIAL_TIMEOUT_def IN_FLIGHT_GRACE_def)
qed

lemma flight_ok_tick:
  assumes ok: "flight_ok lag s" and wf: "retry_wf (node_state s)" and lag: "0 \<le> lag" "lag < 2000"
  shows "flight_ok lag (sweep_tick s)"
proof (rule flight_okI)
  let ?due = "fst (take_due (rn_clock s) (node_state s))"
  have "set (in_flight_ids s) \<inter> set (map due_msg_id ?due) = {}"
    using not_due_in_flight[OF ok lag(2)] take_due_iff[OF wf, of _ "rn_clock s"] by blast
  then show "distinct (in_flight_ids (sweep_tick s))"
    using flight_okD(1)[OF ok] take_due_distinct[OF wf] by simp
  fix d t0 assume task: "(d, t0) \<in> set (rn_in_flight (sweep_tick s))"
  then consider (old) "(d, t0) \<in> set (rn_in_flight s)" | (new) "d \<in> set ?due" "t0 = rn_up s" by auto
  note cases = this
  show "rn_up (sweep_tick s) \<le> t0 + RETRY_DIAL_TIMEOUT + lag"
    using cases flight_okD(2)[OF ok] lag(1) by cases (auto simp: RETRY_DIAL_TIMEOUT_def)
  fix t assume t: "due_time (node_state (sweep_tick s)) (due_msg_id d) = Some t"
  show "rn_clock (sweep_tick s) + (t0 + IN_FLIGHT_GRACE - rn_up (sweep_tick s)) \<le> t"
    using cases
  proof cases
    case old
    then have "due_msg_id d \<in> set (in_flight_ids s)" by (auto simp: in_flight_iff)
    from not_due_in_flight[OF ok lag(2) this] t take_due_due_time[OF wf, of "rn_clock s" "due_msg_id d"]
    have "due_time (node_state s) (due_msg_id d) = Some t" by (auto split: if_splits)
    with flight_okD(3)[OF ok old] show ?thesis by simp
  next
    case new
    then obtain u where "due_time (node_state s) (due_msg_id d) = Some u" "u \<le> rn_clock s"
      using take_due_iff[OF wf, of "due_msg_id d" "rn_clock s"] by auto
    with t take_due_due_time[OF wf, of "rn_clock s" "due_msg_id d"] new(2) show ?thesis by simp
  qed
qed

lemma count_ok_tick:
  assumes ok: "count_ok s" and wf: "retry_wf (node_state s)"
  shows "count_ok (sweep_tick s)"
  unfolding count_ok_def
proof
  fix m
  have att: "attempts_made (node_state (sweep_tick s)) m = attempts_made (node_state s) m"
    by (simp add: take_due_attempts[OF wf])
  have absent: "count_list (map due_msg_id (fst (take_due (rn_clock s) (node_state s)))) m = 0"
    if "attempts_made (node_state s) m = None"
  proof -
    from that have "due_time (node_state s) m = None" by (simp add: attempts_made_def due_time_def)
    then have "m \<notin> set (map due_msg_id (fst (take_due (rn_clock s) (node_state s))))"
      using take_due_iff[OF wf, of m "rn_clock s"] by auto
    then show ?thesis by (simp add: count_list_0_iff)
  qed
  from ok have "rn_dialed s m \<le>
      dial_budget (attempts_made (node_state s) m) (count_list (in_flight_ids s) m) + rn_restarts s"
    by (simp add: count_ok_def)
  with att absent show "rn_dialed (sweep_tick s) m \<le>
      dial_budget (attempts_made (node_state (sweep_tick s)) m)
        (count_list (in_flight_ids (sweep_tick s)) m) + rn_restarts (sweep_tick s)"
    by (cases "attempts_made (node_state s) m") auto
qed

lemma count_list_distinct: "distinct xs \<Longrightarrow> count_list xs x \<le> 1"
  by (induction xs) (auto simp: count_list_0_iff)

text \<open>The end of an attempt takes its message out of flight and leaves the others alone.\<close>

lemma remove_task:
  assumes "distinct (in_flight_ids s)" and "task \<in> set (rn_in_flight s)"
  shows "in_flight_ids (finish_task task s) = remove1 (due_msg_id (fst task)) (in_flight_ids s)"
proof -
  have "map (due_msg_id \<circ> fst) (remove1 task xs) = remove1 (due_msg_id (fst task)) (map (due_msg_id \<circ> fst) xs)"
    if "distinct (map (due_msg_id \<circ> fst) xs)" "task \<in> set xs" for xs
    using that by (induction xs) (auto simp: rev_image_eqI)
  with assms show ?thesis by (simp add: in_flight_ids_def)
qed

lemma distinct_task:
  assumes "distinct (in_flight_ids s)" and "task \<in> set (rn_in_flight s)"
    and "(d, t0) \<in> set (remove1 task (rn_in_flight s))"
  shows "due_msg_id d \<noteq> due_msg_id (fst task) \<and> (d, t0) \<in> set (rn_in_flight s)"
proof -
  have "due_msg_id d \<in> set (in_flight_ids (finish_task task s))"
    using assms(3) by (force simp: in_flight_iff)
  then have "due_msg_id d \<noteq> due_msg_id (fst task)"
    using remove_task[OF assms(1,2)] assms(1) by auto
  moreover have "(d, t0) \<in> set (rn_in_flight s)" using assms(3) by (meson notin_set_remove1)
  ultimately show ?thesis by simp
qed

lemma flight_ok_finish:
  assumes ok: "flight_ok lag s" and task: "task \<in> set (rn_in_flight s)"
    and others: "\<And>m. m \<noteq> due_msg_id (fst task) \<Longrightarrow> pending db m = pending (node_state s) m"
  shows "flight_ok lag (finish_task task (set_db db s))"
proof (rule flight_okI)
  have d: "distinct (in_flight_ids s)" by (rule flight_okD(1)[OF ok])
  show "distinct (in_flight_ids (finish_task task (set_db db s)))"
    using d remove_task[of "set_db db s" task] task by (simp add: distinct_remove1)
  fix e t0 assume e: "(e, t0) \<in> set (rn_in_flight (finish_task task (set_db db s)))"
  then have keep: "due_msg_id e \<noteq> due_msg_id (fst task)" "(e, t0) \<in> set (rn_in_flight s)"
    using distinct_task[OF d task] by auto
  then show "rn_up (finish_task task (set_db db s)) \<le> t0 + RETRY_DIAL_TIMEOUT + lag"
    using flight_okD(2)[OF ok] by simp
  show "rn_clock (finish_task task (set_db db s)) + (t0 + IN_FLIGHT_GRACE - rn_up (finish_task task (set_db db s))) \<le> t"
    if "due_time (node_state (finish_task task (set_db db s))) (due_msg_id e) = Some t" for t
    using that keep flight_okD(3)[OF ok keep(2)] due_time_cong[OF others[OF keep(1)]] by simp
qed

text \<open>
  For the counts: the attempt's message either stays queued with one more failure on record or
  leaves the queue.
\<close>

lemma count_ok_finish:
  assumes ok: "count_ok s" and task: "task \<in> set (rn_in_flight s)" and wf: "retry_wf (node_state s)"
    and dist: "distinct (in_flight_ids s)"
    and others: "\<And>m. m \<noteq> due_msg_id (fst task) \<Longrightarrow> pending db m = pending (node_state s) m"
    and this_one: "attempts_made db (due_msg_id (fst task)) = None
      \<or> attempts_made db (due_msg_id (fst task))
          = map_option Suc (attempts_made (node_state s) (due_msg_id (fst task)))"
  shows "count_ok (finish_task task (set_db db s))"
  unfolding count_ok_def
proof
  fix m
  let ?s' = "finish_task task (set_db db s)" and ?m0 = "due_msg_id (fst task)"
  have ids: "in_flight_ids ?s' = remove1 ?m0 (in_flight_ids s)"
    using remove_task[of "set_db db s" task] dist task by simp
  have old: "rn_dialed s m \<le>
      dial_budget (attempts_made (node_state s) m) (count_list (in_flight_ids s) m) + rn_restarts s"
    using ok by (simp add: count_ok_def)
  note one = count_list_distinct[OF dist, of m]
  have bound: "k < 3" if "attempts_made (node_state s) m = Some k" for k
    using that pending_bounds[OF wf, of m] by (auto simp: attempts_made_def)
  show "rn_dialed ?s' m \<le>
      dial_budget (attempts_made (node_state ?s') m) (count_list (in_flight_ids ?s') m) + rn_restarts ?s'"
  proof (cases "m = ?m0")
    case False
    then have "count_list (remove1 ?m0 (in_flight_ids s)) m = count_list (in_flight_ids s) m"
      by (induction "in_flight_ids s") auto
    with False old ids attempts_made_cong[OF others[OF False]] show ?thesis by simp
  next
    case True
    show ?thesis
    proof (cases "attempts_made (node_state s) m")
      case None
      with this_one True have "attempts_made db m = None" by auto
      with None old show ?thesis by simp
    next
      case (Some k)
      with bound[OF Some] this_one True old one show ?thesis by auto
    qed
  qed
qed

lemma dial_inv_delivered:
  assumes "dial_inv lag s" and "task \<in> set (rn_in_flight s)"
  shows "dial_inv lag (attempt_delivered task s)"
proof -
  let ?db = "mark_delivered (due_msg_id (fst task)) (node_state s)"
  from assms(1) have wf: "node_wf (node_state s)" and fo: "flight_ok lag s" and co: "count_ok s"
    by (auto simp: dial_inv_def)
  have others: "m \<noteq> due_msg_id (fst task) \<Longrightarrow> pending ?db m = pending (node_state s) m" for m
    by (simp add: pending_mark_delivered)
  have "attempts_made ?db (due_msg_id (fst task)) = None"
    by (simp add: attempts_made_def pending_mark_delivered)
  moreover have "node_wf ?db"
    using wf by (auto simp: node_wf_def) (simp add: mark_delivered_def mailbox_wf_cong)
  ultimately show ?thesis
    using flight_ok_finish[OF fo assms(2) others] wf
      count_ok_finish[OF co assms(2) _ flight_okD(1)[OF fo] others]
    by (auto simp: dial_inv_def attempt_delivered_def node_wf_def)
qed

lemma mark_failed_mailbox_wf: "mailbox_wf (snd (mark_failed t m db)) = mailbox_wf db"
  by (auto simp: mark_failed_def Let_def mailbox_wf_cong split: option.splits)

lemma dial_inv_failed:
  assumes "dial_inv lag s" and "task \<in> set (rn_in_flight s)"
  shows "dial_inv lag (attempt_failed task s)"
proof -
  let ?m = "due_msg_id (fst task)"
  let ?db = "snd (mark_failed (rn_clock s) ?m (node_state s))"
  from assms(1) have wf: "node_wf (node_state s)" and rwf: "retry_wf (node_state s)"
    and fo: "flight_ok lag s" and co: "count_ok s"
    by (auto simp: dial_inv_def node_wf_def)
  have others: "m \<noteq> ?m \<Longrightarrow> pending ?db m = pending (node_state s) m" for m
    by (simp add: pending_mark_failed[OF rwf])
  have "attempts_made ?db ?m = None
      \<or> attempts_made ?db ?m = map_option Suc (attempts_made (node_state s) ?m)"
    using pending_bounds[OF rwf, of ?m]
    by (auto simp: attempts_made_def pending_mark_failed[OF rwf] nat_add_distrib split: option.splits)
  moreover have "node_wf ?db"
    using wf by (auto simp: node_wf_def mark_failed_mailbox_wf)
  ultimately show ?thesis
    using flight_ok_finish[OF fo assms(2) others]
      count_ok_finish[OF co assms(2) rwf flight_okD(1)[OF fo] others]
    by (auto simp: dial_inv_def attempt_failed_def)
qed

lemma dial_inv_restart:
  assumes "dial_inv lag s"
  shows "dial_inv lag (restart s)"
proof -
  have one: "count_list (in_flight_ids s) m \<le> 1" for m
    using assms count_list_distinct[of "in_flight_ids s" m] by (simp add: dial_inv_def flight_ok_def)
  have "count_ok (restart s)"
    unfolding count_ok_def
  proof
    fix m
    from assms have "rn_dialed s m \<le>
        dial_budget (attempts_made (node_state s) m) (count_list (in_flight_ids s) m) + rn_restarts s"
      by (simp add: dial_inv_def count_ok_def)
    with one[of m] show "rn_dialed (restart s) m \<le>
        dial_budget (attempts_made (node_state (restart s)) m)
          (count_list (in_flight_ids (restart s)) m) + rn_restarts (restart s)"
      by (cases "attempts_made (node_state s) m") auto
  qed
  with assms show ?thesis by (simp add: dial_inv_def flight_ok_def)
qed

lemma dial_inv_tick:
  assumes "dial_inv lag s" and "0 \<le> lag" and "lag < 2000"
  shows "dial_inv lag (sweep_tick s)"
proof -
  from assms(1) have "node_wf (snd (take_due (rn_clock s) (node_state s)))"
    by (auto simp: dial_inv_def node_wf_def) (simp add: take_due_def Let_def mailbox_wf_cong)
  with assms show ?thesis
    using flight_ok_tick[of lag s] count_ok_tick[of s] by (simp add: dial_inv_def node_wf_def)
qed

lemma dial_inv_time:
  assumes "dial_inv lag s" and "\<And>d t0. (d, t0) \<in> set (rn_in_flight s) \<Longrightarrow> rn_up s + b \<le> t0 + RETRY_DIAL_TIMEOUT + lag"
    and "a \<le> b"
  shows "dial_inv lag (s\<lparr>rn_clock := rn_clock s + a, rn_up := rn_up s + b\<rparr>)"
  using assms by (force simp: dial_inv_def flight_ok_def count_ok_def)

lemma dial_inv_step:
  assumes "orderly_step sha valid lag s ev s'" and "dial_inv lag s" and "0 \<le> lag" and "lag < 2000"
  shows "dial_inv lag s'"
proof -
  from assms(1) have "node_event_step sha valid lag s ev s'" and alone: "leaves_dials_alone s ev"
    by (simp_all add: orderly_step_def)
  from this(1) show ?thesis
  proof cases
    case (ev_connection p i)
    with alone have "m \<notin> set (in_flight_ids s)" if "scheduled_msg (mh_mailbox_key (rn_handler s)) p = Some m" for m
      using that by simp
    with assms(2) ev_connection show ?thesis
      using flight_ok_connection[of lag s p sha i] count_ok_connection serve_wf by (auto simp: dial_inv_def)
  next
    case (ev_wait d)
    with assms(2) show ?thesis by (auto intro!: dial_inv_time)
  next
    case (ev_clock_set d)
    have "rn_up s + 0 \<le> t0 + RETRY_DIAL_TIMEOUT + lag" if "(x, t0) \<in> set (rn_in_flight s)" for x t0
      using assms(2) flight_okD(2) that by (auto simp: dial_inv_def)
    with assms(2) alone ev_clock_set dial_inv_time[of lag s 0 d] show ?thesis by simp
  qed (use assms(2-4) in \<open>auto simp: dial_inv_tick dial_inv_delivered dial_inv_failed dial_inv_restart\<close>)
qed

lemma dial_inv_spawn: "node_wf db \<Longrightarrow> dial_inv lag (spawn key db now)"
  by (simp add: dial_inv_def flight_ok_def count_ok_def in_flight_ids_def spawn_def node_state_def
      MailboxHandler_new_def)

lemma dial_inv_steps:
  assumes "steps (orderly_step sha valid lag) s0 tr s" and "dial_inv lag s0" and "0 \<le> lag" and "lag < 2000"
  shows "dial_inv lag s"
  using assms(1)
proof induction
  case no_steps
  show ?case by (rule assms(2))
next
  case (more_steps tr s ev s')
  then show ?case using dial_inv_step assms(3,4) by blast
qed

subsection \<open>Every run keeps the general invariant\<close>

lemma timely_finish: "timely lag s \<Longrightarrow> timely lag (finish_task task (set_db db s))"
  by (auto simp: timely_def dest: notin_set_remove1)

lemma node_wf_step:
  assumes "node_step sha valid lag s s'" and "node_wf (node_state s)"
  shows "node_wf (node_state s')"
  using assms(1)
proof cases
  case (connection p i)
  with assms(2) serve_wf show ?thesis by auto
next
  case tick
  from assms(2) have "node_wf (snd (take_due (rn_clock s) (node_state s)))"
    by (auto simp: node_wf_def) (simp add: take_due_def Let_def mailbox_wf_cong)
  with tick show ?thesis by simp
next
  case (delivered task)
  have "node_wf (mark_delivered (due_msg_id (fst task)) (node_state s))"
    using assms(2) by (auto simp: node_wf_def) (simp add: mark_delivered_def mailbox_wf_cong)
  with delivered show ?thesis by (simp add: attempt_delivered_def)
next
  case (failed task)
  have "node_wf (snd (mark_failed (rn_clock s) (due_msg_id (fst task)) (node_state s)))"
    using assms(2) by (auto simp: node_wf_def mark_failed_mailbox_wf)
  with failed show ?thesis by (simp add: attempt_failed_def)
qed (use assms(2) in simp_all)

lemma timely_step:
  assumes "node_step sha valid lag s s'" and "timely lag s" and "0 \<le> lag"
  shows "timely lag s'"
  using assms(1)
proof cases
  case (delivered task)
  with assms(2) show ?thesis by (simp add: attempt_delivered_def timely_finish)
next
  case (failed task)
  with assms(2) show ?thesis by (simp add: attempt_failed_def timely_finish)
qed (use assms(2,3) in \<open>auto simp: timely_def RETRY_DIAL_TIMEOUT_def\<close>)

lemma run_inv_step: "node_step sha valid lag s s' \<Longrightarrow> run_inv lag s \<Longrightarrow> 0 \<le> lag \<Longrightarrow> run_inv lag s'"
  unfolding run_inv_def using node_wf_step timely_step by blast

lemma run_inv_spawn: "node_wf db \<Longrightarrow> run_inv lag (spawn key db now)"
  by (simp add: run_inv_def timely_def spawn_def node_state_def MailboxHandler_new_def)

section \<open>Configuration\<close>

text \<open>
  The environment variables of \<^verbatim>\<open>main.rs\<close>: \<open>None\<close> is a variable that is not set (or is
  not Unicode). \<open>hex_decode\<close> is the \<^verbatim>\<open>hex\<close> crate; of the message for a missing transport key only the
  beginning is kept.
\<close>

definition mailbox_key_from_env ::
  "(string \<Rightarrow> string + bytes) \<Rightarrow> string option \<Rightarrow> (bytes, string) outcome" where
  "mailbox_key_from_env hex_decode var =
     (case var of
        Some hex_key \<Rightarrow>
          (case hex_decode (trim hex_key) of
             Inl e \<Rightarrow> Err e
           | Inr bs \<Rightarrow> ok_or ''PM_NODE_MAILBOX_KEY must decode to exactly 32 bytes'' (to_array 32 bs))
      | None \<Rightarrow> Ok (replicate 32 0))"

definition transport_key_from_env ::
  "(string \<Rightarrow> string + bytes) \<Rightarrow> string option \<Rightarrow> (bytes, string) outcome" where
  "transport_key_from_env hex_decode var =
     (case var of
        None \<Rightarrow> Err ''PM_NODE_TRANSPORT_KEY must be set''
      | Some hex_key \<Rightarrow>
          (case hex_decode (trim hex_key) of
             Inl e \<Rightarrow> Err e
           | Inr bs \<Rightarrow> ok_or ''PM_NODE_TRANSPORT_KEY must decode to exactly 32 bytes'' (to_array 32 bs)))"

section \<open>Properties\<close>

text \<open>
  C22: one delivery is not dialled twice at the same time, if the owner does not schedule a message
  again while it is being dialled and the wall clock is not set forward. In every state that such a
  run leads to, whatever connections, sweep ticks, attempt results, restarts, delays and settings of
  the clock back it has, the attempts in flight are for different messages and the database is
  well-formed. This needs that an attempt ends less than two seconds after its ten-second timeout,
  which is the margin the twelve-second grace period leaves.
\<close>

theorem no_concurrent_dials:
  assumes "steps (orderly_step sha valid lag) (spawn key db now) tr s"
    and "node_wf db" and "0 \<le> lag" and "lag < IN_FLIGHT_GRACE - RETRY_DIAL_TIMEOUT"
  shows "distinct (in_flight_ids s) \<and> node_wf (node_state s)"
proof -
  have "lag < 2000" using assms(4) by (simp add: IN_FLIGHT_GRACE_def RETRY_DIAL_TIMEOUT_def)
  with dial_inv_steps[OF assms(1) dial_inv_spawn[OF assms(2)] assms(3)] have "dial_inv lag s" by simp
  then show ?thesis by (simp add: dial_inv_def flight_ok_def)
qed

definition sample_run :: "string RunningNode" where
  "sample_run = sweep_tick (serve_connection (\<lambda>a. a) ''owner'' (Inr (ScheduleRetry [9] [1] [2] [3]))
     (spawn [9] empty_node_db 100))"

lemmas sample_run_eval = sample_run_def sweep_tick_def serve_connection_def spawn_def node_state_def
  answer_def MailboxHandler_new_def RateLimiter_new_def take_due_def schedule_def upsert_def Let_def
  empty_node_db_def in_flight_ids_def row_to_due_def

lemma sample_run_steps:
  "\<exists>tr. steps (orderly_step (\<lambda>a. a) (\<lambda>_. True) 0) (spawn [9] empty_node_db 100) tr sample_run"
proof -
  let ?s0 = "spawn [9] empty_node_db 100 :: string RunningNode" and ?p = "Inr (ScheduleRetry [9] [1] [2] [3])"
  let ?s1 = "serve_connection (\<lambda>a. a) ''owner'' ?p ?s0" and ?step = "orderly_step (\<lambda>a. a) (\<lambda>_. True) 0"
  have "?step ?s0 (Answered ?p (fst (answer (\<lambda>a. a) (rn_clock ?s0) ''owner'' ?p (rn_handler ?s0)))) ?s1"
    by (simp add: orderly_step_def node_event_step.ev_connection in_flight_ids_def)
      (simp add: spawn_def MailboxHandler_new_def)
  moreover have "?step ?s1 Silent (sweep_tick ?s1)" by (simp add: orderly_step_def node_event_step.ev_tick)
  ultimately show ?thesis unfolding sample_run_def
    by (intro exI) (rule more_steps[where step = ?step, OF more_steps[where step = ?step, OF no_steps]])
qed

theorem no_concurrent_dials_witness:
  "distinct (in_flight_ids sample_run) \<and> in_flight_ids sample_run = [[1]]"
proof -
  obtain tr where tr: "steps (orderly_step (\<lambda>a. a) (\<lambda>_. True) 0) (spawn [9] empty_node_db 100) tr sample_run"
    by (rule exE[OF sample_run_steps]) (rule that)
  from no_concurrent_dials[OF tr node_wf_empty] show ?thesis
    by (simp add: IN_FLIGHT_GRACE_def RETRY_DIAL_TIMEOUT_def) (simp add: sample_run_eval)
qed

lemma dialled_when_due:
  assumes "node_wf (node_state s)" and "due_time (node_state s) m = Some t" and "t \<le> rn_clock s"
  shows "count_list (in_flight_ids (sweep_tick s)) m = Suc (count_list (in_flight_ids s) m)"
proof -
  have wf: "retry_wf (node_state s)" using assms(1) by (simp add: node_wf_def)
  let ?ids = "map due_msg_id (fst (take_due (rn_clock s) (node_state s)))"
  have "m \<in> set ?ids" using take_due_iff[OF wf] assms(2,3) by blast
  moreover have "distinct ?ids" by (rule take_due_distinct[OF wf])
  ultimately have "count_list ?ids m = 1"
    using count_list_distinct[of ?ids m] count_list_0_iff[of ?ids m] by linarith
  then show ?thesis by simp
qed

text \<open>
  C8: both conditions are needed. When the owner schedules a message again that is being dialled, or
  the wall clock is set forward past the grace period of a message that is being dialled and still
  queued, both of which the node lets happen, the next sweep dials the message once more, beside the
  attempt that is running.
\<close>

theorem disturbed_dials_overlap:
  assumes "node_wf (node_state s)" and "m \<in> set (in_flight_ids s)"
  shows "let s1 = serve_connection sha i (Inr (ScheduleRetry (mh_mailbox_key (rn_handler s)) m rcpt envelope)) s in
      node_step sha valid lag s s1
    \<and> count_list (in_flight_ids (sweep_tick s1)) m = Suc (count_list (in_flight_ids s) m)
    \<and> (\<forall>t. due_time (node_state s) m = Some t \<longrightarrow>
         (let s2 = s\<lparr>rn_clock := t\<rparr> in node_step sha valid lag s s2
          \<and> count_list (in_flight_ids (sweep_tick s2)) m = Suc (count_list (in_flight_ids s) m)))
    \<and> 1 \<le> count_list (in_flight_ids s) m"
proof -
  let ?p = "Inr (ScheduleRetry (mh_mailbox_key (rn_handler s)) m rcpt envelope)"
  let ?s1 = "serve_connection sha i ?p s"
  have "node_state ?s1 = schedule (rn_clock s) m rcpt envelope (node_state s)"
    by (simp add: node_state_def serve_connection_def answer_def Let_def)
  then have due: "due_time (node_state ?s1) m = Some (rn_clock ?s1)" by (simp add: due_time_def pending_schedule)
  have "node_step sha valid lag s ?s1" by (rule node_step.connection)
  moreover from dialled_when_due[OF serve_wf[OF assms(1)] due order_refl]
  have "count_list (in_flight_ids (sweep_tick ?s1)) m = Suc (count_list (in_flight_ids s) m)" by simp
  moreover have "node_step sha valid lag s (s\<lparr>rn_clock := t\<rparr>)" for t
    using node_step.clock_set[of sha valid lag s "t - rn_clock s"] by simp
  moreover have "count_list (in_flight_ids (sweep_tick (s\<lparr>rn_clock := t\<rparr>))) m
      = Suc (count_list (in_flight_ids s) m)" if "due_time (node_state s) m = Some t" for t
    using dialled_when_due[of "s\<lparr>rn_clock := t\<rparr>" m t] assms(1) that by simp
  moreover have "1 \<le> count_list (in_flight_ids s) m"
    using assms(2) by (metis One_nat_def Suc_leI count_list_0_iff gr0I)
  ultimately show ?thesis by (simp add: Let_def)
qed

theorem disturbed_dials_overlap_witness:
  "in_flight_ids (sweep_tick (serve_connection (\<lambda>a. a) ''owner'' (Inr (ScheduleRetry [9] [1] [2] [3])) sample_run))
     = [[1], [1]]
   \<and> count_list (in_flight_ids (sweep_tick (serve_connection (\<lambda>a. a) ''owner''
       (Inr (ScheduleRetry [9] [1] [2] [3])) sample_run))) [1] = 2"
proof -
  have key: "mh_mailbox_key (rn_handler sample_run) = [9]" and ids: "in_flight_ids sample_run = [[1]]"
    by (simp_all add: sample_run_eval)
  obtain tr where tr: "steps (orderly_step (\<lambda>a. a) (\<lambda>_. True) 0) (spawn [9] empty_node_db 100) tr sample_run"
    by (rule exE[OF sample_run_steps]) (rule that)
  have "dial_inv 0 sample_run"
    by (rule dial_inv_steps[OF tr dial_inv_spawn[OF node_wf_empty]]) simp_all
  then have wf: "node_wf (node_state sample_run)" by (simp add: dial_inv_def)
  have "[1] \<in> set (in_flight_ids sample_run)" by (simp add: ids)
  from disturbed_dials_overlap[OF wf this, where sha = "\<lambda>a. a" and i = "''owner''" and rcpt = "[2]" and envelope = "[3]"
      and valid = "\<lambda>_. True" and lag = 0]
  have two: "count_list (in_flight_ids (sweep_tick (serve_connection (\<lambda>a. a) ''owner''
       (Inr (ScheduleRetry [9] [1] [2] [3])) sample_run))) [1] = 2"
    by (simp add: Let_def key ids)
  moreover have "in_flight_ids (sweep_tick (serve_connection (\<lambda>a. a) ''owner'' (Inr (ScheduleRetry [9] [1] [2] [3])) sample_run))
      = [[1], [1]]" by (simp add: sample_run_eval push_out_def)
  ultimately show ?thesis by simp
qed

text \<open>
  A delivery is dialled a bounded number of times. On the same runs, since it was last scheduled, at
  most three attempts have been started for a message, plus one for each restart of the node (an
  attempt that a restart cuts off leaves no failure on record).
\<close>

lemma dials_bounded:
  assumes "steps (orderly_step sha valid lag) (spawn key db now) tr s"
    and "node_wf db" and "0 \<le> lag" and "lag < IN_FLIGHT_GRACE - RETRY_DIAL_TIMEOUT"
  shows "rn_dialed s m \<le> MAX_RETRY_ATTEMPTS + rn_restarts s"
proof -
  have "lag < 2000" using assms(4) by (simp add: IN_FLIGHT_GRACE_def RETRY_DIAL_TIMEOUT_def)
  with dial_inv_steps[OF assms(1) dial_inv_spawn[OF assms(2)] assms(3)] have inv: "dial_inv lag s" by simp
  then have "count_list (in_flight_ids s) m \<le> 1"
    using count_list_distinct[of "in_flight_ids s" m] by (simp add: dial_inv_def flight_ok_def)
  moreover have "k < 3" if "attempts_made (node_state s) m = Some k" for k
    using that inv pending_bounds[of "node_state s" m]
    by (auto simp: dial_inv_def node_wf_def attempts_made_def)
  ultimately have "dial_budget (attempts_made (node_state s) m) (count_list (in_flight_ids s) m) \<le> 3"
    by (cases "attempts_made (node_state s) m") fastforce+
  moreover from inv have "rn_dialed s m \<le>
      dial_budget (attempts_made (node_state s) m) (count_list (in_flight_ids s) m) + rn_restarts s"
    by (simp add: dial_inv_def count_ok_def)
  ultimately show ?thesis by (simp add: MAX_RETRY_ATTEMPTS_def)
qed

end
