(* ===== verification/Node_Live.thy ===== *)
theory Node_Live
  imports Node_Run
begin

text \<open>
  Progress of the retry queue: on a node that keeps running, every scheduled delivery comes to an
  end. The executions are infinite sequences of the steps of \<^verbatim>\<open>Node_Run\<close>; the proof is by the
  number of failures on record, which every finished attempt either raises or makes the last.
\<close>

section \<open>Executions\<close>

text \<open>
  An execution of a node that keeps running: time goes on without bound, the wall clock, however it
  is set, passes every time for good in the end, and the sweep keeps ticking. An attempt need not be
  said to end: it cannot outlive its timeout.
\<close>

definition execution ::
  "(bytes \<Rightarrow> bytes) \<Rightarrow> (bytes \<Rightarrow> bool) \<Rightarrow> i64 \<Rightarrow> (nat \<Rightarrow> 'id RunningNode) \<Rightarrow> bool" where
  "execution sha valid lag r \<longleftrightarrow> (\<forall>i. node_step sha valid lag (r i) (r (Suc i)))
     \<and> (\<forall>t. \<exists>i. t \<le> rn_up (r i)) \<and> (\<forall>t. \<exists>i. \<forall>j \<ge> i. t \<le> rn_clock (r j))
     \<and> (\<forall>i. \<exists>j \<ge> i. r (Suc j) = sweep_tick (r j))"

text \<open>From step \<open>i\<close> on the node is not restarted and the owner does not schedule \<open>m\<close> again.\<close>

definition left_alone ::
  "(bytes \<Rightarrow> bytes) \<Rightarrow> bytes \<Rightarrow> nat \<Rightarrow> (nat \<Rightarrow> 'id RunningNode) \<Rightarrow> bool" where
  "left_alone sha m i r \<longleftrightarrow> (\<forall>j \<ge> i. rn_restarts (r (Suc j)) = rn_restarts (r j)
     \<and> (\<forall>x p. r (Suc j) = serve_connection sha x p (r j)
          \<longrightarrow> scheduled_msg (mh_mailbox_key (rn_handler (r j))) p \<noteq> Some m))"

text \<open>How a delivery ends: its dial succeeded, or it is on the list of failures for the owner.\<close>

definition resolved_at :: "bytes \<Rightarrow> (nat \<Rightarrow> 'id RunningNode) \<Rightarrow> nat \<Rightarrow> bool" where
  "resolved_at m r j \<longleftrightarrow>
     (\<exists>task \<in> set (rn_in_flight (r j)). due_msg_id (fst task) = m \<and> r (Suc j) = attempt_delivered task (r j))
   \<or> m \<in> set (failed_deliveries (node_state (r (Suc j))))"

lemma execution_up_mono:
  assumes "execution sha valid lag r" and "i \<le> j"
  shows "rn_up (r i) \<le> rn_up (r j)"
  using assms(2)
proof (induction rule: dec_induct)
  case (step n)
  from assms(1) have "node_step sha valid lag (r n) (r (Suc n))" by (simp add: execution_def)
  then have "rn_up (r n) \<le> rn_up (r (Suc n))"
    by cases (simp_all add: attempt_delivered_def attempt_failed_def)
  with step.IH show ?case by simp
qed simp

lemma execution_inv:
  assumes "execution sha valid lag r" and "run_inv lag (r 0)" and "0 \<le> lag"
  shows "run_inv lag (r i)"
proof (induction i)
  case (Suc i)
  with assms show ?case using run_inv_step by (metis execution_def)
qed (rule assms(2))

section \<open>One step, seen from one delivery\<close>

definition tasks_of :: "bytes \<Rightarrow> 'id RunningNode \<Rightarrow> (DueDelivery \<times> i64) set" where
  "tasks_of m s = {task \<in> set (rn_in_flight s). due_msg_id (fst task) = m}"

text \<open>The attempt for \<open>m\<close> ends in the step from \<open>s\<close> to \<open>s'\<close>.\<close>

definition ends :: "bytes \<Rightarrow> 'id RunningNode \<Rightarrow> 'id RunningNode \<Rightarrow> bool" where
  "ends m s s' \<longleftrightarrow> (\<exists>task \<in> tasks_of m s. s' = attempt_delivered task s \<or> s' = attempt_failed task s)"

text \<open>A step that is no attempt's end for \<open>m\<close>, no restart and no new schedule of \<open>m\<close>.\<close>

definition quiet :: "(bytes \<Rightarrow> bytes) \<Rightarrow> bytes \<Rightarrow> 'id RunningNode \<Rightarrow> 'id RunningNode \<Rightarrow> bool" where
  "quiet sha m s s' \<longleftrightarrow> rn_restarts s' = rn_restarts s \<and> \<not> ends m s s'
     \<and> (\<forall>x p. s' = serve_connection sha x p s
          \<longrightarrow> scheduled_msg (mh_mailbox_key (rn_handler s)) p \<noteq> Some m)"

lemma tasks_of_finish:
  "due_msg_id (fst task) \<noteq> m \<Longrightarrow> tasks_of m (finish_task task (set_db db s)) = tasks_of m s"
  by (auto simp: tasks_of_def dest: notin_set_remove1 intro: in_set_remove1[THEN iffD2])

lemma other_attempt:
  assumes "retry_wf (node_state s)" and "due_msg_id (fst task) \<noteq> m"
  shows "tasks_of m (attempt_delivered task s) = tasks_of m s"
    and "tasks_of m (attempt_failed task s) = tasks_of m s"
    and "pending (node_state (attempt_delivered task s)) m = pending (node_state s) m"
    and "pending (node_state (attempt_failed task s)) m = pending (node_state s) m"
  using assms by (auto simp: attempt_delivered_def attempt_failed_def tasks_of_finish
      pending_mark_delivered pending_mark_failed)

lemma quiet_connection:
  assumes "quiet sha m s (serve_connection sha x p s)"
  shows "pending (node_state (serve_connection sha x p s)) m = pending (node_state s) m"
proof (cases "scheduled_msg (mh_mailbox_key (rn_handler s)) p")
  case None
  then show ?thesis by (simp add: serve_pending_same)
next
  case (Some m')
  with assms have "m \<noteq> m'" by (auto simp: quiet_def)
  with serve_pending_scheduled[OF Some, of sha x] show ?thesis by (metis fun_upd_other)
qed

text \<open>A quiet step leaves the entry and the attempt of \<open>m\<close> alone, unless it is a tick.\<close>

lemma quiet_same:
  assumes "node_step sha valid lag s s'" and "run_inv lag s" and "quiet sha m s s'" and "s' \<noteq> sweep_tick s"
  shows "pending (node_state s') m = pending (node_state s) m \<and> tasks_of m s' = tasks_of m s"
proof -
  have rwf: "retry_wf (node_state s)" using assms(2) by (simp add: run_inv_def node_wf_def)
  from assms(1) show ?thesis
  proof cases
    case (connection p x)
    with quiet_connection assms(3) show ?thesis by (auto simp: tasks_of_def)
  next
    case (delivered task)
    with assms(3) have "due_msg_id (fst task) \<noteq> m" unfolding quiet_def ends_def tasks_of_def by blast
    with delivered other_attempt[OF rwf] show ?thesis by simp
  next
    case (failed task)
    with assms(3) have "due_msg_id (fst task) \<noteq> m" unfolding quiet_def ends_def tasks_of_def by blast
    with failed other_attempt[OF rwf] show ?thesis by simp
  qed (use assms(3,4) in \<open>auto simp: quiet_def tasks_of_def\<close>)
qed

lemma tick_tasks:
  assumes "retry_wf (node_state s)" and "due_time (node_state s) m = Some t" and "t \<le> rn_clock s"
  shows "tasks_of m (sweep_tick s) \<noteq> {}"
proof -
  have "m \<in> set (map due_msg_id (fst (take_due (rn_clock s) (node_state s))))"
    using assms take_due_iff by blast
  then show ?thesis by (force simp: tasks_of_def)
qed

lemma quiet_step:
  assumes "node_step sha valid lag s s'" and "run_inv lag s" and "quiet sha m s s'"
  shows "attempts_made (node_state s') m = attempts_made (node_state s) m"
    and "tasks_of m s \<subseteq> tasks_of m s'"
    and "due_time (node_state s') m = due_time (node_state s) m \<or> tasks_of m s' \<noteq> {}"
proof -
  have rwf: "retry_wf (node_state s)" using assms(2) by (simp add: run_inv_def node_wf_def)
  have "attempts_made (node_state s') m = attempts_made (node_state s) m \<and> tasks_of m s \<subseteq> tasks_of m s'
    \<and> (due_time (node_state s') m = due_time (node_state s) m \<or> tasks_of m s' \<noteq> {})"
  proof (cases "s' = sweep_tick s")
    case True
    with take_due_attempts[OF rwf] have "attempts_made (node_state s') m = attempts_made (node_state s) m"
      and "tasks_of m s \<subseteq> tasks_of m s'" by (auto simp: tasks_of_def)
    with True tick_tasks[OF rwf, of m] take_due_due_time[OF rwf, of "rn_clock s" m] show ?thesis
      by (cases "due_time (node_state s) m") auto
  next
    case False
    with quiet_same[OF assms] show ?thesis by (auto dest: attempts_made_cong due_time_cong)
  qed
  then show "attempts_made (node_state s') m = attempts_made (node_state s) m"
    and "tasks_of m s \<subseteq> tasks_of m s'"
    and "due_time (node_state s') m = due_time (node_state s) m \<or> tasks_of m s' \<noteq> {}" by auto
qed

section \<open>Every attempt ends, and every entry is attempted\<close>

definition undisturbed ::
  "(bytes \<Rightarrow> bytes) \<Rightarrow> (bytes \<Rightarrow> bool) \<Rightarrow> i64 \<Rightarrow> bytes \<Rightarrow> nat \<Rightarrow> (nat \<Rightarrow> 'id RunningNode) \<Rightarrow> bool" where
  "undisturbed sha valid lag m i r \<longleftrightarrow>
     execution sha valid lag r \<and> (\<forall>j. run_inv lag (r j)) \<and> left_alone sha m i r"

lemma undisturbed_later: "undisturbed sha valid lag m i r \<Longrightarrow> i \<le> j \<Longrightarrow> undisturbed sha valid lag m j r"
  by (auto simp: undisturbed_def left_alone_def)

lemma undisturbed_time:
  "undisturbed sha valid lag m i r \<Longrightarrow> \<exists>n. t \<le> rn_up (r n)"
  "undisturbed sha valid lag m i r \<Longrightarrow> \<exists>n. \<forall>j \<ge> n. t \<le> rn_clock (r j)"
  unfolding undisturbed_def execution_def by blast+

lemma undisturbed_step:
  assumes "undisturbed sha valid lag m i r" and "i \<le> j" and "\<not> ends m (r j) (r (Suc j))"
  shows "attempts_made (node_state (r (Suc j))) m = attempts_made (node_state (r j)) m"
    and "tasks_of m (r j) \<subseteq> tasks_of m (r (Suc j))"
    and "due_time (node_state (r (Suc j))) m = due_time (node_state (r j)) m \<or> tasks_of m (r (Suc j)) \<noteq> {}"
  using assms quiet_step[of sha valid lag "r j" "r (Suc j)" m]
  by (auto simp: undisturbed_def execution_def left_alone_def quiet_def)

lemma running_attempt_ends:
  assumes u: "undisturbed sha valid lag m i r" and "i \<le> j" and "tasks_of m (r j) \<noteq> {}"
  shows "\<exists>l \<ge> j. ends m (r l) (r (Suc l))"
proof (rule ccontr)
  assume never: "\<not> (\<exists>l \<ge> j. ends m (r l) (r (Suc l)))"
  from assms(3) obtain d t0 where task: "(d, t0) \<in> tasks_of m (r j)" by auto
  have stays: "(d, t0) \<in> tasks_of m (r l)" if "j \<le> l" for l
    using that
  proof (induction rule: dec_induct)
    case (step l)
    with never assms(2) undisturbed_step(2)[OF u, of l] show ?case by fastforce
  qed (rule task)
  obtain n where n: "t0 + RETRY_DIAL_TIMEOUT + lag + 1 \<le> rn_up (r n)"
    using undisturbed_time(1)[OF u] by blast
  let ?l = "max j n"
  have "rn_up (r n) \<le> rn_up (r ?l)"
    using u execution_up_mono[of sha valid lag r n ?l] by (simp add: undisturbed_def)
  moreover have "timely lag (r ?l)" using u by (simp add: undisturbed_def run_inv_def)
  then have "rn_up (r ?l) \<le> t0 + RETRY_DIAL_TIMEOUT + lag"
    using stays[of ?l] by (auto simp: timely_def tasks_of_def)
  ultimately show False using n by linarith
qed

lemma some_attempt_ends:
  assumes u: "undisturbed sha valid lag m i r" and "due_time (node_state (r i)) m = Some t"
  shows "\<exists>l \<ge> i. ends m (r l) (r (Suc l))"
proof (rule ccontr)
  assume never: "\<not> (\<exists>l \<ge> i. ends m (r l) (r (Suc l)))"
  have idle: "tasks_of m (r l) = {}" if "i \<le> l" for l
    using running_attempt_ends[OF u that] never that le_trans by blast
  have due: "due_time (node_state (r l)) m = Some t" if "i \<le> l" for l
    using that
  proof (induction rule: dec_induct)
    case (step l)
    with never undisturbed_step(3)[OF u, of l] idle[of "Suc l"] show ?case by auto
  qed (rule assms(2))
  obtain n where n: "\<forall>j \<ge> n. t \<le> rn_clock (r j)" using undisturbed_time(2)[OF u] by blast
  obtain l where l: "max i n \<le> l" "r (Suc l) = sweep_tick (r l)"
    using u unfolding undisturbed_def execution_def by blast
  from n l(1) have "t \<le> rn_clock (r l)" by simp
  moreover have "retry_wf (node_state (r l))" using u by (simp add: undisturbed_def run_inv_def node_wf_def)
  ultimately have "tasks_of m (r (Suc l)) \<noteq> {}" using tick_tasks due[of l] l by simp
  with idle[of "Suc l"] l(1) show False by simp
qed

lemma attempts_until_end:
  assumes u: "undisturbed sha valid lag m i r" and "attempts_made (node_state (r i)) m = Some k"
  shows "\<exists>l \<ge> i. ends m (r l) (r (Suc l)) \<and> attempts_made (node_state (r l)) m = Some k"
proof -
  from assms(2) obtain t where "due_time (node_state (r i)) m = Some t"
    by (auto simp: attempts_made_def due_time_def)
  from some_attempt_ends[OF u this] obtain l0 where "i \<le> l0" "ends m (r l0) (r (Suc l0))" by blast
  then have ex: "\<exists>l. i \<le> l \<and> ends m (r l) (r (Suc l))" by blast
  define l where "l = (LEAST l. i \<le> l \<and> ends m (r l) (r (Suc l)))"
  have l: "i \<le> l" "ends m (r l) (r (Suc l))" using LeastI_ex[OF ex] by (simp_all add: l_def)
  have "attempts_made (node_state (r j)) m = Some k" if "i \<le> j" "j \<le> l" for j
    using that
  proof (induction rule: dec_induct)
    case (step j)
    then have "j < (LEAST l. i \<le> l \<and> ends m (r l) (r (Suc l)))" by (simp add: l_def)
    from not_less_Least[OF this] step.hyps have "\<not> ends m (r j) (r (Suc j))" by simp
    with step undisturbed_step(1)[OF u] show ?case by simp
  qed (rule assms(2))
  with l show ?thesis by blast
qed

lemma end_resolves_or_counts:
  assumes inv: "run_inv lag (r l)" and "ends m (r l) (r (Suc l))" and k: "attempts_made (node_state (r l)) m = Some k"
  shows "resolved_at m r l \<or> (attempts_made (node_state (r (Suc l))) m = Some (Suc k) \<and> k < 2)"
proof -
  have rwf: "retry_wf (node_state (r l))" using inv by (simp add: run_inv_def node_wf_def)
  from k obtain x where x: "pending (node_state (r l)) m = Some x" "k = nat (rr_attempts x)"
    by (auto simp: attempts_made_def)
  from pending_bounds[OF rwf x(1)] have b: "0 \<le> rr_attempts x" "rr_attempts x < 3" by auto
  from assms(2) obtain task where task: "task \<in> set (rn_in_flight (r l))" "due_msg_id (fst task) = m"
    and "r (Suc l) = attempt_delivered task (r l) \<or> r (Suc l) = attempt_failed task (r l)"
    by (auto simp: ends_def tasks_of_def)
  then consider "r (Suc l) = attempt_delivered task (r l)" | "r (Suc l) = attempt_failed task (r l)" by blast
  then show ?thesis
  proof cases
    case 1
    with task show ?thesis unfolding resolved_at_def by blast
  next
    case 2
    then have st: "node_state (r (Suc l)) = snd (mark_failed (rn_clock (r l)) m (node_state (r l)))"
      using task(2) by (simp add: attempt_failed_def)
    show ?thesis
      using x b by (auto simp: resolved_at_def st failed_mark_failed[OF rwf] attempts_made_def
          pending_mark_failed[OF rwf] insert_or_ignore_def nat_add_distrib)
  qed
qed

lemma eventually_resolved:
  assumes "undisturbed sha valid lag m i r" and "attempts_made (node_state (r i)) m = Some k"
  shows "\<exists>j \<ge> i. resolved_at m r j"
  using assms
proof (induction "3 - k" arbitrary: i k rule: less_induct)
  case less
  from attempts_until_end[OF less.prems] obtain l where l: "i \<le> l" "ends m (r l) (r (Suc l))"
    "attempts_made (node_state (r l)) m = Some k" by blast
  have "run_inv lag (r l)" using less.prems(1) by (simp add: undisturbed_def)
  from end_resolves_or_counts[OF this l(2,3)] show ?case
  proof
    assume "attempts_made (node_state (r (Suc l))) m = Some (Suc k) \<and> k < 2"
    moreover have "undisturbed sha valid lag m (Suc l) r" using undisturbed_later[OF less.prems(1)] l(1) by simp
    moreover from calculation(1) have "3 - Suc k < 3 - k" by linarith
    ultimately obtain j where "Suc l \<le> j" "resolved_at m r j" using less.hyps[of "Suc k" "Suc l"] by blast
    with l(1) show ?thesis by (intro exI[of _ j]) simp
  qed (use l(1) in blast)
qed

section \<open>Properties\<close>

text \<open>
  C15: every scheduled delivery comes to an end. On a node that keeps running (time goes on, also on
  the wall clock in the end, and the sweep keeps ticking), a delivery that is queued at some moment, and from then on is neither
  scheduled again nor cut off by a restart, is at a later moment either delivered by a successful
  dial or on the list of failures that the owner polls. Whether the recipient is reachable does
  not matter, nor what other connections do.
\<close>

theorem scheduled_delivery_ends:
  assumes "execution sha valid lag r" and "r 0 = spawn key db now" and "node_wf db"
    and "0 \<le> lag" and "left_alone sha m i r" and "pending (node_state (r i)) m \<noteq> None"
  shows "\<exists>j \<ge> i. resolved_at m r j"
proof -
  have "run_inv lag (r 0)" using assms(2,3) by (simp add: run_inv_spawn)
  from execution_inv[OF assms(1) this assms(4)] have "undisturbed sha valid lag m i r"
    using assms(1,5) by (simp add: undisturbed_def)
  moreover from assms(6) obtain k where "attempts_made (node_state (r i)) m = Some k"
    by (auto simp: attempts_made_def)
  ultimately show ?thesis by (rule eventually_resolved)
qed

text \<open>
  An execution: the owner schedules a delivery, the sweep dials it, the dial succeeds, and from
  then on the node idles, a sweep and a millisecond at a time.
\<close>

definition idle_node :: "string RunningNode" where
  "idle_node = (spawn [9] empty_node_db 100)\<lparr>rn_dialed := (\<lambda>m. if m = [1] then 1 else 0)\<rparr>"

definition live_run :: "nat \<Rightarrow> string RunningNode" where
  "live_run n =
     (if n = 0 then spawn [9] empty_node_db 100
      else if n = 1 then serve_connection (\<lambda>a. a) ''owner'' (Inr (ScheduleRetry [9] [1] [2] [3]))
        (spawn [9] empty_node_db 100)
      else if n = 2 then sample_run
      else idle_node\<lparr>rn_clock := 100 + int ((n - 3) div 2), rn_up := int ((n - 3) div 2)\<rparr>)"

definition live_task :: "DueDelivery \<times> i64" where
  "live_task = (\<lparr>due_msg_id = [1], due_recipient = [2], due_envelope = [3]\<rparr>, 0)"

lemma live_task_in_flight: "rn_in_flight sample_run = [live_task]"
  by (simp add: sample_run_eval live_task_def)

lemma live_task_delivered: "attempt_delivered live_task sample_run = idle_node"
  by (simp add: attempt_delivered_def finish_task_def set_db_def mark_delivered_def delete_where_def
      idle_node_def live_task_def sample_run_eval push_out_def prune_expired_def fun_eq_iff)

lemma idle_tick: "sweep_tick (idle_node\<lparr>rn_clock := t, rn_up := u\<rparr>) = idle_node\<lparr>rn_clock := t, rn_up := u\<rparr>"
  by (simp add: idle_node_def sample_run_eval prune_expired_def)

lemma live_run_step: "node_step (\<lambda>a. a) (\<lambda>_. True) 0 (live_run n) (live_run (Suc n))"
proof -
  have "n = 0 \<or> n = 1 \<or> n = 2 \<or> (\<exists>l. n = 3 + 2 * l) \<or> (\<exists>l. n = 4 + 2 * l)" by presburger
  then consider "n = 0" | "n = 1" | "n = 2" | l where "n = 3 + 2 * l" | l where "n = 4 + 2 * l" by blast
  then show ?thesis
  proof cases
    case 1
    have "node_step (\<lambda>a. a) (\<lambda>_. True) 0 (spawn [9] empty_node_db 100 :: string RunningNode)
        (serve_connection (\<lambda>a. a) ''owner'' (Inr (ScheduleRetry [9] [1] [2] [3])) (spawn [9] empty_node_db 100))"
      by (rule node_step.connection)
    with 1 show ?thesis by (simp add: live_run_def)
  next
    case 2
    then show ?thesis using node_step.tick by (simp add: live_run_def sample_run_def)
  next
    case 3
    have "node_step (\<lambda>a. a) (\<lambda>_. True) 0 sample_run (attempt_delivered live_task sample_run)"
      by (rule node_step.delivered) (simp_all add: live_task_in_flight)
    moreover have "idle_node\<lparr>rn_clock := 100, rn_up := 0\<rparr> = idle_node" by (simp add: idle_node_def spawn_def)
    ultimately show ?thesis using 3 by (simp add: live_run_def live_task_delivered)
  next
    case (4 l)
    then have "live_run (Suc n) = sweep_tick (live_run n)" by (simp add: live_run_def idle_tick)
    then show ?thesis using node_step.tick by simp
  next
    case (5 l)
    then have "live_run (Suc n) = (live_run n)\<lparr>rn_clock := rn_clock (live_run n) + 1, rn_up := rn_up (live_run n) + 1\<rparr>"
      by (simp add: live_run_def)
    moreover have "rn_in_flight (live_run n) = []" using 5 by (simp add: live_run_def idle_node_def spawn_def)
    ultimately show ?thesis using node_step.wait[of 1 "live_run n" 0] by simp
  qed
qed

lemma live_run_execution: "execution (\<lambda>a. a) (\<lambda>_. True) 0 live_run"
  unfolding execution_def
proof (intro conjI allI)
  show "node_step (\<lambda>a. a) (\<lambda>_. True) 0 (live_run n) (live_run (Suc n))" for n by (rule live_run_step)
  show "\<exists>i. t \<le> rn_up (live_run i)" for t
    by (rule exI[of _ "3 + 2 * nat t"]) (simp add: live_run_def)
  show "\<exists>i. \<forall>j \<ge> i. t \<le> rn_clock (live_run j)" for t
    by (rule exI[of _ "3 + 2 * nat t"]) (auto simp: live_run_def)
  show "\<exists>j \<ge> i. live_run (Suc j) = sweep_tick (live_run j)" for i
    by (rule exI[of _ "3 + 2 * i"]) (simp add: live_run_def idle_tick)
qed

lemma live_run_left_alone: "left_alone (\<lambda>a. a) [1] 1 live_run"
proof -
  have late: "rn_dialed (live_run n) [1] = 1 \<and> rn_restarts (live_run n) = 0" if "2 \<le> n" for n
    using that by (cases "n = 2") (simp_all add: live_run_def idle_node_def, simp_all add: sample_run_eval)
  have one: "rn_restarts (live_run 1) = 0" by (simp add: live_run_def spawn_def serve_connection_def)
  have "rn_dialed (serve_connection (\<lambda>a. a) x p s) [1] = 0"
    if "scheduled_msg (mh_mailbox_key (rn_handler s)) p = Some [1]" for x p and s :: "string RunningNode"
    using that by (simp add: serve_connection_def)
  with late one show ?thesis
    unfolding left_alone_def by (metis One_nat_def Suc_le_mono le_antisym not_less_eq_eq numeral_2_eq_2 zero_neq_one)
qed

theorem scheduled_delivery_ends_witness: "\<exists>j \<ge> 1. resolved_at [1] live_run j"
proof (rule scheduled_delivery_ends[OF live_run_execution])
  show "live_run 0 = spawn [9] empty_node_db 100" by (simp add: live_run_def)
  show "pending (node_state (live_run 1)) [1] \<noteq> None"
    by (simp add: live_run_def sample_run_eval pending_def)
  show "left_alone (\<lambda>a. a) [1] 1 live_run" by (rule live_run_left_alone)
qed simp_all

end
