(* ===== verification/Node_Spec.thy ===== *)
theory Node_Spec
  imports Node_Run "HOL-Library.Multiset"
begin

text \<open>
  What the node promises, without its tables, clocks and tasks, and the proof that the running
  node of \<^verbatim>\<open>Node_Run\<close> keeps the promise. The abstract mailbox is a set of open slots, the blobs
  by id, the backup, the deliveries in retry and the deliveries given up; its steps say what every
  answer to a connection and every end of a dial attempt may do to it. The simulation is by
  traces: whatever is seen at the node is allowed by the mailbox.
\<close>

section \<open>The abstract mailbox\<close>

record mailbox_state =
  box_slots :: "bytes set"
  box_blobs :: "u64 \<Rightarrow> (bytes \<times> bool) option"
  box_backup :: "bytes option"
  box_retries :: "bytes \<Rightarrow> (bytes \<times> bytes) option"
  box_failed :: "bytes set"

text \<open>A listing shows the stored blobs, each once, by increasing id.\<close>

definition lists_blobs :: "(u64 \<Rightarrow> (bytes \<times> bool) option) \<Rightarrow> StoredBlob list \<Rightarrow> bool" where
  "lists_blobs m bs \<longleftrightarrow> sorted_wrt (<) (map blob_id bs)
     \<and> (\<forall>b. b \<in> set bs \<longleftrightarrow> m (blob_id b) = Some (blob_data b, blob_delivered b))"

inductive box_step ::
  "(bytes \<Rightarrow> bytes) \<Rightarrow> bytes \<Rightarrow> mailbox_state \<Rightarrow> node_event \<Rightarrow> mailbox_state \<Rightarrow> bool"
  for sha key where
  malformed: "box_step sha key m
     (Answered (Inl e) (Ok (RespError (''malformed request: '' @ e)))) m"
| throttled: "is_limited r \<Longrightarrow> box_step sha key m
     (Answered (Inr r) (Ok (RespError ''rate limit exceeded, try again shortly''))) m"
| refused: "\<lbrakk>owner_key r = Some k; k \<noteq> key\<rbrakk> \<Longrightarrow> box_step sha key m
     (Answered (Inr r) (Ok not_the_owner)) m"
| registered: "box_step sha key m
     (Answered (Inr (RegisterSlot key h)) (Ok RespOk)) (m\<lparr>box_slots := insert h (box_slots m)\<rparr>)"
| written: "\<lbrakk>sha a \<in> box_slots m; box_blobs m i = None\<rbrakk> \<Longrightarrow> box_step sha key m
     (Answered (Inr (Write a b)) (Ok RespOk))
     (m\<lparr>box_slots := box_slots m - {sha a}, box_blobs := (box_blobs m)(i \<mapsto> (b, False))\<rparr>)"
| no_slot: "sha a \<notin> box_slots m \<Longrightarrow> box_step sha key m
     (Answered (Inr (Write a b)) (Ok (RespError ''no matching registered slot for this write''))) m"
| ids_used_up: "box_step sha key m (Answered (Inr (Write a b)) Panic) m"
| fetched: "lists_blobs (box_blobs m) bs \<Longrightarrow> box_step sha key m
     (Answered (Inr (Fetch key)) (Ok (Blobs bs))) m"
| acked: "box_step sha key m (Answered (Inr (Ack key ids)) (Ok RespOk))
     (m\<lparr>box_blobs := mark_delivered_in (set ids) (box_blobs m)\<rparr>)"
| backup_put: "box_step sha key m
     (Answered (Inr (PutBackup key b)) (Ok RespOk)) (m\<lparr>box_backup := Some b\<rparr>)"
| backup_got: "box_step sha key m
     (Answered (Inr (GetBackup key)) (Ok (Backup (box_backup m)))) m"
| retry_scheduled: "box_step sha key m
     (Answered (Inr (ScheduleRetry key x rcpt e)) (Ok RespOk))
     (m\<lparr>box_retries := (box_retries m)(x \<mapsto> (rcpt, e))\<rparr>)"
| failures_polled: "\<lbrakk>set fs = box_failed m; distinct fs\<rbrakk> \<Longrightarrow> box_step sha key m
     (Answered (Inr (PollFailedDeliveries key)) (Ok (FailedDeliveries fs))) (m\<lparr>box_failed := {}\<rparr>)"
| dial_succeeded: "box_step sha key m (DialSucceeded x)
     (m\<lparr>box_retries := (box_retries m)(x := None)\<rparr>)"
| dial_failed: "box_step sha key m (DialFailed x) m"
| gave_up: "box_retries m x \<noteq> None \<Longrightarrow> box_step sha key m (DialFailed x)
     (m\<lparr>box_retries := (box_retries m)(x := None), box_failed := insert x (box_failed m)\<rparr>)"
| clock_set: "box_step sha key m (ClockSet d) m"
| silent: "box_step sha key m Silent m"

text \<open>
  The contract of a refinement: every step from a state that satisfies the invariant is a step of
  the specification with the same event, and keeps the invariant.
\<close>

locale simulation =
  fixes cstep :: "'s \<Rightarrow> 'e \<Rightarrow> 's \<Rightarrow> bool"
    and astep :: "'a \<Rightarrow> 'e \<Rightarrow> 'a \<Rightarrow> bool"
    and abs :: "'s \<Rightarrow> 'a"
    and inv :: "'s \<Rightarrow> bool"
  assumes inv_step: "inv s \<Longrightarrow> cstep s ev s' \<Longrightarrow> inv s'"
    and sim_step: "inv s \<Longrightarrow> cstep s ev s' \<Longrightarrow> astep (abs s) ev (abs s')"
begin

lemma inv_steps: "steps cstep s0 tr s \<Longrightarrow> inv s0 \<Longrightarrow> inv s"
  by (induction rule: steps.induct) (auto intro: inv_step)

lemma traces_included: "steps cstep s0 tr s \<Longrightarrow> inv s0 \<Longrightarrow> steps astep (abs s0) tr (abs s)"
proof (induction rule: steps.induct)
  case no_steps
  show ?case by (rule steps.no_steps)
next
  case (more_steps tr s ev s')
  then show ?case using sim_step[OF inv_steps] steps.more_steps by metis
qed

end

section \<open>The simulation\<close>

definition retries :: "node_db \<Rightarrow> bytes \<Rightarrow> (bytes \<times> bytes) option" where
  "retries db x = map_option (\<lambda>r. (rr_recipient r, rr_envelope r)) (pending db x)"

definition box_of :: "node_db \<Rightarrow> mailbox_state" where
  "box_of db = \<lparr>box_slots = slots db, box_blobs = stored db, box_backup = backup_row db,
     box_retries = retries db, box_failed = set (failed_deliveries db)\<rparr>"

lemmas box_of_simps = box_of_def slots_def register_slot_def ack_def put_backup_def get_backup_def
  schedule_def take_failed_def mark_delivered_def

text \<open>Each operation of the tables is one of the mailbox.\<close>

lemma retries_cong:
  "retries (db\<lparr>registered_slots := a\<rparr>) = retries db" "retries (db\<lparr>blobs := b\<rparr>) = retries db"
  "retries (db\<lparr>blobs_seq := c\<rparr>) = retries db" "retries (db\<lparr>backup_row := d\<rparr>) = retries db"
  "retries (db\<lparr>failed_deliveries := f\<rparr>) = retries db"
  by (simp_all add: retries_def pending_def fun_eq_iff)

lemma slots_cong:
  "slots (db\<lparr>retry_entries := a\<rparr>) = slots db" "slots (db\<lparr>failed_deliveries := b\<rparr>) = slots db"
  "slots (db\<lparr>blobs := c\<rparr>) = slots db" "slots (db\<lparr>backup_row := d\<rparr>) = slots db"
  by (simp_all add: slots_def)

lemma box_of_register: "box_of (register_slot h db) = (box_of db)\<lparr>box_slots := insert h (box_slots (box_of db))\<rparr>"
  using slots_register[of h db] by (simp add: box_of_def) (simp add: register_slot_def retries_cong)

lemma box_of_ack: "box_of (ack ids db) = (box_of db)\<lparr>box_blobs := mark_delivered_in (set ids) (box_blobs (box_of db))\<rparr>"
  by (simp add: box_of_def stored_ack) (simp add: ack_def retries_cong slots_cong)

lemma box_of_put_backup: "box_of (put_backup b db) = (box_of db)\<lparr>box_backup := Some b\<rparr>"
  by (simp add: box_of_def put_backup_def retries_cong slots_cong)

lemma box_of_schedule:
  "box_of (schedule now x k e db) = (box_of db)\<lparr>box_retries := (box_retries (box_of db))(x \<mapsto> (k, e))\<rparr>"
  by (simp add: box_of_def retries_def pending_schedule fun_eq_iff) (simp add: schedule_def slots_cong)

lemma box_of_take_failed: "box_of (snd (take_failed db)) = (box_of db)\<lparr>box_failed := {}\<rparr>"
  by (simp add: box_of_def take_failed_def retries_cong slots_cong)

lemma box_of_mark_delivered:
  "box_of (mark_delivered x db) = (box_of db)\<lparr>box_retries := (box_retries (box_of db))(x := None)\<rparr>"
  by (simp add: box_of_def retries_def pending_mark_delivered fun_eq_iff)
    (simp add: mark_delivered_def slots_cong)

lemma box_of_take_due:
  assumes "retry_wf db"
  shows "box_of (snd (take_due now db)) = box_of db"
proof -
  have "retries (snd (take_due now db)) = retries db"
    by (simp add: retries_def fun_eq_iff pending_take_due[OF assms] option.map_comp comp_def
        cong: option.map_cong) (auto intro!: option.map_cong)
  then show ?thesis by (simp add: box_of_def) (simp add: take_due_def Let_def slots_cong)
qed

lemma box_of_write:
  assumes "mailbox_wf db" and "store_write sha a b db = (Ok i, db')"
  shows "sha a \<in> slots db \<and> stored db i = None \<and>
    box_of db' = (box_of db)\<lparr>box_slots := slots db - {sha a}, box_blobs := (stored db)(i \<mapsto> (b, False))\<rparr>"
proof -
  have rest: "retries db' = retries db" "backup_row db' = backup_row db"
    "failed_deliveries db' = failed_deliveries db"
    using assms(2) by (auto simp: store_write_Ok_iff retries_cong)
  from mb.wr_accepted[OF assms] rest show ?thesis by (simp add: box_of_def)
qed

lemma box_of_mark_failed:
  assumes "retry_wf db"
  shows "box_of (snd (mark_failed now x db)) = box_of db
    \<or> (box_retries (box_of db) x \<noteq> None
       \<and> box_of (snd (mark_failed now x db)) = (box_of db)\<lparr>box_retries := (box_retries (box_of db))(x := None),
           box_failed := insert x (box_failed (box_of db))\<rparr>)"
proof (cases "pending db x")
  case None
  then show ?thesis by (simp add: mark_failed_unknown)
next
  case (Some r)
  with assms consider "rr_attempts r = 2" | "rr_attempts r < 2" by (fastforce simp: retry_wf_iff)
  then show ?thesis
  proof cases
    case 1
    have "retries (snd (mark_failed now x db)) = (retries db)(x := None)"
      using 1 Some by (auto simp: retries_def fun_eq_iff pending_mark_failed[OF assms])
    moreover have "set (failed_deliveries (snd (mark_failed now x db))) = insert x (set (failed_deliveries db))"
      using 1 Some by (auto simp: failed_mark_failed[OF assms] insert_or_ignore_def)
    moreover have "retries db x \<noteq> None" using Some by (simp add: retries_def)
    ultimately show ?thesis
      by (intro disjI2) (simp add: box_of_def, simp add: mark_failed_last[OF assms Some 1] slots_cong)
  next
    case 2
    have "retries (snd (mark_failed now x db)) = retries db"
      using 2 Some by (auto simp: retries_def fun_eq_iff pending_mark_failed[OF assms])
    then show ?thesis
      by (intro disjI1) (simp add: box_of_def, simp add: mark_failed_early[OF assms Some 2] slots_cong)
  qed
qed

lemma lists_fetch_all: "mailbox_wf db \<Longrightarrow> lists_blobs (stored db) (fetch_all db)"
  unfolding lists_blobs_def using fetch_all_ids_increasing fetch_all_iff_stored by blast

text \<open>One request.\<close>

lemma handle_simulates:
  fixes r :: NodeRequest
  assumes "node_wf db"
  shows "box_step sha key (box_of db)
    (Answered (Inr r) (case fst (handle sha key now r db) of Ok x \<Rightarrow> Ok x | _ \<Rightarrow> Panic))
    (box_of (snd (handle sha key now r db)))"
proof (cases "\<exists>k. owner_key r = Some k \<and> k \<noteq> key")
  case True
  then obtain k where "owner_key r = Some k" "k \<noteq> key" by blast
  then show ?thesis by (simp add: handle_refused box_step.refused)
next
  case False
  have wf: "mailbox_wf db" "retry_wf db" using assms by (auto simp: node_wf_def)
  show ?thesis
  proof (cases r)
    case (Write a b)
    show ?thesis
    proof (cases "store_write sha a b db")
      case (Pair res db')
      show ?thesis
      proof (cases res)
        case (Ok i)
        with box_of_write[OF wf(1)] Pair have "sha a \<in> slots db" "stored db i = None"
          "box_of db' = (box_of db)\<lparr>box_slots := slots db - {sha a},
             box_blobs := (stored db)(i \<mapsto> (b, False))\<rparr>" by blast+
        with Ok Pair Write box_step.written[of sha a "box_of db" i key b] show ?thesis
          by (simp add: box_of_def)
      next
        case (Err e)
        with Pair have "sha a \<notin> box_slots (box_of db)" "db' = db"
          by (auto simp: store_write_def Let_def box_of_def slots_def split: if_splits)
        with Err Pair Write show ?thesis by (cases e) (simp add: box_step.no_slot)
      next
        case Panic
        with Pair have "db' = db" by (auto simp: store_write_def Let_def split: if_splits)
        with Panic Pair Write show ?thesis by (simp add: box_step.ids_used_up)
      qed
    qed
  next
    case (Fetch k)
    with False lists_fetch_all[OF wf(1)] box_step.fetched[of "box_of db" "fetch_all db" sha key]
    show ?thesis by (simp add: box_of_def)
  next
    case (PollFailedDeliveries k)
    have "distinct (failed_deliveries db)" using wf(2) by (simp add: retry_wf_iff)
    with False PollFailedDeliveries box_of_take_failed[of db]
      box_step.failures_polled[of "failed_deliveries db" "box_of db" sha key]
    show ?thesis by (simp add: take_failed_def) (simp add: box_of_def)
  next
    case (GetBackup k)
    with False box_step.backup_got[of sha key "box_of db"] show ?thesis
      by (simp add: get_backup_def) (simp add: box_of_def)
  qed (use False in \<open>auto simp: box_of_register box_of_ack box_of_put_backup box_of_schedule
      intro: box_step.intros\<close>)
qed

lemma answer_simulates:
  assumes "node_wf (mh_db h)"
  shows "box_step sha (mh_mailbox_key h) (box_of (mh_db h))
    (Answered p (fst (answer sha now i p h))) (box_of (mh_db (snd (answer sha now i p h))))"
proof (cases p)
  case (Inl e)
  then show ?thesis using box_step.malformed[of sha _ _ e] by (simp add: answer_def)
next
  case (Inr r)
  let ?adm = "if is_limited r then allow now i (mh_rate_limiter h) else (True, mh_rate_limiter h)"
  show ?thesis
  proof (cases "fst ?adm")
    case False
    then have "is_limited r" by (auto split: if_splits)
    with False Inr show ?thesis
      by (simp add: answer_def Let_def case_prod_beta box_step.throttled)
  next
    case True
    with Inr handle_simulates[OF assms, of sha "mh_mailbox_key h" r now] show ?thesis
      by (auto simp: answer_def Let_def case_prod_beta split: prod.splits outcome.splits)
  qed
qed

text \<open>One step of the running node.\<close>

lemma key_simps [simp]:
  "mh_mailbox_key (rn_handler (serve_connection sha i p s)) = mh_mailbox_key (rn_handler s)"
  "mh_mailbox_key (rn_handler (sweep_tick s)) = mh_mailbox_key (rn_handler s)"
  "mh_mailbox_key (rn_handler (attempt_delivered task s)) = mh_mailbox_key (rn_handler s)"
  "mh_mailbox_key (rn_handler (attempt_failed task s)) = mh_mailbox_key (rn_handler s)"
  "mh_mailbox_key (rn_handler (restart s)) = mh_mailbox_key (rn_handler s)"
  "mh_mailbox_key (rn_handler (spawn key db now)) = key"
  by (auto simp: serve_connection_def answer_def sweep_tick_def attempt_delivered_def attempt_failed_def
      finish_task_def set_db_def restart_def spawn_def MailboxHandler_new_def Let_def case_prod_beta
      split: sum.splits prod.splits outcome.splits)

lemma node_event_step_key:
  "node_event_step sha valid lag s ev s' \<Longrightarrow> mh_mailbox_key (rn_handler s') = mh_mailbox_key (rn_handler s)"
  by (erule node_event_step.cases) auto

lemma node_event_step_simulates:
  assumes "node_event_step sha valid lag s ev s'" and "node_wf (node_state s)"
  shows "box_step sha (mh_mailbox_key (rn_handler s)) (box_of (node_state s)) ev (box_of (node_state s'))"
proof -
  have rwf: "retry_wf (node_state s)" using assms(2) by (simp add: node_wf_def)
  from assms(1) show ?thesis
  proof cases
    case (ev_connection p i)
    with answer_simulates[of "rn_handler s" sha p "rn_clock s" i] assms(2) show ?thesis
      by (simp add: node_state_def serve_connection_def)
  next
    case (ev_failed task)
    let ?x = "due_msg_id (fst task)"
    note up = box_step.gave_up[of "box_of (node_state s)" ?x sha "mh_mailbox_key (rn_handler s)"]
    from box_of_mark_failed[OF rwf, of "rn_clock s" ?x] ev_failed show ?thesis
      by (elim disjE conjE) (simp_all add: attempt_failed_def box_step.dial_failed up)
  qed (auto simp: attempt_delivered_def box_of_mark_delivered box_of_take_due[OF rwf]
      intro: box_step.intros)
qed

definition node_inv :: "bytes \<Rightarrow> 'id RunningNode \<Rightarrow> bool" where
  "node_inv key s \<longleftrightarrow> node_wf (node_state s) \<and> mh_mailbox_key (rn_handler s) = key"

lemma node_inv_spawn: "node_wf db \<Longrightarrow> node_inv key (spawn key db now)"
  by (simp add: node_inv_def)

interpretation node_sim: simulation "node_event_step sha valid lag" "box_step sha key"
  "\<lambda>s. box_of (node_state s)" "node_inv key" for sha valid lag key
proof
  fix s ev s' assume inv: "node_inv key s" and step: "node_event_step sha valid lag s ev s'"
  then have "node_step sha valid lag s s'" using node_step_event by blast
  with inv show "node_inv key s'"
    using node_wf_step[of sha valid lag s s'] node_event_step_key[OF step] by (simp add: node_inv_def)
  from inv step show "box_step sha key (box_of (node_state s)) ev (box_of (node_state s'))"
    using node_event_step_simulates by (fastforce simp: node_inv_def)
qed

section \<open>What follows for the mailbox\<close>

text \<open>The blobs that writes were accepted for, and the registrations and writes of one slot.\<close>

fun accepted_blob :: "node_event \<Rightarrow> (bytes \<times> bytes) option" where
  "accepted_blob (Answered (Inr (Write a b)) (Ok RespOk)) = Some (a, b)"
| "accepted_blob _ = None"

definition accepted :: "node_event list \<Rightarrow> (bytes \<times> bytes) list" where
  "accepted tr = List.map_filter accepted_blob tr"

fun opens :: "bytes \<Rightarrow> bytes \<Rightarrow> node_event \<Rightarrow> bool" where
  "opens key h (Answered (Inr (RegisterSlot k h')) (Ok RespOk)) = (k = key \<and> h' = h)"
| "opens key h _ = False"

definition held :: "mailbox_state \<Rightarrow> bytes multiset" where
  "held m = image_mset (\<lambda>i. fst (the (box_blobs m i))) (mset_set (dom (box_blobs m)))"

lemma accepted_simps [simp]:
  "accepted [] = []" "accepted (tr @ [ev]) = accepted tr @ (case accepted_blob ev of None \<Rightarrow> [] | Some x \<Rightarrow> [x])"
  by (simp_all add: accepted_def List.map_filter_def split: option.split)

lemma not_the_owner_not_ok [simp]: "not_the_owner \<noteq> RespOk"
  by (simp add: not_the_owner_def)

lemma accepted_refusal [simp]:
  "accepted_blob (Answered (Inr r) (Ok (RespError e))) = None"
  "accepted_blob (Answered (Inr r) (Ok not_the_owner)) = None"
  by (cases r; simp add: not_the_owner_def)+

lemma opens_refusal [simp]:
  "\<not> opens key h (Answered (Inr r) (Ok (RespError e)))"
  "\<not> opens key h (Answered (Inr r) (Ok not_the_owner))"
  by (cases r; simp add: not_the_owner_def)+

lemma dom_mark_delivered_in [simp]: "dom (mark_delivered_in I m) = dom m"
  by (auto simp: mark_delivered_in_def)

lemma held_acked: "held (m\<lparr>box_blobs := mark_delivered_in I (box_blobs m)\<rparr>) = held m"
  unfolding held_def
  by (cases "finite (dom (box_blobs m))", simp_all, intro image_mset_cong)
    (auto simp: mark_delivered_in_def)

lemma held_written:
  assumes "finite (dom (box_blobs m))" and "box_blobs m i = None"
  shows "held (m\<lparr>box_slots := S, box_blobs := (box_blobs m)(i \<mapsto> (b, d))\<rparr>) = add_mset b (held m)"
proof -
  have "i \<notin> dom (box_blobs m)" using assms(2) by auto
  with assms show ?thesis
    by (auto simp: held_def intro!: image_mset_cong split: if_splits)
qed

lemma held_listed:
  assumes "lists_blobs (box_blobs m) bs"
  shows "mset (map blob_data bs) = held m"
proof -
  from assms have sorted: "sorted_wrt (<) (map blob_id bs)"
    and mem: "\<And>b. b \<in> set bs \<longleftrightarrow> box_blobs m (blob_id b) = Some (blob_data b, blob_delivered b)"
    by (auto simp: lists_blobs_def)
  have "dom (box_blobs m) = set (map blob_id bs)"
  proof (rule set_eqI)
    fix i
    show "i \<in> dom (box_blobs m) \<longleftrightarrow> i \<in> set (map blob_id bs)"
    proof
      assume "i \<in> dom (box_blobs m)"
      then obtain b d where "box_blobs m i = Some (b, d)" by auto
      then have "\<lparr>blob_id = i, blob_data = b, blob_delivered = d\<rparr> \<in> set bs" by (simp add: mem)
      then show "i \<in> set (map blob_id bs)" by force
    qed (use mem in auto)
  qed
  moreover have "distinct (map blob_id bs)" using sorted strict_sorted_iff by blast
  ultimately have "mset_set (dom (box_blobs m)) = mset (map blob_id bs)"
    by (metis mset_set_set)
  then have "held m = image_mset (\<lambda>i. fst (the (box_blobs m i))) (mset (map blob_id bs))"
    by (simp add: held_def)
  also have "\<dots> = mset (map (\<lambda>b. fst (the (box_blobs m (blob_id b)))) bs)"
    by (simp add: multiset.map_comp comp_def)
  also have "map (\<lambda>b. fst (the (box_blobs m (blob_id b)))) bs = map blob_data bs"
    using mem by (auto intro!: map_cong)
  finally show ?thesis by simp
qed

text \<open>Along every run of the mailbox.\<close>

lemma box_step_slots:
  assumes "box_step sha key m ev m'"
  shows "length (filter (\<lambda>(a, b). sha a = h) (accepted [ev])) + of_bool (h \<in> box_slots m')
    \<le> of_bool (opens key h ev) + of_bool (h \<in> box_slots m)"
  using assms accepted_simps(2)[of "[]" ev]
  by cases (auto simp: not_the_owner_def)

lemma box_step_held:
  assumes "box_step sha key m ev m'" and "finite (dom (box_blobs m))"
  shows "finite (dom (box_blobs m')) \<and> held m' = held m + mset (map snd (accepted [ev]))"
  using assms accepted_simps(2)[of "[]" ev]
  by cases (auto simp: held_acked held_written, simp_all add: held_def)

lemma accepted_snoc: "accepted (tr @ [ev]) = accepted tr @ accepted [ev]"
  using accepted_simps(2)[of tr ev] accepted_simps(2)[of "[]" ev] by simp

lemma box_run_slots:
  assumes "steps (box_step sha key) m0 tr m"
  shows "length (filter (\<lambda>(a, b). sha a = h) (accepted tr)) + of_bool (h \<in> box_slots m)
    \<le> length (filter (opens key h) tr) + of_bool (h \<in> box_slots m0)"
  using assms
proof induction
  case (more_steps tr m ev m')
  have "length (filter (\<lambda>(a, b). sha a = h) (accepted (tr @ [ev])))
      = length (filter (\<lambda>(a, b). sha a = h) (accepted tr))
        + length (filter (\<lambda>(a, b). sha a = h) (accepted [ev]))"
    unfolding accepted_snoc by simp
  moreover have "length (filter (opens key h) (tr @ [ev])) = length (filter (opens key h) tr) + of_bool (opens key h ev)"
    by simp
  ultimately show ?case
    using box_step_slots[OF more_steps.hyps(2), of h] more_steps.IH by linarith
qed simp

lemma box_run_held:
  assumes "steps (box_step sha key) m0 tr m" and "finite (dom (box_blobs m0))"
  shows "finite (dom (box_blobs m)) \<and> held m = held m0 + mset (map snd (accepted tr))"
  using assms(1)
proof induction
  case (more_steps tr m ev m')
  from box_step_held[OF more_steps.hyps(2)] more_steps.IH show ?case
    by (simp add: accepted_snoc del: accepted_simps(2))
qed (use assms(2) in simp)

lemma finite_stored: "finite (dom (stored db))"
proof -
  have "as_i64 i \<in> br_id ` set (blobs db)" if "i \<in> dom (stored db)" for i
    using that lookup_row_None_iff[of br_id "as_i64 i" "blobs db"] by (auto simp: stored_def)
  then have "as_i64 ` dom (stored db) \<subseteq> br_id ` set (blobs db)" by blast
  then have "finite (as_i64 ` dom (stored db))" by (rule finite_subset) simp
  moreover have "inj_on as_i64 (dom (stored db))" by (rule inj_onI) simp
  ultimately show ?thesis by (rule finite_imageD)
qed

section \<open>Properties\<close>

text \<open>
  C5: the node is a mailbox. Every trace of the running node, that is every sequence of answers to
  connections and of ends of dial attempts, with sweeps, restarts, delays and settings of the clock in between, is a
  trace of the abstract mailbox that starts with what the database of the node says and ends with
  what it says then. So the tables, the clock, the rate limiter, the grace period and the
  concurrent tasks cannot be told from a plain set of slots, map of blobs and set of deliveries.
\<close>

theorem node_implements_mailbox:
  assumes "steps (node_event_step sha valid lag) (spawn key db now) tr s" and "node_wf db"
  shows "steps (box_step sha key) (box_of db) tr (box_of (node_state s))"
  using node_sim.traces_included[OF assms(1) node_inv_spawn[OF assms(2)]] by simp

definition sample_trace :: "node_event list" where
  "sample_trace =
     [Answered (Inr (RegisterSlot [9] [7])) (Ok RespOk), Answered (Inr (Write [7] [1, 2])) (Ok RespOk),
      Answered (Inr (Fetch [9]))
        (Ok (Blobs [\<lparr>blob_id = 1, blob_data = [1, 2], blob_delivered = False\<rparr>]))]"

definition sample_served :: "string RunningNode" where
  "sample_served = serve_connection (\<lambda>a. a) ''owner'' (Inr (Fetch [9]))
     (serve_connection (\<lambda>a. a) ''bob'' (Inr (Write [7] [1, 2]))
       (serve_connection (\<lambda>a. a) ''owner'' (Inr (RegisterSlot [9] [7])) (spawn [9] empty_node_db 100)))"

lemmas sample_trace_eval = sample_trace_def answer_def serve_connection_def spawn_def
  MailboxHandler_new_def RateLimiter_new_def Let_def empty_node_db_def register_slot_def store_write_def
  insert_or_ignore_def delete_where_def i64_max_def allow_def current_window_def expired_def
  saturating_sub_def i64_min_def fetch_all_def row_to_blob_def as_u64_def RATE_LIMIT_MAX_PER_WINDOW_def

lemma sample_trace_steps:
  "steps (node_event_step (\<lambda>a. a) (\<lambda>_. True) 0) (spawn [9] empty_node_db 100) sample_trace sample_served"
proof -
  let ?s0 = "spawn [9] empty_node_db 100 :: string RunningNode"
  let ?p1 = "Inr (RegisterSlot [9] [7])" and ?p2 = "Inr (Write [7] [1, 2])" and ?p3 = "Inr (Fetch [9])"
  let ?s1 = "serve_connection (\<lambda>a. a) ''owner'' ?p1 ?s0"
  let ?s2 = "serve_connection (\<lambda>a. a) ''bob'' ?p2 ?s1"
  let ?ev = "\<lambda>i p s. Answered p (fst (answer (\<lambda>a. a) (rn_clock s) i p (rn_handler s)))"
  let ?step = "node_event_step (\<lambda>a. a) (\<lambda>_. True) 0"
  have go_on: "steps ?step ?s0 (tr @ [?ev i p s]) (serve_connection (\<lambda>a. a) i p s)"
    if "steps ?step ?s0 tr s" for s :: "string RunningNode" and tr i p
    using that by (intro more_steps[OF that] node_event_step.ev_connection)
  have "steps ?step ?s0 ([] @ [?ev ''owner'' ?p1 ?s0]) ?s1" by (rule go_on[OF no_steps])
  from go_on[OF this, of ?p2 "''bob''"]
  have "steps ?step ?s0 (([] @ [?ev ''owner'' ?p1 ?s0]) @ [?ev ''bob'' ?p2 ?s1]) ?s2" by simp
  from go_on[OF this, of ?p3 "''owner''"]
  have "steps ?step ?s0 [?ev ''owner'' ?p1 ?s0, ?ev ''bob'' ?p2 ?s1, ?ev ''owner'' ?p3 ?s2] sample_served"
    by (simp add: sample_served_def)
  moreover have "[?ev ''owner'' ?p1 ?s0, ?ev ''bob'' ?p2 ?s1, ?ev ''owner'' ?p3 ?s2] = sample_trace"
    by (simp add: sample_trace_eval)
  ultimately show ?thesis by simp
qed

theorem node_implements_mailbox_witness:
  "steps (box_step (\<lambda>a. a) [9]) (box_of empty_node_db) sample_trace (box_of (node_state sample_served))"
  by (rule node_implements_mailbox[OF sample_trace_steps node_wf_empty])

text \<open>
  C14: the mailbox holds exactly what it accepted. In every trace of a node that starts with an
  empty database, whatever else happens in between, the answer to the owner's fetch contains, with
  multiplicity, exactly the blobs of the writes that were answered with success before it; and for
  every slot hash no more writes were accepted than the owner had opened the slot.
\<close>

theorem fetched_is_accepted:
  assumes "steps (node_event_step sha valid lag) (spawn key empty_node_db now)
      (tr @ [Answered (Inr (Fetch key)) (Ok (Blobs bs))]) s"
  shows "mset (map blob_data bs) = mset (map snd (accepted tr))
    \<and> length (filter (\<lambda>(a, b). sha a = h) (accepted tr)) \<le> length (filter (opens key h) tr)"
proof -
  let ?m0 = "box_of empty_node_db"
  have "steps (box_step sha key) ?m0 (tr @ [Answered (Inr (Fetch key)) (Ok (Blobs bs))]) (box_of (node_state s))"
    using node_sim.traces_included[OF assms(1) node_inv_spawn[OF node_wf_empty]] by simp
  then obtain m where run: "steps (box_step sha key) ?m0 tr m"
    and last: "box_step sha key m (Answered (Inr (Fetch key)) (Ok (Blobs bs))) (box_of (node_state s))"
    unfolding steps_snoc_iff by blast
  from last have listed: "lists_blobs (box_blobs m) bs" by cases (auto simp: not_the_owner_def)
  have "dom (box_blobs ?m0) = {}" by (auto simp: box_of_def stored_def empty_node_db_def)
  then have "held ?m0 = {#}" by (simp add: held_def)
  moreover have "finite (dom (box_blobs ?m0))" by (simp add: box_of_def finite_stored)
  ultimately have "held m = mset (map snd (accepted tr))" using box_run_held[OF run] by simp
  with held_listed[OF listed] box_run_slots[OF run, of h] show ?thesis by (simp add: box_of_def)
qed

theorem fetched_is_accepted_witness:
  "mset (map blob_data [\<lparr>blob_id = 1, blob_data = [1, 2], blob_delivered = False\<rparr>])
     = mset (map snd (accepted [Answered (Inr (RegisterSlot [9] [7])) (Ok RespOk),
                                Answered (Inr (Write [7] [1, 2])) (Ok RespOk)]))"
proof -
  let ?tr = "[Answered (Inr (RegisterSlot [9] [7])) (Ok RespOk), Answered (Inr (Write [7] [1, 2])) (Ok RespOk)]"
  let ?bs = "[\<lparr>blob_id = 1, blob_data = [1, 2], blob_delivered = False\<rparr>]"
  have "steps (node_event_step (\<lambda>a. a) (\<lambda>_. True) 0) (spawn [9] empty_node_db 100)
      (?tr @ [Answered (Inr (Fetch [9])) (Ok (Blobs ?bs))]) sample_served"
    using sample_trace_steps by (simp add: sample_trace_def)
  from conjunct1[OF fetched_is_accepted[OF this]] show ?thesis .
qed

end
