(* ===== verification/Node_Work.thy ===== *)
theory Node_Work
  imports Node_Spec
begin

text \<open>
  How much dialling the node does: every attempt that ends uses up one of the three that a scheduled
  delivery has. The argument is a measure: the attempts that the entries of the queue have left, and
  the attempts in flight that are not among these, since the entry is gone or has been scheduled
  again. Only the owner's requests raise it, and the wall clock when it is set forward.
\<close>

section \<open>Attempts left\<close>

definition attempts_left :: "(bytes \<Rightarrow> retry_row option) \<Rightarrow> nat" where
  "attempts_left q = (\<Sum>m \<in> dom q. MAX_RETRY_ATTEMPTS - nat (rr_attempts (the (q m))))"

fun row_left :: "retry_row option \<Rightarrow> nat" where
  "row_left None = 0"
| "row_left (Some r) = MAX_RETRY_ATTEMPTS - nat (rr_attempts r)"

lemma attempts_left_split:
  assumes "finite (dom q)"
  shows "attempts_left q = attempts_left (q(m := None)) + row_left (q m)"
proof (cases "q m")
  case None
  then have "q(m := None) = q" by auto
  with None show ?thesis by simp
next
  case (Some r)
  then have "m \<in> dom q" by auto
  have "attempts_left q = row_left (q m)
      + (\<Sum>x \<in> dom q - {m}. MAX_RETRY_ATTEMPTS - nat (rr_attempts (the (q x))))"
    unfolding attempts_left_def by (subst sum.remove[OF assms \<open>m \<in> dom q\<close>]) (simp add: Some)
  also have "(\<Sum>x \<in> dom q - {m}. MAX_RETRY_ATTEMPTS - nat (rr_attempts (the (q x)))) = attempts_left (q(m := None))"
    unfolding attempts_left_def by (intro sum.cong) auto
  finally show ?thesis by simp
qed

lemma attempts_left_upd:
  assumes "finite (dom q)"
  shows "attempts_left (q(m := x)) = attempts_left (q(m := None)) + row_left x"
  using attempts_left_split[of "q(m := x)" m] assms by simp

lemma dom_pending: "dom (pending db) \<subseteq> set (map rr_msg_id (retry_entries db))"
proof
  fix m assume "m \<in> dom (pending db)"
  then have "lookup_row rr_msg_id m (retry_entries db) \<noteq> None" by (auto simp: pending_def)
  then show "m \<in> set (map rr_msg_id (retry_entries db))" by (simp add: lookup_row_None_iff)
qed

lemma finite_pending: "finite (dom (pending db))"
  using dom_pending finite_set by (rule finite_subset)

lemmas queue_split = attempts_left_split[OF finite_pending]
lemmas queue_upd = attempts_left_upd[OF finite_pending]

lemma attempts_left_le: "attempts_left (pending db) \<le> 3 * length (retry_entries db)"
proof -
  have "card (dom (pending db)) \<le> length (retry_entries db)"
    using card_mono[OF finite_set dom_pending[of db]] card_length[of "map rr_msg_id (retry_entries db)"] by simp
  moreover have "attempts_left (pending db) \<le> of_nat (card (dom (pending db))) * 3"
    unfolding attempts_left_def by (rule sum_bounded_above) (simp add: MAX_RETRY_ATTEMPTS_def)
  ultimately show ?thesis by simp
qed

section \<open>What a step does to them\<close>

fun ends_dial :: "node_event \<Rightarrow> bool" where
  "ends_dial (DialSucceeded m) = True"
| "ends_dial (DialFailed m) = True"
| "ends_dial _ = False"

fun schedules :: "bytes \<Rightarrow> node_event \<Rightarrow> bool" where
  "schedules key (Answered p r) = (scheduled_msg key p \<noteq> None)"
| "schedules key _ = False"

lemma dom_take_due: "retry_wf db \<Longrightarrow> dom (pending (snd (take_due now db))) = dom (pending db)"
  by (auto simp: pending_take_due split: if_splits)

lemma left_take_due: "retry_wf db \<Longrightarrow> attempts_left (pending (snd (take_due now db))) = attempts_left (pending db)"
  unfolding attempts_left_def by (rule sum.cong) (auto simp: dom_take_due pending_take_due)

lemma left_delivered:
  assumes "retry_wf db" and "m \<in> dom (pending db)"
  shows "attempts_left (pending (mark_delivered m db)) + 1 \<le> attempts_left (pending db)"
proof -
  from assms(2) obtain r where r: "pending db m = Some r" by auto
  with pending_bounds[OF assms(1) r] have "1 \<le> row_left (pending db m)"
    by (simp add: MAX_RETRY_ATTEMPTS_def) linarith
  with queue_split[of db m] show ?thesis unfolding pending_mark_delivered by linarith
qed

lemma left_failed:
  assumes "retry_wf db" and "m \<in> dom (pending db)"
  shows "attempts_left (pending (snd (mark_failed now m db))) + 1 \<le> attempts_left (pending db)"
proof -
  from assms(2) obtain r where r: "pending db m = Some r" by auto
  let ?q = "pending (snd (mark_failed now m db))"
  have upd: "?q = (pending db)(m := ?q m)" by (simp add: pending_mark_failed[OF assms(1)])
  from r pending_bounds[OF assms(1) r] have "row_left (?q m) + 1 \<le> row_left (pending db m)"
    by (auto simp: pending_mark_failed[OF assms(1)] MAX_RETRY_ATTEMPTS_def nat_add_distrib)
  moreover have "attempts_left ?q = attempts_left ((pending db)(m := None)) + row_left (?q m)"
    by (subst upd) (rule queue_upd)
  ultimately show ?thesis using queue_split[of db m] by linarith
qed

section \<open>The measure\<close>

text \<open>
  A message whose entry will not be due before an attempt for it that is in flight has ended: this
  attempt is one of those the entry has left.
\<close>

definition covered :: "'id RunningNode \<Rightarrow> bytes set" where
  "covered s = {m. \<exists>d t0 t. (d, t0) \<in> set (rn_in_flight s) \<and> due_msg_id d = m
     \<and> due_time (node_state s) m = Some t \<and> rn_clock s + (t0 + IN_FLIGHT_GRACE - rn_up s) \<le> t}"

definition work :: "'id RunningNode \<Rightarrow> int" where
  "work s = int (attempts_left (pending (node_state s))) + int (length (rn_in_flight s)) - int (card (covered s))"

lemma coveredI:
  assumes "(d, t0) \<in> set (rn_in_flight s)" and "due_msg_id d = m" and "due_time (node_state s) m = Some t"
    and "rn_clock s + (t0 + IN_FLIGHT_GRACE - rn_up s) \<le> t"
  shows "m \<in> covered s"
  using assms unfolding covered_def by blast

lemma coveredE:
  assumes "m \<in> covered s"
  obtains d t0 t where "(d, t0) \<in> set (rn_in_flight s)" and "due_msg_id d = m" and "due_time (node_state s) m = Some t"
    and "rn_clock s + (t0 + IN_FLIGHT_GRACE - rn_up s) \<le> t"
  using assms unfolding covered_def by blast

lemma covered_in_flight: "covered s \<subseteq> set (in_flight_ids s)"
proof
  fix m assume "m \<in> covered s"
  then obtain d t0 where "(d, t0) \<in> set (rn_in_flight s)" "due_msg_id d = m" by (rule coveredE)
  then show "m \<in> set (in_flight_ids s)" unfolding in_flight_iff by blast
qed

lemma finite_covered [simp]: "finite (covered s)"
  using covered_in_flight finite_set by (rule finite_subset)

lemma card_covered: "card (covered s) \<le> length (rn_in_flight s)"
  using card_mono[OF finite_set covered_in_flight[of s]] card_length[of "in_flight_ids s"]
  by (simp add: in_flight_ids_def)

lemma covered_pending: "m \<in> covered s \<Longrightarrow> m \<in> dom (pending (node_state s))"
  by (auto simp: covered_def due_time_def)

lemma covered_not_due:
  assumes "timely lag s" and "lag < 2000" and "m \<in> covered s"
  shows "\<not> (\<exists>t. due_time (node_state s) m = Some t \<and> t \<le> rn_clock s)"
  using assms by (fastforce simp: covered_def timely_def RETRY_DIAL_TIMEOUT_def IN_FLIGHT_GRACE_def)

lemma card_remove_covered: "covered s - {m} \<subseteq> covered s' \<Longrightarrow> card (covered s) \<le> card (covered s') + of_bool (m \<in> covered s)"
  using card_mono[of "covered s'" "covered s - {m}"] by (cases "m \<in> covered s") auto

lemma covered_tick:
  assumes "timely lag s" and "lag < 2000" and wf: "retry_wf (node_state s)"
  shows "card (covered s) + length (fst (take_due (rn_clock s) (node_state s))) \<le> card (covered (sweep_tick s))"
proof -
  let ?due = "fst (take_due (rn_clock s) (node_state s))" and ?ids = "map due_msg_id (fst (take_due (rn_clock s) (node_state s)))"
  note due_iff = take_due_iff[OF wf, of _ "rn_clock s"]
  have "covered s \<inter> set ?ids = {}" using covered_not_due[OF assms(1,2)] due_iff by blast
  moreover have "set ?ids \<subseteq> covered (sweep_tick s)"
  proof
    fix m assume "m \<in> set ?ids"
    then obtain d where d: "d \<in> set ?due" "due_msg_id d = m" by auto
    from \<open>m \<in> set ?ids\<close> due_iff obtain t where "due_time (node_state s) m = Some t" "t \<le> rn_clock s" by blast
    then have "due_time (node_state (sweep_tick s)) m = Some (rn_clock s + IN_FLIGHT_GRACE)"
      by (simp add: take_due_due_time[OF wf])
    with d show "m \<in> covered (sweep_tick s)" unfolding covered_def by auto
  qed
  moreover have "covered s \<subseteq> covered (sweep_tick s)"
  proof
    fix m assume m: "m \<in> covered s"
    with covered_not_due[OF assms(1,2) m] take_due_due_time[OF wf, of "rn_clock s" m] show "m \<in> covered (sweep_tick s)"
      unfolding covered_def by force
  qed
  ultimately have "card (covered s \<union> set ?ids) = card (covered s) + card (set ?ids)" "covered s \<union> set ?ids \<subseteq> covered (sweep_tick s)"
    by (auto intro: card_Un_disjoint)
  moreover have "card (set ?ids) = length ?due" using distinct_card[OF take_due_distinct[OF wf]] by simp
  ultimately show ?thesis using card_mono[OF finite_covered, of "covered s \<union> set ?ids" "sweep_tick s"] by simp
qed

lemma covered_finish:
  assumes "\<And>m. m \<noteq> due_msg_id (fst task) \<Longrightarrow> pending db m = pending (node_state s) m"
  shows "covered s - {due_msg_id (fst task)} \<subseteq> covered (finish_task task (set_db db s))"
proof
  fix m assume m: "m \<in> covered s - {due_msg_id (fst task)}"
  then obtain d t0 t where d: "(d, t0) \<in> set (rn_in_flight s)" "due_msg_id d = m" "due_time (node_state s) m = Some t"
    "rn_clock s + (t0 + IN_FLIGHT_GRACE - rn_up s) \<le> t" by (auto elim: coveredE)
  have "(d, t0) \<noteq> task" using d(2) m by auto
  then have "(d, t0) \<in> set (remove1 task (rn_in_flight s))" using d(1) by simp
  moreover have "due_time db m = Some t" using d(3) assms m by (metis DiffD2 due_time_cong singletonI)
  ultimately show "m \<in> covered (finish_task task (set_db db s))" using d by (intro coveredI[of d t0]) simp_all
qed

text \<open>An attempt ends.\<close>

lemma work_finish:
  assumes task: "task \<in> set (rn_in_flight s)"
    and others: "\<And>m. m \<noteq> due_msg_id (fst task) \<Longrightarrow> pending db m = pending (node_state s) m"
    and queued: "due_msg_id (fst task) \<in> dom (pending (node_state s))
      \<Longrightarrow> attempts_left (pending db) + 1 \<le> attempts_left (pending (node_state s))"
    and gone: "due_msg_id (fst task) \<notin> dom (pending (node_state s)) \<Longrightarrow> pending db = pending (node_state s)"
  shows "work (finish_task task (set_db db s)) + 1 \<le> work s"
proof -
  let ?s' = "finish_task task (set_db db s)" and ?m = "due_msg_id (fst task)"
  have "int (length (rn_in_flight ?s')) = int (length (rn_in_flight s)) - 1"
    using length_pos_if_in_set[OF task] by (simp only: tasks_simps length_remove1 task if_True)
  moreover from card_remove_covered[OF covered_finish[where db = db and task = task and s = s, OF others]]
  have "card (covered s) \<le> card (covered ?s') + of_bool (?m \<in> covered s)" .
  moreover have "int (attempts_left (pending db)) + of_bool (?m \<in> covered s) \<le> int (attempts_left (pending (node_state s)))"
    using queued gone covered_pending[of ?m s] by (cases "?m \<in> dom (pending (node_state s))") (auto split: if_splits)
  ultimately show ?thesis by (cases "?m \<in> covered s") (simp_all add: work_def)
qed

text \<open>A connection is served.\<close>

lemma work_connection:
  assumes wf: "retry_wf (node_state s)"
  shows "work (serve_connection sha i p s)
    \<le> work s + 3 * of_bool (scheduled_msg (mh_mailbox_key (rn_handler s)) p \<noteq> None)"
proof (cases "scheduled_msg (mh_mailbox_key (rn_handler s)) p")
  case None
  then have same: "pending (node_state (serve_connection sha i p s)) = pending (node_state s)"
    by (simp add: serve_pending_same)
  then have "due_time (node_state (serve_connection sha i p s)) = due_time (node_state s)"
    by (simp add: due_time_def fun_eq_iff)
  with same show ?thesis using None by (simp add: work_def covered_def)
next
  case (Some m)
  then obtain r where r: "rr_attempts r = 0"
    "pending (node_state (serve_connection sha i p s)) = (pending (node_state s))(m \<mapsto> r)"
    by (rule serve_pending_scheduled)
  let ?q = "pending (node_state s)"
  have "attempts_left ?q = attempts_left (?q(m := None)) + row_left (?q m)" by (rule queue_split)
  moreover have "attempts_left (?q(m \<mapsto> r)) = attempts_left (?q(m := None)) + row_left (Some r)" by (rule queue_upd)
  moreover have "of_bool (m \<in> covered s) \<le> row_left (?q m)"
  proof (cases "m \<in> covered s")
    case True
    then obtain x where x: "?q m = Some x" using covered_pending by blast
    with pending_bounds[OF wf x] show ?thesis by (simp add: MAX_RETRY_ATTEMPTS_def) linarith
  qed simp
  moreover have "covered s - {m} \<subseteq> covered (serve_connection sha i p s)"
  proof
    fix x assume x: "x \<in> covered s - {m}"
    then obtain d t0 t where "(d, t0) \<in> set (rn_in_flight s)" "due_msg_id d = x" "due_time (node_state s) x = Some t"
      "rn_clock s + (t0 + IN_FLIGHT_GRACE - rn_up s) \<le> t" by (auto elim: coveredE)
    with x show "x \<in> covered (serve_connection sha i p s)"
      by (intro coveredI[of d t0]) (simp_all add: due_time_def r(2))
  qed
  note card_remove_covered[OF this]
  ultimately show ?thesis using r(1) Some by (simp add: work_def r(2) MAX_RETRY_ATTEMPTS_def)
qed

text \<open>The clocks move, the wall clock no further than the other.\<close>

lemma work_time:
  assumes "a \<le> b"
  shows "work (s\<lparr>rn_clock := rn_clock s + a, rn_up := rn_up s + b\<rparr>) \<le> work s"
proof -
  have "covered s \<subseteq> covered (s\<lparr>rn_clock := rn_clock s + a, rn_up := rn_up s + b\<rparr>)"
    using assms by (fastforce simp: covered_def)
  from card_mono[OF finite_covered this] show ?thesis by (simp add: work_def)
qed

fun set_forward :: "node_event \<Rightarrow> bool" where
  "set_forward (ClockSet d) = (0 < d)"
| "set_forward _ = False"

lemma work_step:
  assumes step: "node_event_step sha valid lag s ev s'" and inv: "run_inv lag s" and lag: "lag < 2000"
    and key: "mh_mailbox_key (rn_handler s) = key" and "\<not> set_forward ev"
  shows "of_bool (ends_dial ev) + work s' \<le> work s + 3 * of_bool (schedules key ev)"
proof -
  have rwf: "retry_wf (node_state s)" and timely: "timely lag s" using inv by (auto simp: run_inv_def node_wf_def)
  from step show ?thesis
  proof cases
    case (ev_connection p i)
    with work_connection[OF rwf, of sha i p] key show ?thesis by simp
  next
    case ev_tick
    with covered_tick[OF timely lag rwf] show ?thesis by (simp add: work_def left_take_due[OF rwf])
  next
    case (ev_delivered task)
    let ?db = "mark_delivered (due_msg_id (fst task)) (node_state s)"
    have "work (finish_task task (set_db ?db s)) + 1 \<le> work s"
    proof (rule work_finish[OF ev_delivered(3)])
      show "due_msg_id (fst task) \<notin> dom (pending (node_state s)) \<Longrightarrow> pending ?db = pending (node_state s)"
        by (auto simp: pending_mark_delivered fun_eq_iff)
    qed (simp_all add: pending_mark_delivered left_delivered[OF rwf, unfolded pending_mark_delivered, simplified])
    with ev_delivered show ?thesis by (simp add: attempt_delivered_def)
  next
    case (ev_failed task)
    let ?db = "snd (mark_failed (rn_clock s) (due_msg_id (fst task)) (node_state s))"
    have "work (finish_task task (set_db ?db s)) + 1 \<le> work s"
    proof (rule work_finish[OF ev_failed(3)])
      show "due_msg_id (fst task) \<in> dom (pending (node_state s))
          \<Longrightarrow> attempts_left (pending ?db) + 1 \<le> attempts_left (pending (node_state s))"
        by (rule left_failed[OF rwf])
      show "due_msg_id (fst task) \<notin> dom (pending (node_state s)) \<Longrightarrow> pending ?db = pending (node_state s)"
        by (auto simp: pending_mark_failed[OF rwf] fun_eq_iff domIff)
    qed (simp add: pending_mark_failed[OF rwf])
    with ev_failed show ?thesis by (simp add: attempt_failed_def)
  next
    case ev_restarted
    then show ?thesis using card_covered[of s] by (simp add: work_def covered_def)
  next
    case (ev_wait d)
    with work_time[of d d s] show ?thesis by simp
  next
    case (ev_clock_set d)
    with assms(5) work_time[of d 0 s] show ?thesis by simp
  qed
qed

lemma work_steps:
  assumes "steps (node_event_step sha valid lag) s0 tr s" and "run_inv lag s0" and "0 \<le> lag" and "lag < 2000"
    and "mh_mailbox_key (rn_handler s0) = key" and "\<forall>ev \<in> set tr. \<not> set_forward ev"
  shows "run_inv lag s \<and> mh_mailbox_key (rn_handler s) = key
    \<and> int (length (filter ends_dial tr)) + work s \<le> work s0 + 3 * int (length (filter (schedules key) tr))"
  using assms(1,6)
proof induction
  case no_steps
  with assms(2,5) show ?case by simp
next
  case (more_steps tr s ev s')
  then have inv: "run_inv lag s" and key: "mh_mailbox_key (rn_handler s) = key"
    and le: "int (length (filter ends_dial tr)) + work s \<le> work s0 + 3 * int (length (filter (schedules key) tr))"
    by auto
  have "run_inv lag s'" using run_inv_step[OF _ inv assms(3)] more_steps.hyps(2) node_step_event by blast
  moreover have "mh_mailbox_key (rn_handler s') = key" using node_event_step_key[OF more_steps.hyps(2)] key by simp
  moreover have "of_bool (ends_dial ev) + work s' \<le> work s + 3 * of_bool (schedules key ev)"
    using work_step[OF more_steps.hyps(2) inv assms(4) key] more_steps.prems by simp
  moreover have "length (filter ends_dial (tr @ [ev])) = length (filter ends_dial tr) + of_bool (ends_dial ev)"
    "length (filter (schedules key) (tr @ [ev])) = length (filter (schedules key) tr) + of_bool (schedules key ev)"
    by simp_all
  ultimately show ?case using le by (simp del: filter_append length_append)
qed

section \<open>Properties\<close>

text \<open>
  C23: the dialling stops. In every trace of the running node in which the wall clock is not set
  forward, the number of dial attempts that ended, in success or in failure, is at most three for
  each delivery that was queued at the start and three for each time the owner schedules one, also
  one that is being dialled, however often the sweep ticks and the node is restarted; so when the
  owner stops scheduling, only finitely many attempts remain.
\<close>

theorem dialling_terminates:
  assumes "steps (node_event_step sha valid lag) (spawn key db now) tr s"
    and "node_wf db" and "0 \<le> lag" and "lag < IN_FLIGHT_GRACE - RETRY_DIAL_TIMEOUT"
    and "\<forall>ev \<in> set tr. \<not> set_forward ev"
  shows "length (filter ends_dial tr)
    \<le> MAX_RETRY_ATTEMPTS * (length (retry_entries db) + length (filter (schedules key) tr))"
proof -
  have lag: "lag < 2000" using assms(4) by (simp add: IN_FLIGHT_GRACE_def RETRY_DIAL_TIMEOUT_def)
  from work_steps[OF assms(1) run_inv_spawn[OF assms(2)] assms(3) lag _ assms(5), of key]
  have "int (length (filter ends_dial tr)) + work s
      \<le> work (spawn key db now :: 'a RunningNode) + 3 * int (length (filter (schedules key) tr))" by simp
  moreover have "work (spawn key db now :: 'a RunningNode) = int (attempts_left (pending db))"
    by (simp add: work_def covered_def) (simp add: spawn_def)
  moreover have "0 \<le> work s" using card_covered[of s] by (simp add: work_def)
  ultimately show ?thesis using attempts_left_le[of db] by (simp add: MAX_RETRY_ATTEMPTS_def)
qed

text \<open>The owner schedules a message, it is dialled, scheduled again while that is under way, and the dial fails.\<close>

definition dial_trace :: "node_event list" where
  "dial_trace = [Answered (Inr (ScheduleRetry [9] [1] [2] [3])) (Ok RespOk), Silent,
     Answered (Inr (ScheduleRetry [9] [1] [2] [3])) (Ok RespOk), DialFailed [1]]"

theorem dialling_terminates_witness:
  "length (filter ends_dial dial_trace) \<le> 3 * (0 + length (filter (schedules [9]) dial_trace))
   \<and> length (filter ends_dial dial_trace) = 1"
proof -
  let ?s0 = "spawn [9] empty_node_db 100 :: string RunningNode"
  let ?p = "Inr (ScheduleRetry [9] [1] [2] [3])"
  let ?s1 = "serve_connection (\<lambda>a. a) ''owner'' ?p ?s0" and ?s3 = "serve_connection (\<lambda>a. a) ''owner'' ?p sample_run"
  let ?step = "node_event_step (\<lambda>a. a) (\<lambda>_. True) 0"
  let ?task = "hd (rn_in_flight sample_run)"
  have answer: "fst (answer (\<lambda>a. a) (rn_clock s) ''owner'' ?p (rn_handler s)) = Ok RespOk"
    if "mh_mailbox_key (rn_handler s) = [9]" for s :: "string RunningNode"
    using that by (simp add: answer_def Let_def)
  have keys: "mh_mailbox_key (rn_handler ?s0) = [9]" "mh_mailbox_key (rn_handler sample_run) = [9]"
    by (simp_all add: sample_run_def)
  have a: "?step ?s0 (Answered ?p (Ok RespOk)) ?s1"
    using node_event_step.ev_connection[of "\<lambda>a. a" "\<lambda>_. True" 0 ?s0 ?p "''owner''"] unfolding answer[OF keys(1)] .
  have b: "?step ?s1 Silent sample_run" unfolding sample_run_def by (rule node_event_step.ev_tick)
  have c: "?step sample_run (Answered ?p (Ok RespOk)) ?s3"
    using node_event_step.ev_connection[of "\<lambda>a. a" "\<lambda>_. True" 0 sample_run ?p "''owner''"] unfolding answer[OF keys(2)] .
  have "rn_in_flight sample_run \<noteq> []" "due_msg_id (fst ?task) = [1]" by (simp_all add: sample_run_eval)
  then have d: "?step ?s3 (DialFailed [1]) (attempt_failed ?task ?s3)"
    using node_event_step.ev_failed[of ?task ?s3 "\<lambda>a. a" "\<lambda>_. True" 0] by simp
  note more = more_steps[where step = ?step]
  from more[OF more[OF more[OF more[OF no_steps a] b] c] d]
  have "steps ?step ?s0 dial_trace (attempt_failed ?task ?s3)" by (simp add: dial_trace_def)
  from dialling_terminates[OF this node_wf_empty] show ?thesis
    by (simp add: IN_FLIGHT_GRACE_def RETRY_DIAL_TIMEOUT_def MAX_RETRY_ATTEMPTS_def empty_node_db_def)
      (simp add: dial_trace_def)
qed

end
