(* ===== verification/Crypto_Backup.thy ===== *)
theory Crypto_Backup
  imports Proto_Padding
begin

text \<open>
  \<^verbatim>\<open>crates/pm-crypto/src/error.rs\<close> and \<^verbatim>\<open>backup.rs\<close>: the encryption envelope of a
  backup. XChaCha20-Poly1305 (the \<^verbatim>\<open>chacha20poly1305\<close> crate) is a parameter: encryption and
  decryption under a key and a nonce, \<open>None\<close> for a refusal; the nonce drawn from the operating
  system is an argument. The padding is the second instance of the \<open>length_prefixed\<close> locale.
\<close>

section \<open>Errors of the crypto layer\<close>

datatype CryptoError =
    InvalidMnemonic string
  | SessionCreation string
  | Encryption string
  | Decryption string
  | MalformedMessage string

section \<open>Padding to powers of two\<close>

definition NONCE_LEN :: nat where
  "NONCE_LEN = 24"

definition MIN_PADDED_LEN :: nat where
  "MIN_PADDED_LEN = 4096"

definition BACKUP_LEN_PREFIX_SIZE :: nat where
  "BACKUP_LEN_PREFIX_SIZE = 8"

text \<open>\<^verbatim>\<open>usize::next_power_of_two\<close>: double from one until it is large enough.\<close>

function double_until :: "nat \<Rightarrow> nat \<Rightarrow> nat" where
  "double_until n p = (if n \<le> p \<or> p = 0 then p else double_until n (2 * p))"
  by auto
termination by (relation "measure (\<lambda>(n, p). n - p)") auto

declare double_until.simps [simp del]

definition next_power_of_two :: "nat \<Rightarrow> nat" where
  "next_power_of_two n = double_until n 1"

definition backup_bucket :: "nat \<Rightarrow> nat" where
  "backup_bucket n = max (next_power_of_two (n + BACKUP_LEN_PREFIX_SIZE)) MIN_PADDED_LEN"

text \<open>\<^verbatim>\<open>Vec::with_capacity\<close> panics above \<^verbatim>\<open>isize::MAX\<close> bytes.\<close>

definition backup_pad :: "bytes \<Rightarrow> (bytes, CryptoError) outcome" where
  "backup_pad data =
     (let bucket = backup_bucket (length data) in
      if bucket > 2 ^ 63 - 1 then Panic
      else Ok (resize bucket 0 (be_encode BACKUP_LEN_PREFIX_SIZE (length data) @ data)))"

text \<open>
  The sum \<^verbatim>\<open>LEN_PREFIX_SIZE + declared\<close> is a 64-bit one. When it overflows, a debug build
  panics on the addition; a release build wraps to a value below the prefix size, passes the
  bounds check and panics on the slice.
\<close>

definition backup_unpad :: "bytes \<Rightarrow> (bytes, CryptoError) outcome" where
  "backup_unpad padded =
     (if length padded < BACKUP_LEN_PREFIX_SIZE
      then Err (Decryption ''padded backup buffer shorter than its length prefix'')
      else
        let declared = be_decode (take BACKUP_LEN_PREFIX_SIZE padded) in
        if BACKUP_LEN_PREFIX_SIZE + declared \<ge> 2 ^ 64 then Panic
        else if BACKUP_LEN_PREFIX_SIZE + declared > length padded
        then Err (Decryption ''padded backup length prefix exceeds buffer'')
        else Ok (take declared (drop BACKUP_LEN_PREFIX_SIZE padded)))"

section \<open>Encryption\<close>

record aead =
  aead_encrypt :: "bytes \<Rightarrow> bytes \<Rightarrow> bytes \<Rightarrow> bytes option"
  aead_decrypt :: "bytes \<Rightarrow> bytes \<Rightarrow> bytes \<Rightarrow> bytes option"

definition encrypt_backup :: "aead \<Rightarrow> bytes \<Rightarrow> bytes \<Rightarrow> bytes \<Rightarrow> (bytes, CryptoError) outcome" where
  "encrypt_backup a backup_key nonce plaintext =
     bind_outcome (backup_pad plaintext)
       (\<lambda>padded. case aead_encrypt a backup_key nonce padded of
           None \<Rightarrow> Panic
         | Some ciphertext \<Rightarrow> Ok (nonce @ ciphertext))"

definition decrypt_backup :: "aead \<Rightarrow> bytes \<Rightarrow> bytes \<Rightarrow> (bytes, CryptoError) outcome" where
  "decrypt_backup a backup_key blob =
     (if length blob < NONCE_LEN then Err (Decryption ''backup blob shorter than a nonce'')
      else
        case aead_decrypt a backup_key (take NONCE_LEN blob) (drop NONCE_LEN blob) of
          None \<Rightarrow> Err (Decryption ''backup decryption failed'')
        | Some padded \<Rightarrow> backup_unpad padded)"

text \<open>
  What the cipher documents: what it encrypts it decrypts under the same key and nonce, every
  plaintext up to its limit of \<open>2 ^ 38 - 64\<close> bytes is encrypted, and a ciphertext is 16 bytes
  (the tag) longer than its plaintext.
\<close>

definition aead_correct :: "aead \<Rightarrow> bool" where
  "aead_correct a \<longleftrightarrow>
     (\<forall>k n p c. aead_encrypt a k n p = Some c \<longrightarrow> aead_decrypt a k n c = Some p)
   \<and> (\<forall>k n p. length p \<le> 2 ^ 38 - 64 \<longrightarrow>
        (\<exists>c. aead_encrypt a k n p = Some c \<and> length c = length p + 16))"

section \<open>The padding\<close>

lemma double_until_ge: "0 < p \<Longrightarrow> n \<le> double_until n p"
  by (induction n p rule: double_until.induct) (subst double_until.simps, auto)

lemma double_until_least:
  assumes "0 < p" and "n \<le> p * 2 ^ k"
  shows "double_until n p \<le> p * 2 ^ k"
  using assms
proof (induction k arbitrary: p)
  case 0
  then show ?case by (simp add: double_until.simps)
next
  case (Suc k)
  show ?case
  proof (cases "n \<le> p")
    case True
    then show ?thesis by (subst double_until.simps) simp
  next
    case False
    with Suc.IH[of "2 * p"] Suc.prems show ?thesis
      by (subst double_until.simps) (simp add: mult.assoc mult.left_commute)
  qed
qed

lemma next_power_of_two_ge: "n \<le> next_power_of_two n"
  by (simp add: next_power_of_two_def double_until_ge)

lemma next_power_of_two_le: "n \<le> 2 ^ k \<Longrightarrow> next_power_of_two n \<le> 2 ^ k"
  using double_until_least[of 1 n k] by (simp add: next_power_of_two_def)

lemma backup_bucket_ge: "n + 8 \<le> backup_bucket n"
  using next_power_of_two_ge[of "n + 8"] by (simp add: backup_bucket_def BACKUP_LEN_PREFIX_SIZE_def)

lemma backup_bucket_le: "n + 8 \<le> 2 ^ k \<Longrightarrow> 12 \<le> k \<Longrightarrow> backup_bucket n \<le> 2 ^ k"
proof -
  assume "n + 8 \<le> 2 ^ k" "12 \<le> k"
  then have "(2 :: nat) ^ 12 \<le> 2 ^ k" by (intro power_increasing) auto
  with next_power_of_two_le[OF \<open>n + 8 \<le> 2 ^ k\<close>] show ?thesis
    by (simp add: backup_bucket_def BACKUP_LEN_PREFIX_SIZE_def MIN_PADDED_LEN_def)
qed

lemma double_until_mono:
  assumes "m \<le> n"
  shows "double_until m p \<le> double_until n p"
  using assms
proof (induction n p rule: double_until.induct)
  case (1 n p)
  show ?case
  proof (cases "m \<le> p \<or> p = 0")
    case True
    then have "double_until m p = p" by (simp add: double_until.simps)
    moreover have "p \<le> double_until n p"
    proof (cases "p = 0")
      case False
      then show ?thesis
      proof (cases "n \<le> p")
        case True
        then show ?thesis by (simp add: double_until.simps)
      next
        case False
        then show ?thesis using double_until_ge[of p n] \<open>p \<noteq> 0\<close> by simp
      qed
    qed simp
    ultimately show ?thesis by simp
  next
    case False
    with 1 show ?thesis by (subst (1 2) double_until.simps) auto
  qed
qed

lemma backup_bucket_mono: "m \<le> n \<Longrightarrow> backup_bucket m \<le> backup_bucket n"
  unfolding backup_bucket_def next_power_of_two_def
  by (intro max.mono double_until_mono) auto

lemma double_until_power:
  assumes "p = 2 ^ j"
  shows "(\<exists>k. double_until n p = 2 ^ k) \<and> (double_until n p = p \<or> double_until n p < 2 * n)"
  using assms
proof (induction n p arbitrary: j rule: double_until.induct)
  case (1 n p)
  show ?case
  proof (cases "n \<le> p")
    case True
    with 1(2) show ?thesis by (auto simp: double_until.simps)
  next
    case False
    with 1(1)[of "Suc j"] 1(2) have
      "(\<exists>k. double_until n (2 * p) = 2 ^ k) \<and> (double_until n (2 * p) = 2 * p \<or> double_until n (2 * p) < 2 * n)"
      by simp
    moreover have "double_until n p = double_until n (2 * p)"
      using False 1(2) by (subst double_until.simps) simp
    ultimately show ?thesis using False by auto
  qed
qed

lemma backup_bucket_power: "\<exists>k. backup_bucket n = 2 ^ k"
proof -
  have "(4096 :: nat) = 2 ^ 12" by simp
  then show ?thesis
    using double_until_power[of 1 0 "n + 8"]
    unfolding backup_bucket_def next_power_of_two_def BACKUP_LEN_PREFIX_SIZE_def MIN_PADDED_LEN_def max_def
    by (metis power_0)
qed

lemma backup_bucket_twice: "4096 < backup_bucket n \<Longrightarrow> backup_bucket n < 2 * (n + 8)"
  using double_until_power[of 1 0 "n + 8"]
  by (auto simp: backup_bucket_def next_power_of_two_def BACKUP_LEN_PREFIX_SIZE_def MIN_PADDED_LEN_def
      max_def split: if_splits)

definition backup_class :: "nat \<Rightarrow> nat option" where
  "backup_class n = (if backup_bucket n > 2 ^ 63 - 1 then None else Some (backup_bucket n))"

interpretation backup_padding: length_prefixed 8 backup_class "\<lambda>d. ok_value (backup_pad d)"
  "\<lambda>p. ok_value (backup_unpad p)"
proof
  fix n b assume "backup_class n = Some b"
  then have "b = backup_bucket n" "backup_bucket n \<le> 2 ^ 63 - 1"
    by (auto simp: backup_class_def split: if_splits)
  then show "n + 8 \<le> b \<and> n < 256 ^ 8 \<and> b < 2 ^ 63" using backup_bucket_ge[of n] by simp
next
  fix d
  show "ok_value (backup_pad d) =
    map_option (\<lambda>b. resize b 0 (be_encode 8 (length d) @ d)) (backup_class (length d))"
    by (simp add: backup_pad_def backup_class_def Let_def BACKUP_LEN_PREFIX_SIZE_def ok_value_def)
next
  fix p :: bytes
  assume "length p < 2 ^ 63" and "8 \<le> length p" and "8 + be_decode (take 8 p) \<le> length p"
  then show "ok_value (backup_unpad p) = Some (take (be_decode (take 8 p)) (drop 8 p))"
    by (simp add: backup_unpad_def BACKUP_LEN_PREFIX_SIZE_def Let_def ok_value_def)
qed

lemma backup_pad_Ok:
  assumes "length d + 8 \<le> 2 ^ 62"
  shows "\<exists>p. backup_pad d = Ok p \<and> length p = backup_bucket (length d)"
  using backup_bucket_le[OF assms] by (simp add: backup_pad_def Let_def)

lemma backup_unpad_pad: "backup_pad d = Ok p \<Longrightarrow> backup_unpad p = Ok d"
  using backup_padding.ps.unpad_pad[of d p] by simp

section \<open>Properties\<close>

text \<open>
  A backup can be read back, and its size says little. With a correct cipher, every
  plaintext of up to 128 GiB is encrypted without a panic into a blob of exactly 40 bytes more
  than its size class, the class being a power of two of at least 4096; decrypting it with the
  same key returns the plaintext.
\<close>

lemma backup_roundtrip:
  assumes "aead_correct a" and "length nonce = 24" and "length pt \<le> 2 ^ 37 - 8"
  shows "\<exists>blob. encrypt_backup a key nonce pt = Ok blob
     \<and> length blob = 40 + backup_bucket (length pt)
     \<and> decrypt_backup a key blob = Ok pt"
proof -
  have len: "length pt + 8 \<le> 2 ^ 37" using assms(3) by simp
  then have "length pt + 8 \<le> 2 ^ 62" by (rule order_trans) simp
  then obtain p where p: "backup_pad pt = Ok p" "length p = backup_bucket (length pt)"
    using backup_pad_Ok by blast
  have "length p \<le> 2 ^ 37" using backup_bucket_le[OF len] p(2) by simp
  then have "length p \<le> 2 ^ 38 - 64" by simp
  then obtain c where c: "aead_encrypt a key nonce p = Some c" "length c = length p + 16"
    using assms(1) unfolding aead_correct_def by blast
  from c(1) have "aead_decrypt a key nonce c = Some p"
    using assms(1) unfolding aead_correct_def by blast
  then have "decrypt_backup a key (nonce @ c) = Ok pt"
    using assms(2) backup_unpad_pad[OF p(1)] by (simp add: decrypt_backup_def NONCE_LEN_def)
  moreover have "encrypt_backup a key nonce pt = Ok (nonce @ c)"
    by (simp add: encrypt_backup_def p(1) c(1))
  ultimately show ?thesis using c(2) p(2) assms(2) by auto
qed

text \<open>A cipher with these properties, for instances: it appends a tag of zeros.\<close>

definition sample_aead :: aead where
  "sample_aead = \<lparr>aead_encrypt = (\<lambda>k n p. Some (p @ replicate 16 0)),
                  aead_decrypt = (\<lambda>k n c. if length c < 16 then None else Some (take (length c - 16) c))\<rparr>"

lemma sample_aead_correct: "aead_correct sample_aead"
  by (simp add: aead_correct_def sample_aead_def)

text \<open>
  The padding hides lengths within a size class. The bucket of a backup is a power of two
  that is at least 4096, large enough, and, above 4096, less than twice what has to fit; a longer
  backup that still fits the bucket is padded to the same length.
\<close>

lemma backup_bucket_is_tight:
  "n + 8 \<le> backup_bucket n \<and> 4096 \<le> backup_bucket n
   \<and> (\<exists>k. backup_bucket n = 2 ^ k)
   \<and> (4096 < backup_bucket n \<longrightarrow> backup_bucket n < 2 * (n + 8))
   \<and> (n \<le> m \<longrightarrow> m + 8 \<le> backup_bucket n \<longrightarrow> backup_bucket m = backup_bucket n)"
proof -
  obtain k where k: "backup_bucket n = 2 ^ k" using backup_bucket_power by blast
  have ge: "4096 \<le> backup_bucket n" by (simp add: backup_bucket_def MIN_PADDED_LEN_def)
  have "backup_bucket m = backup_bucket n" if "n \<le> m" "m + 8 \<le> backup_bucket n"
  proof (rule antisym)
    have "(2 :: nat) ^ 12 \<le> 2 ^ k" using ge k by simp
    then have "12 \<le> k" by (simp only: power_increasing_iff)
    with that(2) k show "backup_bucket m \<le> backup_bucket n" using backup_bucket_le[of m k] by simp
    show "backup_bucket n \<le> backup_bucket m" using that(1) by (rule backup_bucket_mono)
  qed
  with k ge backup_bucket_ge[of n] backup_bucket_twice[of n] show ?thesis by auto
qed

text \<open>What a padded buffer has to look like for its content to be read.\<close>

lemma backup_unpad_Ok_iff:
  "backup_unpad padded = Ok d \<longleftrightarrow> length d + 8 < 2 ^ 64 \<and> (\<exists>rest. padded = be_encode 8 (length d) @ d @ rest)"
proof
  assume "backup_unpad padded = Ok d"
  then have len: "8 \<le> length padded" and end_ok: "8 + be_decode (take 8 padded) \<le> length padded"
    and small: "8 + be_decode (take 8 padded) < 2 ^ 64" and d: "d = take (be_decode (take 8 padded)) (drop 8 padded)"
    by (auto simp: backup_unpad_def BACKUP_LEN_PREFIX_SIZE_def Let_def split: if_splits)
  then have declared: "length d = be_decode (take 8 padded)" by simp
  have "length (take 8 padded) = 8" using len by simp
  then have "be_encode 8 (length d) = take 8 padded" using be_encode_be_decode[of "take 8 padded"] by (simp add: declared)
  moreover have "d = take (length d) (drop 8 padded)" using d declared by simp
  then have "padded = take 8 padded @ d @ drop (length d) (drop 8 padded)" by (metis append_take_drop_id)
  ultimately show "length d + 8 < 2 ^ 64 \<and> (\<exists>rest. padded = be_encode 8 (length d) @ d @ rest)"
    using small declared by (metis add.commute)
next
  assume "length d + 8 < 2 ^ 64 \<and> (\<exists>rest. padded = be_encode 8 (length d) @ d @ rest)"
  then show "backup_unpad padded = Ok d"
    by (auto simp: backup_unpad_def BACKUP_LEN_PREFIX_SIZE_def Let_def)
qed

lemma backup_unpad_refused:
  "backup_unpad padded = Err err \<longleftrightarrow>
     length padded < 8 \<and> err = Decryption ''padded backup buffer shorter than its length prefix''
   \<or> 8 \<le> length padded \<and> length padded < 8 + be_decode (take 8 padded) \<and> be_decode (take 8 padded) < 2 ^ 64 - 8
       \<and> err = Decryption ''padded backup length prefix exceeds buffer''"
  "backup_unpad padded = Panic \<longleftrightarrow> 8 \<le> length padded \<and> 2 ^ 64 - 8 \<le> be_decode (take 8 padded)"
  by (auto simp: backup_unpad_def BACKUP_LEN_PREFIX_SIZE_def Let_def)

lemma decrypt_backup_steps:
  "length blob < 24 \<Longrightarrow> decrypt_backup a key blob = Err (Decryption ''backup blob shorter than a nonce'')"
  "24 \<le> length blob \<Longrightarrow> aead_decrypt a key (take 24 blob) (drop 24 blob) = None \<Longrightarrow>
     decrypt_backup a key blob = Err (Decryption ''backup decryption failed'')"
  "24 \<le> length blob \<Longrightarrow> aead_decrypt a key (take 24 blob) (drop 24 blob) = Some padded \<Longrightarrow>
     decrypt_backup a key blob = backup_unpad padded"
  by (simp_all add: decrypt_backup_def NONCE_LEN_def)

text \<open>The plaintext the cipher gives for a blob that is long enough.\<close>

definition opened :: "aead \<Rightarrow> bytes \<Rightarrow> bytes \<Rightarrow> bytes option" where
  "opened a key blob = (if length blob < 24 then None else aead_decrypt a key (take 24 blob) (drop 24 blob))"

lemma decrypt_backup_cases:
  obtains (short) "length blob < 24" "opened a key blob = None"
      "decrypt_backup a key blob = Err (Decryption ''backup blob shorter than a nonce'')"
  | (refused) "24 \<le> length blob" "opened a key blob = None"
      "decrypt_backup a key blob = Err (Decryption ''backup decryption failed'')"
  | (unpads) padded where "24 \<le> length blob" "opened a key blob = Some padded"
      "decrypt_backup a key blob = backup_unpad padded"
  by (cases "length blob < 24"; cases "aead_decrypt a key (take 24 blob) (drop 24 blob)")
    (auto simp: opened_def decrypt_backup_steps)

text \<open>
  C31: every way a backup is read or refused. Decrypting a blob returns a plaintext exactly when the
  cipher authenticates it and what it contains is the 8-byte length of the plaintext, the plaintext
  and any rest. It is an error exactly when the blob is shorter than a nonce, the cipher does not
  authenticate it, its content is shorter than a length prefix, or the prefix exceeds what follows,
  each with its message. The one other outcome is a panic, for authenticated content whose length
  prefix is within 8 of \<open>2 ^ 64\<close>, for which the documented result is an error too.
\<close>

theorem decrypt_backup_outcomes:
  "(decrypt_backup a key blob = Ok pt \<longleftrightarrow>
      length pt + 8 < 2 ^ 64 \<and> (\<exists>rest. opened a key blob = Some (be_encode 8 (length pt) @ pt @ rest)))
   \<and> (decrypt_backup a key blob = Err err \<longleftrightarrow>
      length blob < 24 \<and> err = Decryption ''backup blob shorter than a nonce''
    \<or> 24 \<le> length blob \<and> opened a key blob = None \<and> err = Decryption ''backup decryption failed''
    \<or> (\<exists>padded. opened a key blob = Some padded \<and> length padded < 8
         \<and> err = Decryption ''padded backup buffer shorter than its length prefix'')
    \<or> (\<exists>padded. opened a key blob = Some padded \<and> 8 \<le> length padded
         \<and> length padded < 8 + be_decode (take 8 padded) \<and> be_decode (take 8 padded) < 2 ^ 64 - 8
         \<and> err = Decryption ''padded backup length prefix exceeds buffer''))
   \<and> (decrypt_backup a key blob = Panic \<longleftrightarrow>
      (\<exists>padded. opened a key blob = Some padded \<and> 8 \<le> length padded \<and> 2 ^ 64 - 8 \<le> be_decode (take 8 padded)))"
proof (cases rule: decrypt_backup_cases[of blob a key])
  case short
  then show ?thesis by auto
next
  case refused
  then show ?thesis by auto
next
  case (unpads padded)
  then show ?thesis by (simp add: backup_unpad_Ok_iff backup_unpad_refused)
qed

end
