(* ===== verification/Proto_Derive.thy ===== *)
theory Proto_Derive
  imports Proto_Padding "HOL-Library.List_Lexorder"
begin

text \<open>
  \<^verbatim>\<open>crates/pm-proto/src/derive.rs\<close>, the HKDF chain derivation, and
  \<^verbatim>\<open>crates/pm-core/src/pairing.rs\<close>, the pair secret built on it. HKDF-SHA256 itself (the
  \<^verbatim>\<open>hkdf\<close> and \<^verbatim>\<open>sha2\<close> crates) is a parameter: input key, info, output length, and
  \<open>None\<close> for a length it refuses. \<open>hkdf_sha256_lengths\<close> is what RFC 5869 says of the
  lengths: at most 255 blocks of 32 bytes (8160), and the output has the length asked for.
\<close>

section \<open>HKDF as a parameter\<close>

type_synonym hkdf_fun = "bytes \<Rightarrow> bytes \<Rightarrow> nat \<Rightarrow> bytes option"

definition hkdf_sha256_lengths :: "hkdf_fun \<Rightarrow> bool" where
  "hkdf_sha256_lengths hkdf \<longleftrightarrow>
     (\<forall>ikm info n. n \<le> 8160 \<longrightarrow> (\<exists>okm. hkdf ikm info n = Some okm \<and> length okm = n))
   \<and> (\<forall>ikm info n. 8160 < n \<longrightarrow> hkdf ikm info n = None)"

text \<open>A concrete function with these lengths, for instances.\<close>

definition sample_hkdf :: hkdf_fun where
  "sample_hkdf ikm info n =
     (if n \<le> 8160 then Some (take n (ikm @ info @ replicate n 0)) else None)"

lemma sample_hkdf_lengths: "hkdf_sha256_lengths sample_hkdf"
  by (auto simp: hkdf_sha256_lengths_def sample_hkdf_def min_def)

section \<open>derive\<close>

definition derive_info :: "string \<Rightarrow> u64 \<Rightarrow> bytes" where
  "derive_info label n = as_bytes label @ u64_to_be_bytes n"

definition derive :: "hkdf_fun \<Rightarrow> bytes \<Rightarrow> string \<Rightarrow> u64 \<Rightarrow> nat \<Rightarrow> (bytes, ProtoError) outcome" where
  "derive hkdf key label n out_len =
     (case hkdf key (derive_info label n) out_len of
        None \<Rightarrow> Err (DerivationLengthInvalid out_len)
      | Some okm \<Rightarrow> Ok okm)"

lemma as_bytes_inject [simp]: "as_bytes s = as_bytes t \<longleftrightarrow> s = t"
proof
  assume eq: "as_bytes s = as_bytes t"
  have inj: "inj (\<lambda>c :: char. word_of_nat (of_char c) :: byte)"
  proof (rule injI)
    fix c d :: char
    assume "(word_of_nat (of_char c) :: byte) = word_of_nat (of_char d)"
    then have "unat (word_of_nat (of_char c) :: byte) = unat (word_of_nat (of_char d) :: byte)"
      by simp
    moreover have "(of_char c :: nat) < 256" "(of_char d :: nat) < 256" by simp_all
    ultimately have "(of_char c :: nat) = of_char d" by (simp add: unat_of_nat)
    then show "c = d" by simp
  qed
  from eq inj show "s = t" by (simp add: as_bytes_def inj_map_eq_map)
qed simp

lemma derive_info_inject: "derive_info l m = derive_info l' n \<longleftrightarrow> l = l' \<and> m = n"
  by (simp add: derive_info_def)

lemma derive_Ok:
  assumes "hkdf_sha256_lengths hkdf" and "n \<le> 8160"
  shows "\<exists>okm. derive hkdf key label i n = Ok okm \<and> length okm = n"
proof -
  from assms obtain okm where "hkdf key (derive_info label i) n = Some okm" "length okm = n"
    unfolding hkdf_sha256_lengths_def by blast
  then show ?thesis by (simp add: derive_def)
qed

section \<open>Pairing\<close>

definition compute_pair_secret :: "hkdf_fun \<Rightarrow> bytes \<Rightarrow> bytes \<Rightarrow> (bytes, ProtoError) outcome" where
  "compute_pair_secret hkdf nonce_a nonce_b =
     (let (first, second) = (if nonce_a \<le> nonce_b then (nonce_a, nonce_b) else (nonce_b, nonce_a));
          combined = first @ second
      in bind_outcome (derive hkdf combined ''pairing'' 0 32)
           (\<lambda>out. case to_array 32 out of None \<Rightarrow> Panic | Some a \<Rightarrow> Ok a))"

text \<open>
  \<^verbatim>\<open>derive_auth\<close> of \<^verbatim>\<open>crates/pm-core/src/client.rs\<close>: the value that authorises the
  \<open>n\<close>-th write to a contact's mailbox.
\<close>

definition derive_auth :: "hkdf_fun \<Rightarrow> bytes \<Rightarrow> u64 \<Rightarrow> (bytes, ProtoError) outcome" where
  "derive_auth hkdf pair_secret n =
     bind_outcome (derive hkdf pair_secret ''auth'' n 32)
       (\<lambda>out. case to_array 32 out of None \<Rightarrow> Panic | Some a \<Rightarrow> Ok a)"

lemma compute_pair_secret_Ok:
  assumes "hkdf_sha256_lengths hkdf"
  shows "\<exists>s. compute_pair_secret hkdf a b = Ok s \<and> length s = 32"
proof -
  let ?k = "if a \<le> b then a @ b else b @ a"
  obtain okm where "derive hkdf ?k ''pairing'' 0 32 = Ok okm" "length okm = 32"
    using derive_Ok[OF assms, of 32 ?k "''pairing''" 0] by auto
  then show ?thesis by (auto simp: compute_pair_secret_def to_array_def split: if_splits)
qed

lemma derive_auth_Ok:
  assumes "hkdf_sha256_lengths hkdf"
  shows "\<exists>s. derive_auth hkdf k n = Ok s \<and> length s = 32"
proof -
  obtain okm where "derive hkdf k ''auth'' n 32 = Ok okm" "length okm = 32"
    using derive_Ok[OF assms, of 32 k "''auth''" n] by auto
  then show ?thesis by (simp add: derive_auth_def to_array_def)
qed

section \<open>Properties\<close>

text \<open>
  Domain separation of the derivation chain. The info string HKDF receives determines the
  label and the position, so no two (label, position) pairs ever ask HKDF for the same output
  under one key; and a derivation fails exactly when the length asked for is beyond what
  HKDF-SHA256 can expand, otherwise it returns that many bytes.
\<close>

lemma derive_domain_separation:
  assumes "hkdf_sha256_lengths hkdf"
  shows "(derive_info l m = derive_info l' n \<longleftrightarrow> l = l' \<and> m = n)
    \<and> (if out_len \<le> 8160 then \<exists>okm. derive hkdf key l m out_len = Ok okm \<and> length okm = out_len
       else derive hkdf key l m out_len = Err (DerivationLengthInvalid out_len))"
proof (cases "out_len \<le> 8160")
  case True
  with derive_Ok[OF assms, of out_len key l m] show ?thesis by (simp add: derive_info_inject)
next
  case False
  with assms have "hkdf key (derive_info l m) out_len = None"
    by (simp add: hkdf_sha256_lengths_def)
  with False show ?thesis by (simp add: derive_info_inject derive_def)
qed

lemma derive_domain_separation_witness:
  "derive_info ''auth'' 7 \<noteq> derive_info ''pairing'' 7
   \<and> (\<exists>okm. derive sample_hkdf [1, 2] ''auth'' 7 32 = Ok okm \<and> length okm = 32)"
  using derive_domain_separation[OF sample_hkdf_lengths, of "''auth''" 7 "''pairing''" 7 32 "[1, 2]"]
  by simp

lemma pair_secret_symmetric: "compute_pair_secret hkdf a b = compute_pair_secret hkdf b a"
  by (cases a b rule: linorder_cases) (auto simp: compute_pair_secret_def)

lemma derive_auth_hkdf: "derive_auth hkdf s n = Ok x \<Longrightarrow> hkdf s (derive_info ''auth'' n) 32 = Some x"
  by (auto simp: derive_auth_def bind_outcome_Ok_iff derive_def split: option.splits)

text \<open>
  C28: pairing. Both devices compute the same pair secret from the two nonces, whichever of them
  computes first and whichever order they pass the nonces in; it always exists and is 32 bytes. So
  they agree on every write authorisation: for each position of the chain there is one, of 32 bytes.
  Two positions have the same authorisation only if HKDF gives the same output for two different
  info strings under this secret.
\<close>

theorem pair_secret_agreement:
  assumes "hkdf_sha256_lengths hkdf"
  shows "\<exists>s auth. compute_pair_secret hkdf a b = Ok s \<and> compute_pair_secret hkdf b a = Ok s \<and> length s = 32
    \<and> (\<forall>n. derive_auth hkdf s n = Ok (auth n) \<and> length (auth n) = 32)
    \<and> (\<forall>m n. auth m = auth n \<longrightarrow> m = n \<or> (derive_info ''auth'' m \<noteq> derive_info ''auth'' n
         \<and> hkdf s (derive_info ''auth'' m) 32 = hkdf s (derive_info ''auth'' n) 32))"
proof -
  obtain s where s: "compute_pair_secret hkdf a b = Ok s" "length s = 32"
    using compute_pair_secret_Ok[OF assms] by blast
  from derive_auth_Ok[OF assms] obtain auth where
    auth: "\<And>n. derive_auth hkdf s n = Ok (auth n)" "\<And>n. length (auth n) = 32" by metis
  have "derive_info ''auth'' m \<noteq> derive_info ''auth'' n
      \<and> hkdf s (derive_info ''auth'' m) 32 = hkdf s (derive_info ''auth'' n) 32" if "auth m = auth n" "m \<noteq> n" for m n
    using that derive_auth_hkdf[OF auth(1)[of m]] derive_auth_hkdf[OF auth(1)[of n]] by (simp add: derive_info_inject)
  with s auth pair_secret_symmetric[of hkdf a b] show ?thesis
    by (intro exI[of _ s] exI[of _ auth]) auto
qed

theorem pair_secret_agreement_witness:
  "\<exists>s x. compute_pair_secret sample_hkdf (replicate 32 9) (replicate 32 3) = Ok s
   \<and> compute_pair_secret sample_hkdf (replicate 32 3) (replicate 32 9) = Ok s \<and> length s = 32
   \<and> derive_auth sample_hkdf s 7 = Ok x \<and> length x = 32"
  using pair_secret_agreement[OF sample_hkdf_lengths, of "replicate 32 9" "replicate 32 3"] by blast

end
