(* ===== verification/Crypto_Keys.thy ===== *)
theory Crypto_Keys
  imports Crypto_Backup Proto_Derive Proto_Wire
begin

text \<open>
  \<^verbatim>\<open>crates/pm-crypto/src/seed.rs\<close>, \<^verbatim>\<open>identity.rs\<close> and \<^verbatim>\<open>session.rs\<close>: the recovery
  phrase, the keys derived from it, and the wrappers around vodozemac's Olm accounts and sessions.
  The \<^verbatim>\<open>bip39\<close>, \<^verbatim>\<open>hkdf\<close>, \<^verbatim>\<open>ed25519-dalek\<close> and \<^verbatim>\<open>vodozemac\<close> crates are
  parameters, records of the functions the wrappers call; random choices are arguments.
\<close>

section \<open>The recovery phrase\<close>

definition SEED_LEN :: nat where
  "SEED_LEN = 32"

definition WORD_COUNT :: nat where
  "WORD_COUNT = 24"

text \<open>
  \<open>mn_generate\<close> takes the word count and the random choice. What BIP-39 documents: a phrase is
  read back as the mnemonic it was printed from, and 24 words stand for 32 bytes.
\<close>

record ('mn, 'r) bip39 =
  mn_generate :: "nat \<Rightarrow> 'r \<Rightarrow> 'mn option"
  mn_parse :: "string \<Rightarrow> string + 'mn"
  mn_display :: "'mn \<Rightarrow> string"
  mn_to_entropy :: "'mn \<Rightarrow> bytes"

definition bip39_documented :: "('mn, 'r) bip39 \<Rightarrow> bool" where
  "bip39_documented b \<longleftrightarrow>
     (\<forall>m. mn_parse b (mn_display b m) = Inr m)
   \<and> (\<forall>r. \<exists>m. mn_generate b 24 r = Some m \<and> length (mn_to_entropy b m) = 32)"

definition from_mnemonic :: "('mn, 'r) bip39 \<Rightarrow> 'mn \<Rightarrow> (bytes, CryptoError) outcome" where
  "from_mnemonic b m =
     (let entropy = mn_to_entropy b m in
      ok_or (InvalidMnemonic (''expected a '' @ show_nat SEED_LEN @ ''-byte seed from a '' @ show_nat WORD_COUNT
            @ ''-word phrase, got '' @ show_nat (length entropy) @ '' bytes''))
        (to_array SEED_LEN entropy))"

definition from_phrase :: "('mn, 'r) bip39 \<Rightarrow> string \<Rightarrow> (bytes, CryptoError) outcome" where
  "from_phrase b phrase =
     (case mn_parse b phrase of
        Inl e \<Rightarrow> Err (InvalidMnemonic e)
      | Inr m \<Rightarrow> from_mnemonic b m)"

definition seed_generate :: "('mn, 'r) bip39 \<Rightarrow> 'r \<Rightarrow> (bytes \<times> 'mn, CryptoError) outcome" where
  "seed_generate b r =
     (case mn_generate b WORD_COUNT r of
        None \<Rightarrow> Panic
      | Some m \<Rightarrow> bind_outcome (expect (from_mnemonic b m)) (\<lambda>seed. Ok (seed, m)))"

section \<open>The identity\<close>

definition IDENTITY_LABEL :: string where "IDENTITY_LABEL = ''pm-identity-v1''"
definition BACKUP_LABEL :: string where "BACKUP_LABEL = ''pm-backup-v1''"
definition MAILBOX_LABEL :: string where "MAILBOX_LABEL = ''pm-mailbox-v1''"
definition BACKUP_LOCATION_LABEL :: string where "BACKUP_LOCATION_LABEL = ''pm-backuploc-v1''"
definition TRANSPORT_LABEL :: string where "TRANSPORT_LABEL = ''pm-transport-v1''"
definition SERVER_TRANSPORT_LABEL :: string where
  "SERVER_TRANSPORT_LABEL = ''pm-transport-server-v1''"

definition hkdf_expand_32 :: "hkdf_fun \<Rightarrow> bytes \<Rightarrow> string \<Rightarrow> (bytes, CryptoError) outcome" where
  "hkdf_expand_32 hkdf ikm label =
     (case hkdf ikm (as_bytes label) 32 of None \<Rightarrow> Panic | Some okm \<Rightarrow> Ok okm)"

text \<open>The signing key is kept as the 32 bytes it is made from; ed25519 uses it as a parameter.\<close>

record Identity =
  signing_key :: bytes
  backup_key :: bytes
  mailbox_key :: bytes
  backup_location_key :: bytes
  transport_key :: bytes
  server_transport_key :: bytes

definition Identity_derive :: "hkdf_fun \<Rightarrow> bytes \<Rightarrow> (Identity, CryptoError) outcome" where
  "Identity_derive hkdf seed =
     bind_outcome (hkdf_expand_32 hkdf seed IDENTITY_LABEL) (\<lambda>ik.
     bind_outcome (hkdf_expand_32 hkdf seed BACKUP_LABEL) (\<lambda>bk.
     bind_outcome (hkdf_expand_32 hkdf seed MAILBOX_LABEL) (\<lambda>mk.
     bind_outcome (hkdf_expand_32 hkdf seed BACKUP_LOCATION_LABEL) (\<lambda>lk.
     bind_outcome (hkdf_expand_32 hkdf seed TRANSPORT_LABEL) (\<lambda>tk.
     bind_outcome (hkdf_expand_32 hkdf seed SERVER_TRANSPORT_LABEL) (\<lambda>sk.
       Ok \<lparr>signing_key = ik, backup_key = bk, mailbox_key = mk, backup_location_key = lk,
           transport_key = tk, server_transport_key = sk\<rparr>))))))"

section \<open>Olm accounts and sessions\<close>

text \<open>
  The functions of vodozemac that the wrappers call. A message is its type number and bytes;
  \<open>olm_parse\<close> is \<^verbatim>\<open>OlmMessage::from_parts\<close>, which tells pre-key messages from normal
  ones. Keys are 32-byte public keys. A refused message leaves account and session as they are.
\<close>

datatype OlmMessage = PreKey bytes | Normal bytes

record ('acc, 'ses, 'r) vodozemac =
  acc_new :: "'r \<Rightarrow> 'acc"
  acc_key :: "'acc \<Rightarrow> bytes"
  acc_generate_otks :: "nat \<Rightarrow> 'r \<Rightarrow> 'acc \<Rightarrow> 'acc"
  acc_otks :: "'acc \<Rightarrow> bytes list"
  acc_outbound :: "'r \<Rightarrow> bytes \<Rightarrow> bytes \<Rightarrow> 'acc \<Rightarrow> string + 'ses"
  acc_inbound :: "bytes \<Rightarrow> bytes \<Rightarrow> 'acc \<Rightarrow> string + ('acc \<times> 'ses \<times> bytes)"
  olm_parse :: "nat \<Rightarrow> bytes \<Rightarrow> string + OlmMessage"
  ses_encrypt :: "'r \<Rightarrow> bytes \<Rightarrow> 'ses \<Rightarrow> string + ('ses \<times> nat \<times> bytes)"
  ses_decrypt :: "OlmMessage \<Rightarrow> 'ses \<Rightarrow> string + ('ses \<times> bytes)"
  acc_json :: "'acc codec"
  ses_json :: "'ses codec"

definition account_pickle :: "('acc, 'ses, 'r) vodozemac \<Rightarrow> 'acc \<Rightarrow> (bytes, CryptoError) outcome" where
  "account_pickle v acc = (case enc (acc_json v) acc of Inl e \<Rightarrow> Panic | Inr bs \<Rightarrow> Ok bs)"

definition account_from_pickle :: "('acc, 'ses, 'r) vodozemac \<Rightarrow> bytes \<Rightarrow> ('acc, CryptoError) outcome" where
  "account_from_pickle v bs =
     (case dec (acc_json v) bs of Inl e \<Rightarrow> Err (MalformedMessage e) | Inr acc \<Rightarrow> Ok acc)"

definition generate_one_time_keys ::
  "('acc, 'ses, 'r) vodozemac \<Rightarrow> nat \<Rightarrow> 'r \<Rightarrow> 'acc \<Rightarrow> bytes list \<times> 'acc" where
  "generate_one_time_keys v count r acc =
     (let acc' = acc_generate_otks v count r acc in (acc_otks v acc', acc'))"

definition create_outbound_session ::
  "('acc, 'ses, 'r) vodozemac \<Rightarrow> 'r \<Rightarrow> bytes \<Rightarrow> bytes \<Rightarrow> 'acc \<Rightarrow> ('ses, CryptoError) outcome" where
  "create_outbound_session v r their_identity_key their_one_time_key acc =
     (case acc_outbound v r their_identity_key their_one_time_key acc of
        Inl e \<Rightarrow> Err (SessionCreation e)
      | Inr ses \<Rightarrow> Ok ses)"

definition accept_incoming ::
  "('acc, 'ses, 'r) vodozemac \<Rightarrow> bytes \<Rightarrow> byte \<Rightarrow> bytes \<Rightarrow> ('acc, 'ses \<times> bytes, CryptoError) action" where
  "accept_incoming v their_identity_key otype ct acc =
     (case olm_parse v (unat otype) ct of
        Inl e \<Rightarrow> (Err (MalformedMessage e), acc)
      | Inr (Normal m) \<Rightarrow>
          (Err (SessionCreation
             ''expected a pre-key message to establish an inbound session, got a normal message''), acc)
      | Inr (PreKey m) \<Rightarrow>
          (case acc_inbound v their_identity_key m acc of
             Inl e \<Rightarrow> (Err (SessionCreation e), acc)
           | Inr (acc', ses, plaintext) \<Rightarrow> (Ok (ses, plaintext), acc')))"

definition session_encrypt ::
  "('acc, 'ses, 'r) vodozemac \<Rightarrow> 'r \<Rightarrow> bytes \<Rightarrow> ('ses, byte \<times> bytes, CryptoError) action" where
  "session_encrypt v r plaintext ses =
     (case ses_encrypt v r plaintext ses of
        Inl e \<Rightarrow> (Err (Encryption e), ses)
      | Inr (ses', message_type, ct) \<Rightarrow> (Ok (word_of_nat message_type, ct), ses'))"

definition session_decrypt ::
  "('acc, 'ses, 'r) vodozemac \<Rightarrow> byte \<Rightarrow> bytes \<Rightarrow> ('ses, bytes, CryptoError) action" where
  "session_decrypt v otype ct ses =
     (case olm_parse v (unat otype) ct of
        Inl e \<Rightarrow> (Err (MalformedMessage e), ses)
      | Inr m \<Rightarrow>
          (case ses_decrypt v m ses of
             Inl e \<Rightarrow> (Err (Decryption e), ses)
           | Inr (ses', plaintext) \<Rightarrow> (Ok plaintext, ses')))"

definition session_pickle :: "('acc, 'ses, 'r) vodozemac \<Rightarrow> 'ses \<Rightarrow> (bytes, CryptoError) outcome" where
  "session_pickle v ses = (case enc (ses_json v) ses of Inl e \<Rightarrow> Panic | Inr bs \<Rightarrow> Ok bs)"

definition session_from_pickle :: "('acc, 'ses, 'r) vodozemac \<Rightarrow> bytes \<Rightarrow> ('ses, CryptoError) outcome" where
  "session_from_pickle v bs =
     (case dec (ses_json v) bs of Inl e \<Rightarrow> Err (MalformedMessage e) | Inr ses \<Rightarrow> Ok ses)"

subsection \<open>What a pickle promises\<close>

text \<open>State that is written to the store and read back later, whatever it is.\<close>

locale pickled =
  fixes to_pickle :: "'s \<Rightarrow> (bytes, CryptoError) outcome"
    and of_pickle :: "bytes \<Rightarrow> ('s, CryptoError) outcome"
    and good_json :: bool
  assumes restores: "good_json \<Longrightarrow> to_pickle s = Ok bs \<Longrightarrow> of_pickle bs = Ok s"
    and no_panic: "of_pickle bs \<noteq> Panic"
begin

lemma pickle_inject: "good_json \<Longrightarrow> to_pickle s = Ok bs \<Longrightarrow> to_pickle t = Ok bs \<Longrightarrow> s = t"
  by (metis outcome.inject(1) restores)

end

interpretation acc_store: pickled "account_pickle v" "account_from_pickle v" "codec_roundtrip (acc_json v)" for v
  by unfold_locales
    (auto simp: account_pickle_def account_from_pickle_def codec_roundtrip_def split: sum.splits)

interpretation ses_store: pickled "session_pickle v" "session_from_pickle v" "codec_roundtrip (ses_json v)" for v
  by unfold_locales
    (auto simp: session_pickle_def session_from_pickle_def codec_roundtrip_def split: sum.splits)

section \<open>Properties\<close>

lemma hkdf_expand_32_Ok:
  assumes "hkdf_sha256_lengths hkdf"
  obtains okm where "hkdf_expand_32 hkdf ikm label = Ok okm" and "length okm = 32"
    and "hkdf ikm (as_bytes label) 32 = Some okm"
proof -
  have "(32 :: nat) \<le> 8160" by simp
  with assms obtain okm where "hkdf ikm (as_bytes label) 32 = Some okm" "length okm = 32"
    unfolding hkdf_sha256_lengths_def by blast
  then show ?thesis by (intro that) (simp_all add: hkdf_expand_32_def)
qed

definition identity_keys :: "Identity \<Rightarrow> bytes list" where
  "identity_keys k = [signing_key k, backup_key k, mailbox_key k, backup_location_key k,
     transport_key k, server_transport_key k]"

definition identity_labels :: "string list" where
  "identity_labels = [IDENTITY_LABEL, BACKUP_LABEL, MAILBOX_LABEL, BACKUP_LOCATION_LABEL,
     TRANSPORT_LABEL, SERVER_TRANSPORT_LABEL]"

lemma distinct_identity_labels: "distinct (map as_bytes identity_labels)"
  by (simp add: identity_labels_def IDENTITY_LABEL_def BACKUP_LABEL_def MAILBOX_LABEL_def
      BACKUP_LOCATION_LABEL_def TRANSPORT_LABEL_def SERVER_TRANSPORT_LABEL_def)

lemma identity_derive_keys:
  assumes "hkdf_sha256_lengths hkdf"
  obtains k where "Identity_derive hkdf seed = Ok k"
    and "map Some (identity_keys k) = map (\<lambda>l. hkdf seed (as_bytes l) 32) identity_labels"
    and "\<forall>x \<in> set (identity_keys k). length x = 32"
proof -
  have e: "\<exists>okm. hkdf_expand_32 hkdf seed l = Ok okm \<and> length okm = 32
      \<and> hkdf seed (as_bytes l) 32 = Some okm" for l
    by (rule hkdf_expand_32_Ok[OF assms, of seed l]) auto
  then obtain f where f: "\<And>l. hkdf_expand_32 hkdf seed l = Ok (f l)" "\<And>l. length (f l) = 32"
    "\<And>l. hkdf seed (as_bytes l) 32 = Some (f l)" by metis
  let ?k = "\<lparr>signing_key = f IDENTITY_LABEL, backup_key = f BACKUP_LABEL, mailbox_key = f MAILBOX_LABEL,
    backup_location_key = f BACKUP_LOCATION_LABEL, transport_key = f TRANSPORT_LABEL,
    server_transport_key = f SERVER_TRANSPORT_LABEL\<rparr>"
  show ?thesis
    by (rule that[of ?k]) (simp_all add: Identity_derive_def f identity_keys_def identity_labels_def)
qed

text \<open>
  C32: the identity is recovered from the phrase alone. A freshly generated phrase is accepted
  again and gives the same seed, and deriving an identity from it always succeeds, with six keys
  of 32 bytes that are the HKDF outputs for six different labels. Provided that HKDF gives different
  outputs for these six labels under this seed, no two of the six keys are the same.
\<close>

theorem identity_recovered_from_phrase:
  assumes "bip39_documented b" and "hkdf_sha256_lengths hkdf"
  shows "\<exists>seed m k. seed_generate b r = Ok (seed, m) \<and> length seed = 32
     \<and> from_phrase b (mn_display b m) = Ok seed
     \<and> Identity_derive hkdf seed = Ok k
     \<and> (\<forall>x \<in> set (identity_keys k). length x = 32)
     \<and> (inj_on (\<lambda>info. hkdf seed info 32) (set (map as_bytes identity_labels))
          \<longrightarrow> distinct (identity_keys k))"
proof -
  from assms(1) obtain m where m: "mn_generate b 24 r = Some m" "length (mn_to_entropy b m) = 32"
    and rt: "mn_parse b (mn_display b m) = Inr m"
    unfolding bip39_documented_def by blast
  let ?seed = "mn_to_entropy b m"
  from identity_derive_keys[OF assms(2), of ?seed] obtain k where
    k: "Identity_derive hkdf ?seed = Ok k"
    and keys: "map Some (identity_keys k) = map (\<lambda>l. hkdf ?seed (as_bytes l) 32) identity_labels"
    and len: "\<forall>x \<in> set (identity_keys k). length x = 32"
    by blast
  have "distinct (identity_keys k)"
    if "inj_on (\<lambda>info. hkdf ?seed info 32) (set (map as_bytes identity_labels))"
  proof -
    have "distinct (map (\<lambda>info. hkdf ?seed info 32) (map as_bytes identity_labels))"
      using that distinct_identity_labels by (simp only: distinct_map[of "\<lambda>info. hkdf ?seed info 32"])
    then have "distinct (map Some (identity_keys k))" by (simp add: keys comp_def)
    then show ?thesis by (simp add: distinct_map)
  qed
  moreover have arr: "to_array 32 ?seed = Some ?seed" using m(2) by simp
  have "seed_generate b r = Ok (?seed, m)" "from_phrase b (mn_display b m) = Ok ?seed"
    by (simp_all add: seed_generate_def from_phrase_def from_mnemonic_def WORD_COUNT_def SEED_LEN_def
        Let_def m(1) rt arr del: to_array_Some_iff)
  ultimately show ?thesis using m(2) k len by blast
qed

text \<open>A phrase that is its own entropy, for instances.\<close>

definition sample_bip39 :: "(string, string) bip39" where
  "sample_bip39 = \<lparr>mn_generate = (\<lambda>n r. Some r), mn_parse = (\<lambda>s. Inr s), mn_display = (\<lambda>s. s),
     mn_to_entropy = (\<lambda>s. take 32 (as_bytes s @ replicate 32 0))\<rparr>"

lemma sample_bip39_documented: "bip39_documented sample_bip39"
  by (auto simp: bip39_documented_def sample_bip39_def min_def)

text \<open>A function of the right lengths whose output begins with the label, for instances.\<close>

definition label_hkdf :: hkdf_fun where
  "label_hkdf ikm info n = (if n \<le> 8160 then Some (take n (drop 3 info @ ikm @ replicate n 0)) else None)"

lemma label_hkdf_lengths: "hkdf_sha256_lengths label_hkdf"
  by (auto simp: hkdf_sha256_lengths_def label_hkdf_def min_def)

lemma label_hkdf_separates: "inj_on (\<lambda>info. label_hkdf seed info 32) (set (map as_bytes identity_labels))"
  by (simp add: inj_on_def identity_labels_def IDENTITY_LABEL_def BACKUP_LABEL_def MAILBOX_LABEL_def
      BACKUP_LOCATION_LABEL_def TRANSPORT_LABEL_def SERVER_TRANSPORT_LABEL_def label_hkdf_def as_bytes_def)

theorem identity_recovered_from_phrase_witness:
  "\<exists>seed m k. seed_generate sample_bip39 ''abc'' = Ok (seed, m)
     \<and> from_phrase sample_bip39 (mn_display sample_bip39 m) = Ok seed
     \<and> Identity_derive label_hkdf seed = Ok k \<and> length (identity_keys k) = 6 \<and> distinct (identity_keys k)"
proof -
  from identity_recovered_from_phrase[OF sample_bip39_documented label_hkdf_lengths, of "''abc''"]
  obtain seed m k where "seed_generate sample_bip39 ''abc'' = Ok (seed, m)"
    "from_phrase sample_bip39 (mn_display sample_bip39 m) = Ok seed" "Identity_derive label_hkdf seed = Ok k"
    "distinct (identity_keys k)"
    using label_hkdf_separates by blast
  then show ?thesis by (intro exI[of _ seed] exI[of _ m] exI[of _ k]) (simp add: identity_keys_def)
qed

end
