(* ===== verification/Store_DB.thy ===== *)
theory Store_DB
  imports Yougle_Prelude "HOL-Library.Multiset"
begin

text \<open>
  \<^verbatim>\<open>crates/pm-store/src/lib.rs\<close>, \<^verbatim>\<open>lamport.rs\<close> and \<^verbatim>\<open>error.rs\<close> over the schema of
  the eight migrations: contacts, Olm sessions, messages, the account row and the Lamport clock of
  one device. The state is one list of rows per table; every method is an action on it. The
  columns \<^verbatim>\<open>created_at\<close> and \<^verbatim>\<open>updated_at\<close> are written and never read, and are left
  out. Every column the code sets by \<^verbatim>\<open>UPDATE .. WHERE id = ?\<close> is an instance of the
  \<open>column\<close> locale.
\<close>

section \<open>Rows\<close>

datatype Direction = Outgoing | Incoming

fun direction_as_str :: "Direction \<Rightarrow> string" where
  "direction_as_str Outgoing = ''outgoing''"
| "direction_as_str Incoming = ''incoming''"

definition direction_from_str :: "string \<Rightarrow> Direction" where
  "direction_from_str s = (if s = ''outgoing'' then Outgoing else Incoming)"

datatype MessageStatus = Sent | Delivered | Failed

fun status_as_str :: "MessageStatus \<Rightarrow> string" where
  "status_as_str Sent = ''sent''"
| "status_as_str Delivered = ''delivered''"
| "status_as_str Failed = ''failed''"

definition status_from_str :: "string \<Rightarrow> MessageStatus option" where
  "status_from_str s =
     (if s = ''sent'' then Some Sent else if s = ''delivered'' then Some Delivered
      else if s = ''failed'' then Some Failed else None)"

lemma direction_str_roundtrip [simp]: "direction_from_str (direction_as_str d) = d"
  by (cases d) (simp_all add: direction_from_str_def)

lemma status_str_roundtrip [simp]: "status_from_str (status_as_str s) = Some s"
  by (cases s) (simp_all add: status_from_str_def)

record contact_row =
  c_id :: i64
  c_identity_key :: bytes
  c_curve25519_key :: bytes
  c_display_name :: "string option"
  c_server_addr :: "bytes option"
  c_pair_secret :: "bytes option"
  c_next_write_n :: sqlnum
  c_pending_otk :: "bytes option"
  c_transport_key :: "bytes option"
  c_pointer_updated_at :: i64
  c_pointer_seq :: i64

record session_row =
  s_contact_id :: i64
  s_pickle :: bytes

record message_row =
  m_contact_id :: i64
  m_msg_id :: bytes
  m_direction :: string
  m_lamport :: i64
  m_sent_at :: i64
  m_plaintext :: bytes
  m_status :: "string option"

record account_row =
  a_pickle :: bytes
  a_last_synced_blob_id :: i64
  a_own_server_addr :: "bytes option"
  a_pointer_broadcast_seq :: sqlnum

text \<open>\<open>foreign_keys\<close> is the connection's setting of that name, a compile-time default of SQLite.\<close>

record store =
  contacts :: "contact_row list"
  sessions :: "session_row list"
  messages :: "message_row list"
  account :: "account_row option"
  local_clock :: sqlnum
  foreign_keys :: bool

definition empty_store :: "bool \<Rightarrow> store" where
  "empty_store fk = \<lparr>contacts = [], sessions = [], messages = [], account = None,
     local_clock = Integer 0, foreign_keys = fk\<rparr>"

section \<open>Errors and results\<close>

datatype sql_error = ConstraintViolation | QueryReturnedNoRows | InvalidColumnType

datatype StoreError = Sqlite sql_error | InvalidMsgIdLength nat

record ContactRecord =
  cr_id :: i64
  identity_key :: bytes
  curve25519_key :: bytes
  display_name :: "string option"
  server_addr :: "bytes option"
  pair_secret :: "bytes option"
  next_write_n :: u64
  pending_otk :: "bytes option"
  contact_transport_key :: "bytes option"
  pointer_updated_at :: u64
  pointer_seq :: u64

record NewMessage =
  nm_msg_id :: bytes
  nm_direction :: Direction
  nm_lamport :: u64
  nm_sent_at :: u64
  nm_plaintext :: bytes
  nm_status :: "MessageStatus option"

record StoredMessage =
  sm_msg_id :: bytes
  sm_direction :: Direction
  sm_lamport :: u64
  sm_sent_at :: u64
  sm_plaintext :: bytes
  sm_status :: "MessageStatus option"

type_synonym 'a store_action = "(store, 'a, StoreError) action"

text \<open>Reading a result row by row stops at the first row that cannot be read.\<close>

fun collect_rows :: "('r \<Rightarrow> ('a, 'e) outcome) \<Rightarrow> 'r list \<Rightarrow> ('a list, 'e) outcome" where
  "collect_rows f [] = Ok []"
| "collect_rows f (r # rs) =
     bind_outcome (f r) (\<lambda>a. bind_outcome (collect_rows f rs) (\<lambda>as. Ok (a # as)))"

lemma collect_rows_Ok_iff: "collect_rows f rs = Ok xs \<longleftrightarrow> map f rs = map Ok xs"
  by (induction rs arbitrary: xs) (auto simp: bind_outcome_Ok_iff Cons_eq_map_conv)

lemma collect_rows_map: "(\<And>r. r \<in> set rs \<Longrightarrow> f r = Ok (g r)) \<Longrightarrow> collect_rows f rs = Ok (map g rs)"
  by (induction rs) auto

section \<open>Contacts\<close>

definition upsert_contact :: "bytes \<Rightarrow> bytes \<Rightarrow> string option \<Rightarrow> i64 store_action" where
  "upsert_contact ik ck name s =
     (let fresh = \<lparr>c_id = next_rowid c_id (contacts s), c_identity_key = ik, c_curve25519_key = ck,
            c_display_name = name, c_server_addr = None, c_pair_secret = None,
            c_next_write_n = Integer 0, c_pending_otk = None, c_transport_key = None,
            c_pointer_updated_at = 0, c_pointer_seq = 0\<rparr>;
          cs = upsert c_identity_key
            (\<lambda>r. r\<lparr>c_curve25519_key := ck, c_display_name := name\<rparr>) fresh (contacts s);
          s' = s\<lparr>contacts := cs\<rparr>
      in case lookup_row c_identity_key ik cs of
           None \<Rightarrow> (Err (Sqlite QueryReturnedNoRows), s')
         | Some r \<Rightarrow> (Ok (c_id r), s'))"

text \<open>\<^verbatim>\<open>UPDATE contacts SET .. WHERE id = ?\<close>, a no-op when there is no such contact.\<close>

definition update_contact :: "i64 \<Rightarrow> (contact_row \<Rightarrow> contact_row) \<Rightarrow> unit store_action" where
  "update_contact cid f s = (Ok (), s\<lparr>contacts := update_where (\<lambda>r. c_id r = cid) f (contacts s)\<rparr>)"

definition set_contact_server_addr :: "i64 \<Rightarrow> bytes option \<Rightarrow> unit store_action" where
  "set_contact_server_addr cid addr = update_contact cid (c_server_addr_update (\<lambda>_. addr))"

definition set_contact_pointer_update :: "i64 \<Rightarrow> bytes option \<Rightarrow> u64 \<Rightarrow> u64 \<Rightarrow> unit store_action" where
  "set_contact_pointer_update cid addr updated_at seq =
     update_contact cid (\<lambda>r. r\<lparr>c_server_addr := addr, c_pointer_updated_at := as_i64 updated_at,
       c_pointer_seq := as_i64 seq\<rparr>)"

definition get_contact_server_addr :: "i64 \<Rightarrow> (bytes option) store_action" where
  "get_contact_server_addr cid s =
     (Ok (case lookup_row c_id cid (contacts s) of None \<Rightarrow> None | Some r \<Rightarrow> c_server_addr r), s)"

definition set_contact_transport_key :: "i64 \<Rightarrow> bytes \<Rightarrow> unit store_action" where
  "set_contact_transport_key cid k = update_contact cid (c_transport_key_update (\<lambda>_. Some k))"

definition set_contact_pair_secret :: "i64 \<Rightarrow> bytes \<Rightarrow> unit store_action" where
  "set_contact_pair_secret cid k = update_contact cid (c_pair_secret_update (\<lambda>_. Some k))"

definition set_contact_pending_otk :: "i64 \<Rightarrow> bytes option \<Rightarrow> unit store_action" where
  "set_contact_pending_otk cid k = update_contact cid (c_pending_otk_update (\<lambda>_. k))"

definition increment_and_get_next_write_n :: "i64 \<Rightarrow> u64 store_action" where
  "increment_and_get_next_write_n cid =
     and_then (update_contact cid (\<lambda>r. r\<lparr>c_next_write_n := sql_succ (c_next_write_n r)\<rparr>))
       (\<lambda>_ s. (case lookup_row c_id cid (contacts s) of
            None \<Rightarrow> Err (Sqlite QueryReturnedNoRows)
          | Some r \<Rightarrow>
              (case get_i64 (c_next_write_n r) of
                 None \<Rightarrow> Err (Sqlite InvalidColumnType)
               | Some n \<Rightarrow> Ok (as_u64 (n - 1))), s))"

definition row_to_contact :: "contact_row \<Rightarrow> (ContactRecord, StoreError) outcome" where
  "row_to_contact r =
     bind_outcome (ok_or (Sqlite InvalidColumnType) (get_i64 (c_next_write_n r))) (\<lambda>n.
     bind_outcome (ok_or (InvalidMsgIdLength 0) (to_array 32 (c_identity_key r))) (\<lambda>ik.
     bind_outcome (ok_or (InvalidMsgIdLength 0) (to_array 32 (c_curve25519_key r))) (\<lambda>ck.
       Ok \<lparr>cr_id = c_id r, identity_key = ik, curve25519_key = ck,
           display_name = c_display_name r, server_addr = c_server_addr r,
           pair_secret = Option.bind (c_pair_secret r) (to_array 32),
           next_write_n = as_u64 n,
           pending_otk = Option.bind (c_pending_otk r) (to_array 32),
           contact_transport_key = Option.bind (c_transport_key r) (to_array 32),
           pointer_updated_at = as_u64 (c_pointer_updated_at r),
           pointer_seq = as_u64 (c_pointer_seq r)\<rparr>)))"

definition list_contacts :: "ContactRecord list store_action" where
  "list_contacts s = (collect_rows row_to_contact (sort_key c_id (contacts s)), s)"

definition get_contact :: "i64 \<Rightarrow> ContactRecord option store_action" where
  "get_contact cid = and_then list_contacts (\<lambda>cs s. (Ok (find (\<lambda>c. cr_id c = cid) cs), s))"

section \<open>Sessions and messages\<close>

definition fk_violated :: "store \<Rightarrow> i64 \<Rightarrow> bool" where
  "fk_violated s cid \<longleftrightarrow> foreign_keys s \<and> cid \<notin> c_id ` set (contacts s)"

definition save_session_pickle :: "i64 \<Rightarrow> bytes \<Rightarrow> unit store_action" where
  "save_session_pickle cid p s =
     (if fk_violated s cid then (Err (Sqlite ConstraintViolation), s)
      else (Ok (), s\<lparr>sessions := upsert s_contact_id (s_pickle_update (\<lambda>_. p))
              \<lparr>s_contact_id = cid, s_pickle = p\<rparr> (sessions s)\<rparr>))"

definition load_session_pickle :: "i64 \<Rightarrow> bytes option store_action" where
  "load_session_pickle cid s = (Ok (map_option s_pickle (lookup_row s_contact_id cid (sessions s))), s)"

definition insert_message :: "i64 \<Rightarrow> NewMessage \<Rightarrow> unit store_action" where
  "insert_message cid msg s =
     (if fk_violated s cid
         \<or> (\<exists>r \<in> set (messages s). m_contact_id r = cid \<and> m_msg_id r = nm_msg_id msg)
      then (Err (Sqlite ConstraintViolation), s)
      else (Ok (), s\<lparr>messages := messages s @
              [\<lparr>m_contact_id = cid, m_msg_id = nm_msg_id msg,
                m_direction = direction_as_str (nm_direction msg),
                m_lamport = as_i64 (nm_lamport msg), m_sent_at = as_i64 (nm_sent_at msg),
                m_plaintext = nm_plaintext msg,
                m_status = map_option status_as_str (nm_status msg)\<rparr>]\<rparr>))"

definition set_message_status :: "i64 \<Rightarrow> bytes \<Rightarrow> MessageStatus \<Rightarrow> unit store_action" where
  "set_message_status cid mid st s =
     (Ok (), s\<lparr>messages := update_where (\<lambda>r. m_contact_id r = cid \<and> m_msg_id r = mid)
        (m_status_update (\<lambda>_. Some (status_as_str st))) (messages s)\<rparr>)"

definition set_message_status_by_msg_id :: "bytes \<Rightarrow> MessageStatus \<Rightarrow> unit store_action" where
  "set_message_status_by_msg_id mid st s =
     (Ok (), s\<lparr>messages := update_where (\<lambda>r. m_msg_id r = mid)
        (m_status_update (\<lambda>_. Some (status_as_str st))) (messages s)\<rparr>)"

definition row_to_message :: "message_row \<Rightarrow> (StoredMessage, StoreError) outcome" where
  "row_to_message r =
     bind_outcome (ok_or (InvalidMsgIdLength (length (m_msg_id r))) (to_array 16 (m_msg_id r))) (\<lambda>mid.
       Ok \<lparr>sm_msg_id = mid, sm_direction = direction_from_str (m_direction r),
           sm_lamport = as_u64 (m_lamport r), sm_sent_at = as_u64 (m_sent_at r),
           sm_plaintext = m_plaintext r,
           sm_status = Option.bind (m_status r) status_from_str\<rparr>)"

definition messages_for_contact :: "i64 \<Rightarrow> StoredMessage list store_action" where
  "messages_for_contact cid s =
     (collect_rows row_to_message
        (sort_key m_lamport (filter (\<lambda>r. m_contact_id r = cid) (messages s))), s)"

section \<open>The Lamport clock\<close>

definition current :: "u64 store_action" where
  "current s = (case get_i64 (local_clock s) of
       None \<Rightarrow> (Err (Sqlite InvalidColumnType), s)
     | Some v \<Rightarrow> (Ok (as_u64 v), s))"

definition tick_lamport :: "u64 store_action" where
  "tick_lamport s = current (s\<lparr>local_clock := sql_succ (local_clock s)\<rparr>)"

definition observe_lamport :: "u64 \<Rightarrow> u64 store_action" where
  "observe_lamport remote s =
     current (s\<lparr>local_clock := sql_succ (max (local_clock s) (Integer (as_i64 remote)))\<rparr>)"

section \<open>The account row\<close>

text \<open>Every write creates the row when it is missing, with an empty pickle and zero counters.\<close>

definition empty_account :: account_row where
  "empty_account = \<lparr>a_pickle = [], a_last_synced_blob_id = 0, a_own_server_addr = None,
     a_pointer_broadcast_seq = Integer 0\<rparr>"

definition upsert_account :: "(account_row \<Rightarrow> account_row) \<Rightarrow> store \<Rightarrow> store" where
  "upsert_account f s =
     s\<lparr>account := Some (f (case account s of None \<Rightarrow> empty_account | Some a \<Rightarrow> a))\<rparr>"

definition save_account_pickle :: "bytes \<Rightarrow> unit store_action" where
  "save_account_pickle p s = (Ok (), upsert_account (a_pickle_update (\<lambda>_. p)) s)"

definition load_account_pickle :: "bytes option store_action" where
  "load_account_pickle s = (Ok (map_option a_pickle (account s)), s)"

definition get_last_synced_blob_id :: "u64 store_action" where
  "get_last_synced_blob_id s =
     (Ok (as_u64 (case account s of None \<Rightarrow> 0 | Some a \<Rightarrow> a_last_synced_blob_id a)), s)"

definition set_last_synced_blob_id :: "u64 \<Rightarrow> unit store_action" where
  "set_last_synced_blob_id v s =
     (Ok (), upsert_account (a_last_synced_blob_id_update (\<lambda>_. as_i64 v)) s)"

definition get_pointer_broadcast_seq :: "u64 store_action" where
  "get_pointer_broadcast_seq s =
     (case account s of
        None \<Rightarrow> (Ok 0, s)
      | Some a \<Rightarrow> (case get_i64 (a_pointer_broadcast_seq a) of
            None \<Rightarrow> (Err (Sqlite InvalidColumnType), s)
          | Some v \<Rightarrow> (Ok (as_u64 v), s)))"

definition set_pointer_broadcast_seq :: "u64 \<Rightarrow> unit store_action" where
  "set_pointer_broadcast_seq v s =
     (Ok (), upsert_account (a_pointer_broadcast_seq_update (\<lambda>_. Integer (as_i64 v))) s)"

definition increment_and_get_pointer_broadcast_seq :: "u64 store_action" where
  "increment_and_get_pointer_broadcast_seq s =
     get_pointer_broadcast_seq (upsert_account (a_pointer_broadcast_seq_update sql_succ) s)"

definition get_own_server_addr :: "bytes option store_action" where
  "get_own_server_addr s =
     (Ok (case account s of None \<Rightarrow> None | Some a \<Rightarrow> a_own_server_addr a), s)"

definition set_own_server_addr :: "bytes option \<Rightarrow> unit store_action" where
  "set_own_server_addr addr s = (Ok (), upsert_account (a_own_server_addr_update (\<lambda>_. addr)) s)"

section \<open>Well-formed stores\<close>

definition contact_ok :: "contact_row \<Rightarrow> bool" where
  "contact_ok r \<longleftrightarrow> 0 < c_id r \<and> length (c_identity_key r) = 32 \<and> length (c_curve25519_key r) = 32
     \<and> (\<exists>n. c_next_write_n r = Integer n \<and> 0 \<le> n \<and> n \<le> i64_max)"

definition message_ok :: "message_row \<Rightarrow> bool" where
  "message_ok r \<longleftrightarrow> length (m_msg_id r) = 16
     \<and> (\<exists>d. m_direction r = direction_as_str d)
     \<and> (m_status r = None \<or> (\<exists>st. m_status r = Some (status_as_str st)))
     \<and> i64_min \<le> m_lamport r \<and> m_lamport r \<le> i64_max"

definition message_key :: "message_row \<Rightarrow> i64 \<times> bytes" where
  "message_key r = (m_contact_id r, m_msg_id r)"

definition store_wf :: "store \<Rightarrow> bool" where
  "store_wf s \<longleftrightarrow>
     distinct (map c_id (contacts s)) \<and> distinct (map c_identity_key (contacts s))
   \<and> list_all contact_ok (contacts s)
   \<and> distinct (map s_contact_id (sessions s))
   \<and> distinct (map message_key (messages s)) \<and> list_all message_ok (messages s)"

lemma store_wf_empty [simp]: "store_wf (empty_store fk)"
  by (simp add: store_wf_def empty_store_def)

text \<open>What the code reads from a well-formed contact row.\<close>

definition contact_of :: "contact_row \<Rightarrow> ContactRecord" where
  "contact_of r = \<lparr>cr_id = c_id r, identity_key = c_identity_key r, curve25519_key = c_curve25519_key r,
     display_name = c_display_name r, server_addr = c_server_addr r,
     pair_secret = Option.bind (c_pair_secret r) (to_array 32),
     next_write_n = as_u64 (case c_next_write_n r of Integer n \<Rightarrow> n | Real63 \<Rightarrow> 0),
     pending_otk = Option.bind (c_pending_otk r) (to_array 32),
     contact_transport_key = Option.bind (c_transport_key r) (to_array 32),
     pointer_updated_at = as_u64 (c_pointer_updated_at r), pointer_seq = as_u64 (c_pointer_seq r)\<rparr>"

definition message_of :: "message_row \<Rightarrow> StoredMessage" where
  "message_of r = \<lparr>sm_msg_id = m_msg_id r, sm_direction = direction_from_str (m_direction r),
     sm_lamport = as_u64 (m_lamport r), sm_sent_at = as_u64 (m_sent_at r),
     sm_plaintext = m_plaintext r, sm_status = Option.bind (m_status r) status_from_str\<rparr>"

lemma to_array_self: "length v = n \<Longrightarrow> to_array n v = Some v"
  by simp

lemma row_to_contact_ok: "contact_ok r \<Longrightarrow> row_to_contact r = Ok (contact_of r)"
  by (auto simp: contact_ok_def row_to_contact_def contact_of_def to_array_self simp del: to_array_Some_iff)

lemma row_to_message_ok: "message_ok r \<Longrightarrow> row_to_message r = Ok (message_of r)"
  by (auto simp: message_ok_def row_to_message_def message_of_def to_array_self simp del: to_array_Some_iff)

lemma contact_of_id [simp]: "cr_id (contact_of r) = c_id r"
  by (simp add: contact_of_def)

lemma list_contacts_rows:
  assumes "list_all contact_ok (contacts s)"
  shows "list_contacts s = (Ok (map contact_of (sort_key c_id (contacts s))), s)"
proof -
  have "row_to_contact r = Ok (contact_of r)" if "r \<in> set (sort_key c_id (contacts s))" for r
    using that assms by (intro row_to_contact_ok) (simp add: list_all_iff)
  then have "collect_rows row_to_contact (sort_key c_id (contacts s))
      = Ok (map contact_of (sort_key c_id (contacts s)))" by (rule collect_rows_map)
  then show ?thesis by (simp add: list_contacts_def)
qed

lemma list_contacts_ok: "store_wf s \<Longrightarrow> list_contacts s = (Ok (map contact_of (sort_key c_id (contacts s))), s)"
  by (rule list_contacts_rows) (simp add: store_wf_def)

lemma find_map: "find P (map f xs) = map_option f (find (P \<circ> f) xs)"
  by (induction xs) auto

lemma find_sort_key:
  assumes "distinct (map key xs)"
  shows "find (\<lambda>x. key x = k) (sort_key key xs) = lookup_row key k xs"
proof -
  have "lookup_row key k (sort_key key xs) = lookup_row key k xs"
  proof (cases "lookup_row key k xs")
    case None
    then have "k \<notin> key ` set (sort_key key xs)" by (simp add: lookup_row_None_iff)
    with None show ?thesis using lookup_row_None_iff[of key k "sort_key key xs"] by simp
  next
    case (Some r)
    have "distinct (map key (sort_key key xs))"
      using assms by (simp add: distinct_map)
    then show ?thesis using Some lookup_row_SomeD[OF Some] lookup_row_distinct by fastforce
  qed
  then show ?thesis by (simp add: lookup_row_def)
qed

lemma get_contact_ok:
  assumes "store_wf s"
  shows "get_contact cid s = (Ok (map_option contact_of (lookup_row c_id cid (contacts s))), s)"
  using assms find_sort_key[of c_id "contacts s" cid]
  by (simp add: get_contact_def and_then_def list_contacts_ok find_map comp_def store_wf_def)

lemma messages_for_contact_ok:
  assumes "store_wf s"
  shows "messages_for_contact cid s =
    (Ok (map message_of (sort_key m_lamport (filter (\<lambda>r. m_contact_id r = cid) (messages s)))), s)"
proof -
  have "row_to_message r = Ok (message_of r)"
    if "r \<in> set (sort_key m_lamport (filter (\<lambda>r. m_contact_id r = cid) (messages s)))" for r
    using that assms by (intro row_to_message_ok) (simp add: store_wf_def list_all_iff)
  then have "collect_rows row_to_message (sort_key m_lamport (filter (\<lambda>r. m_contact_id r = cid) (messages s)))
      = Ok (map message_of (sort_key m_lamport (filter (\<lambda>r. m_contact_id r = cid) (messages s))))"
    by (rule collect_rows_map)
  then show ?thesis by (simp add: messages_for_contact_def)
qed

subsection \<open>Operations keep stores well-formed\<close>

lemma list_all_update_where:
  "list_all P rows \<Longrightarrow> (\<And>r. Q r \<Longrightarrow> P r \<Longrightarrow> P (f r)) \<Longrightarrow> list_all P (update_where Q f rows)"
  by (induction rows) auto

lemma update_contact_wf:
  assumes "store_wf s"
    and "\<And>r. c_id (f r) = c_id r" and "\<And>r. c_identity_key (f r) = c_identity_key r"
    and "\<And>r. r \<in> set (contacts s) \<Longrightarrow> c_id r = cid \<Longrightarrow> contact_ok r \<Longrightarrow> contact_ok (f r)"
  shows "store_wf (snd (update_contact cid f s))"
proof -
  have "list_all contact_ok (update_where (\<lambda>r. c_id r = cid) f (contacts s))"
    using assms(1,4) by (auto simp: store_wf_def list_all_iff set_update_where)
  with assms show ?thesis
    by (simp add: store_wf_def update_contact_def map_update_where)
qed

lemma setters_wf [intro]:
  assumes "store_wf s"
  shows "store_wf (snd (set_contact_server_addr cid addr s))"
    and "store_wf (snd (set_contact_pointer_update cid addr ua sq s))"
    and "store_wf (snd (set_contact_transport_key cid k s))"
    and "store_wf (snd (set_contact_pair_secret cid k s))"
    and "store_wf (snd (set_contact_pending_otk cid otk s))"
  unfolding set_contact_server_addr_def set_contact_pointer_update_def set_contact_transport_key_def
    set_contact_pair_secret_def set_contact_pending_otk_def
  using assms by (auto intro!: update_contact_wf simp: contact_ok_def)

lemma upsert_contact_wf [intro]:
  assumes "store_wf s" and "length ik = 32" and "length ck = 32"
  shows "store_wf (snd (upsert_contact ik ck name s))"
proof -
  let ?fresh = "\<lparr>c_id = next_rowid c_id (contacts s), c_identity_key = ik, c_curve25519_key = ck,
            c_display_name = name, c_server_addr = None, c_pair_secret = None,
            c_next_write_n = Integer 0, c_pending_otk = None, c_transport_key = None,
            c_pointer_updated_at = 0, c_pointer_seq = 0\<rparr>"
  let ?f = "\<lambda>r. r\<lparr>c_curve25519_key := ck, c_display_name := name\<rparr>"
  let ?cs = "upsert c_identity_key ?f ?fresh (contacts s)"
  have "distinct (map c_id ?cs)"
    using assms(1) next_rowid_fresh[of c_id "contacts s"]
    by (auto simp: upsert_def map_update_where store_wf_def)
  moreover have "distinct (map c_identity_key ?cs)"
    using assms(1) by (intro distinct_upsert) (auto simp: store_wf_def)
  moreover have "contact_ok ?fresh"
    using assms(2,3) next_rowid_pos[of c_id "contacts s"] by (simp add: contact_ok_def i64_max_def)
  then have "list_all contact_ok ?cs"
    using assms(1,3) list_all_update_where[of contact_ok "contacts s" "\<lambda>x. c_identity_key x = ik" ?f]
    by (auto simp: upsert_def store_wf_def contact_ok_def)
  ultimately show ?thesis
    using assms(1) by (auto simp: upsert_contact_def Let_def store_wf_def split: option.splits)
qed

lemma save_session_pickle_wf [intro]:
  "store_wf s \<Longrightarrow> store_wf (snd (save_session_pickle cid p s))"
  by (auto simp: store_wf_def save_session_pickle_def intro!: distinct_upsert)

lemma insert_message_wf [intro]:
  "store_wf s \<Longrightarrow> length (nm_msg_id msg) = 16 \<Longrightarrow> store_wf (snd (insert_message cid msg s))"
  using as_i64_bounds[of "nm_lamport msg"]
  by (cases "nm_status msg") (auto simp: store_wf_def insert_message_def message_ok_def message_key_def)

lemma set_status_wf [intro]:
  assumes "store_wf s"
  shows "store_wf (snd (set_message_status cid mid st s))"
    and "store_wf (snd (set_message_status_by_msg_id mid st s))"
proof -
  have "map message_key (update_where Q (m_status_update (\<lambda>_. Some (status_as_str st))) ms) = map message_key ms"
    for Q ms by (simp add: map_update_where message_key_def)
  moreover have "list_all message_ok ms \<Longrightarrow>
      list_all message_ok (update_where Q (m_status_update (\<lambda>_. Some (status_as_str st))) ms)" for Q ms
    by (rule list_all_update_where) (auto simp: message_ok_def)
  ultimately show "store_wf (snd (set_message_status cid mid st s))"
    and "store_wf (snd (set_message_status_by_msg_id mid st s))"
    using assms by (simp_all add: store_wf_def set_message_status_def set_message_status_by_msg_id_def)
qed

lemma clock_account_wf [simp]:
  "store_wf (s\<lparr>local_clock := c\<rparr>) = store_wf s" "store_wf (upsert_account f s) = store_wf s"
  by (simp_all add: store_wf_def upsert_account_def)

lemma account_ops_wf [simp]:
  "store_wf (snd (tick_lamport s)) = store_wf s" "store_wf (snd (observe_lamport n s)) = store_wf s"
  "store_wf (snd (save_account_pickle p s)) = store_wf s"
  "store_wf (snd (set_last_synced_blob_id v s)) = store_wf s"
  "store_wf (snd (set_pointer_broadcast_seq v s)) = store_wf s"
  "store_wf (snd (increment_and_get_pointer_broadcast_seq s)) = store_wf s"
  "store_wf (snd (set_own_server_addr addr s)) = store_wf s"
  by (auto simp: tick_lamport_def observe_lamport_def current_def save_account_pickle_def
      set_last_synced_blob_id_def set_pointer_broadcast_seq_def set_own_server_addr_def
      increment_and_get_pointer_broadcast_seq_def get_pointer_broadcast_seq_def split: option.splits)

section \<open>Columns\<close>

interpretation col_server_addr: column c_id c_server_addr "\<lambda>v. c_server_addr_update (\<lambda>_. v)"
  by unfold_locales simp_all

interpretation col_pair_secret: column c_id c_pair_secret "\<lambda>v. c_pair_secret_update (\<lambda>_. v)"
  by unfold_locales simp_all

interpretation col_pending_otk: column c_id c_pending_otk "\<lambda>v. c_pending_otk_update (\<lambda>_. v)"
  by unfold_locales simp_all

interpretation col_transport_key: column c_id c_transport_key "\<lambda>v. c_transport_key_update (\<lambda>_. v)"
  by unfold_locales simp_all

interpretation col_session: column s_contact_id s_pickle "\<lambda>v. s_pickle_update (\<lambda>_. v)"
  by unfold_locales simp_all

lemma get_contact_after_update:
  assumes "store_wf s" and "store_wf (snd (update_contact cid f s))" and "\<And>r. c_id (f r) = c_id r"
  shows "fst (get_contact cid' (snd (update_contact cid f s))) =
    (if cid' = cid then Ok (map_option (contact_of \<circ> f) (lookup_row c_id cid (contacts s)))
     else fst (get_contact cid' s))"
  using assms(3) get_contact_ok[OF assms(2), of cid'] get_contact_ok[OF assms(1), of cid']
  by (simp add: update_contact_def lookup_row_update_where option.map_comp)

text \<open>A contact's record after each of the setters.\<close>

lemma contact_of_setters:
  "contact_of (c_server_addr_update (\<lambda>_. a) r) = (contact_of r)\<lparr>server_addr := a\<rparr>"
  "contact_of (c_transport_key_update (\<lambda>_. Some k) r) =
     (contact_of r)\<lparr>contact_transport_key := to_array 32 k\<rparr>"
  "contact_of (c_pair_secret_update (\<lambda>_. Some k) r) = (contact_of r)\<lparr>pair_secret := to_array 32 k\<rparr>"
  "contact_of (c_pending_otk_update (\<lambda>_. otk) r) =
     (contact_of r)\<lparr>pending_otk := Option.bind otk (to_array 32)\<rparr>"
  "contact_of (r\<lparr>c_server_addr := a, c_pointer_updated_at := as_i64 ua, c_pointer_seq := as_i64 sq\<rparr>) =
     (contact_of r)\<lparr>server_addr := a, pointer_updated_at := ua, pointer_seq := sq\<rparr>"
  by (simp_all add: contact_of_def)

lemmas contact_setter_defs = set_contact_server_addr_def set_contact_pointer_update_def
  set_contact_transport_key_def set_contact_pair_secret_def set_contact_pending_otk_def

section \<open>Orders\<close>

text \<open>A row appended to a table is listed after every row whose key is at most its own.\<close>

lemma sorted_split:
  fixes key :: "'r \<Rightarrow> 'k :: linorder"
  assumes "sorted (map key (before @ after))"
    and "\<forall>y \<in> set before. key y \<le> key x" and "\<forall>y \<in> set after. key x < key y"
    and that: "sort_key key xs = before @ after"
  shows "sort_key key (xs @ [x]) = before @ x # after"
proof (rule properties_for_sort_key)
  have "mset (before @ after) = mset xs" using that by (metis mset_sort)
  then show "mset (before @ x # after) = mset (xs @ [x])" by simp
  show "sorted (map key (before @ x # after))"
    using assms by (auto simp: sorted_append less_imp_le)
  fix k assume "k \<in> set (before @ x # after)"
  have "filter (\<lambda>y. key y = key k) (before @ after) = filter (\<lambda>y. key y = key k) xs"
    using sort_key_stable[of key "key k" xs] by (simp add: that)
  moreover have "key x = key k \<Longrightarrow> filter (\<lambda>y. key y = key k) after = []"
    using assms(3) by (auto simp: filter_empty_conv)
  ultimately have "filter (\<lambda>y. key y = key k) (before @ x # after) = filter (\<lambda>y. key y = key k) (xs @ [x])"
    by auto
  moreover have "(\<lambda>y. key k = key y) = (\<lambda>y. key y = key k)" by auto
  ultimately show "filter (\<lambda>y. key k = key y) (before @ x # after) = filter (\<lambda>y. key k = key y) (xs @ [x])"
    by simp
qed

lemma sort_key_snoc:
  fixes key :: "'r \<Rightarrow> 'k :: linorder"
  shows "\<exists>before after. sort_key key xs = before @ after \<and> sort_key key (xs @ [x]) = before @ x # after
    \<and> (\<forall>y \<in> set before. key y \<le> key x) \<and> (\<forall>y \<in> set after. key x < key y)"
proof -
  define before where "before = takeWhile (\<lambda>y. key y \<le> key x) (sort_key key xs)"
  define after where "after = dropWhile (\<lambda>y. key y \<le> key x) (sort_key key xs)"
  have split: "sort_key key xs = before @ after" by (simp add: before_def after_def)
  then have srt: "sorted (map key (before @ after))" by (metis sorted_sort_key)
  have le: "\<forall>y \<in> set before. key y \<le> key x" by (auto simp: before_def dest: set_takeWhileD)
  have gt: "\<forall>y \<in> set after. key x < key y"
  proof (cases after)
    case (Cons a as)
    have "key x < key a"
      using Cons by (simp add: after_def dropWhile_eq_Cons_conv not_le)
    moreover have "\<forall>y \<in> set as. key a \<le> key y" using srt Cons by (simp add: sorted_append)
    ultimately show ?thesis using Cons by fastforce
  qed simp
  from sorted_split[OF srt le gt split] split le gt show ?thesis by blast
qed

section \<open>Properties\<close>

lemma upsert_new_contact:
  assumes "lookup_row c_identity_key ik (contacts s) = None"
  shows "upsert_contact ik ck name s = (Ok (next_rowid c_id (contacts s)), s\<lparr>contacts := contacts s @
      [\<lparr>c_id = next_rowid c_id (contacts s), c_identity_key = ik, c_curve25519_key = ck,
        c_display_name = name, c_server_addr = None, c_pair_secret = None,
        c_next_write_n = Integer 0, c_pending_otk = None, c_transport_key = None,
        c_pointer_updated_at = 0, c_pointer_seq = 0\<rparr>]\<rparr>)"
proof -
  from assms have "ik \<notin> c_identity_key ` set (contacts s)" by (simp add: lookup_row_None_iff)
  with assms show ?thesis by (simp add: upsert_contact_def Let_def upsert_def lookup_row_append)
qed

lemma upsert_known_contact:
  assumes "store_wf s" and "lookup_row c_identity_key ik (contacts s) = Some old"
  shows "upsert_contact ik ck name s = (Ok (c_id old), s\<lparr>contacts := update_where (\<lambda>r. c_id r = c_id old)
      (\<lambda>r. r\<lparr>c_curve25519_key := ck, c_display_name := name\<rparr>) (contacts s)\<rparr>)"
proof -
  let ?f = "\<lambda>r. r\<lparr>c_curve25519_key := ck, c_display_name := name\<rparr>"
  let ?cs = "update_where (\<lambda>r. c_identity_key r = ik) ?f (contacts s)"
  from lookup_row_SomeD[OF assms(2)] have old: "old \<in> set (contacts s)" "c_identity_key old = ik" by auto
  then have mem: "ik \<in> c_identity_key ` set (contacts s)" by auto
  have "lookup_row c_identity_key ik ?cs = Some (?f old)"
    using assms(2) by (simp add: lookup_row_update_where)
  then have up: "upsert_contact ik ck name s = (Ok (c_id old), s\<lparr>contacts := ?cs\<rparr>)"
    using mem by (simp add: upsert_contact_def Let_def upsert_def)
  have "c_identity_key r = ik \<longleftrightarrow> c_id r = c_id old" if "r \<in> set (contacts s)" for r
    using that old assms(1) by (auto simp: store_wf_def distinct_map inj_on_def)
  then have "?cs = update_where (\<lambda>r. c_id r = c_id old) ?f (contacts s)" by (simp add: update_where_def)
  with up show ?thesis by simp
qed

text \<open>
  Contacts are keyed by identity. Adding a contact on a well-formed store succeeds; a new
  identity gets an id not in use and a record without address, secret or pending key; a known
  identity keeps its id and everything but its name and Olm key. No other contact changes, and
  the store stays well-formed.
\<close>

lemma contact_lifecycle:
  assumes "store_wf s" and "length ik = 32" and "length ck = 32"
  shows "\<exists>cid s'. upsert_contact ik ck name s = (Ok cid, s') \<and> store_wf s'
    \<and> fst (get_contact cid s') = Ok (Some (case lookup_row c_identity_key ik (contacts s) of
          None \<Rightarrow> \<lparr>cr_id = cid, identity_key = ik, curve25519_key = ck, display_name = name,
             server_addr = None, pair_secret = None, next_write_n = 0, pending_otk = None,
             contact_transport_key = None, pointer_updated_at = 0, pointer_seq = 0\<rparr>
        | Some old \<Rightarrow> (contact_of old)\<lparr>curve25519_key := ck, display_name := name\<rparr>))
    \<and> (lookup_row c_identity_key ik (contacts s) = None \<longrightarrow> fst (get_contact cid s) = Ok None)
    \<and> (\<forall>cid'. cid' \<noteq> cid \<longrightarrow> fst (get_contact cid' s') = fst (get_contact cid' s))"
proof -
  let ?s' = "snd (upsert_contact ik ck name s)"
  have wf': "store_wf ?s'" using assms by auto
  note gets = get_contact_ok[OF assms(1)] get_contact_ok[OF wf']
  show ?thesis
  proof (cases "lookup_row c_identity_key ik (contacts s)")
    case None
    have "lookup_row c_id (next_rowid c_id (contacts s)) (contacts s) = None"
      using next_rowid_fresh[of c_id "contacts s"] by (simp add: lookup_row_None_iff)
    with upsert_new_contact[OF None, of ck name] wf' gets None show ?thesis
      by (auto simp: lookup_row_append contact_of_def as_u64_def split: option.splits)
  next
    case (Some old)
    have "lookup_row c_id (c_id old) (contacts s) = Some old"
      using assms(1) lookup_row_SomeD[OF Some] lookup_row_distinct[of c_id "contacts s"] by (simp add: store_wf_def)
    moreover have "contact_of (old\<lparr>c_curve25519_key := ck, c_display_name := name\<rparr>)
        = (contact_of old)\<lparr>curve25519_key := ck, display_name := name\<rparr>"
      by (simp add: contact_of_def)
    ultimately show ?thesis
      using upsert_known_contact[OF assms(1) Some, of ck name] wf' gets Some by (simp add: lookup_row_update_where)
  qed
qed

lemma contact_lifecycle_witness:
  "\<exists>cid s'. upsert_contact (replicate 32 1) (replicate 32 2) (Some ''bob'') (empty_store True) = (Ok cid, s')
     \<and> store_wf s' \<and> fst (get_contact cid (empty_store True)) = Ok None"
  using contact_lifecycle[OF store_wf_empty, of "replicate 32 1" "replicate 32 2" "Some ''bob''" True]
  by (fastforce simp: empty_store_def)

text \<open>
  Every column is independent. Setting the address, the transport key, the pair secret, the
  pending one-time key or the pointer of one contact changes exactly that part of its record and
  nothing of any other contact.
\<close>

lemma contact_columns_independent:
  assumes "store_wf s" and "fst (get_contact cid s) = Ok (Some c)"
  shows "fst (get_contact cid (snd (set_contact_server_addr cid a s))) = Ok (Some (c\<lparr>server_addr := a\<rparr>))
    \<and> fst (get_contact cid (snd (set_contact_transport_key cid k s)))
        = Ok (Some (c\<lparr>contact_transport_key := to_array 32 k\<rparr>))
    \<and> fst (get_contact cid (snd (set_contact_pair_secret cid k s)))
        = Ok (Some (c\<lparr>pair_secret := to_array 32 k\<rparr>))
    \<and> fst (get_contact cid (snd (set_contact_pending_otk cid otk s)))
        = Ok (Some (c\<lparr>pending_otk := Option.bind otk (to_array 32)\<rparr>))
    \<and> fst (get_contact cid (snd (set_contact_pointer_update cid a ua sq s)))
        = Ok (Some (c\<lparr>server_addr := a, pointer_updated_at := ua, pointer_seq := sq\<rparr>))
    \<and> (cid' \<noteq> cid \<longrightarrow>
         fst (get_contact cid' (snd (set_contact_pointer_update cid a ua sq s))) = fst (get_contact cid' s)
       \<and> fst (get_contact cid' (snd (set_contact_pending_otk cid otk s))) = fst (get_contact cid' s))"
proof -
  from assms obtain r where r: "lookup_row c_id cid (contacts s) = Some r" "c = contact_of r"
    by (auto simp: get_contact_ok)
  have wf: "store_wf (snd (set_contact_server_addr cid a s))"
    "store_wf (snd (set_contact_pointer_update cid a ua sq s))"
    "store_wf (snd (set_contact_transport_key cid k s))"
    "store_wf (snd (set_contact_pair_secret cid k s))" "store_wf (snd (set_contact_pending_otk cid otk s))"
    using assms(1) by (auto intro: setters_wf)
  note after = get_contact_after_update[OF assms(1)]
  show ?thesis
    using wf unfolding contact_setter_defs
    by (simp add: after r contact_of_setters)
qed

definition sample_store :: store where
  "sample_store = snd (upsert_contact (replicate 32 1) (replicate 32 2) (Some ''bob'') (empty_store True))"

lemma sample_store_wf: "store_wf sample_store"
  unfolding sample_store_def by (rule upsert_contact_wf) simp_all

definition sample_contact :: ContactRecord where
  "sample_contact = \<lparr>cr_id = 1, identity_key = replicate 32 1, curve25519_key = replicate 32 2,
     display_name = Some ''bob'', server_addr = None, pair_secret = None, next_write_n = 0,
     pending_otk = None, contact_transport_key = None, pointer_updated_at = 0, pointer_seq = 0\<rparr>"

lemma sample_store_contact: "fst (get_contact 1 sample_store) = Ok (Some sample_contact)"
  using get_contact_ok[OF sample_store_wf, of 1]
  by (simp add: sample_store_def sample_contact_def upsert_contact_def empty_store_def Let_def upsert_def
      next_rowid_def contact_of_def as_u64_def)

lemma increment_next_write_n:
  assumes "lookup_row c_id cid (contacts s) = Some r" and "c_next_write_n r = Integer n" and "n < i64_max"
  shows "increment_and_get_next_write_n cid s = (Ok (as_u64 n),
    snd (update_contact cid (\<lambda>r. r\<lparr>c_next_write_n := sql_succ (c_next_write_n r)\<rparr>) s))"
  using assms by (simp add: increment_and_get_next_write_n_def and_then_def update_contact_def
      lookup_row_update_where)

fun hand_out_ns :: "nat \<Rightarrow> i64 \<Rightarrow> store \<Rightarrow> (u64, StoreError) outcome list" where
  "hand_out_ns 0 cid s = []"
| "hand_out_ns (Suc k) cid s =
     (let (n, s') = increment_and_get_next_write_n cid s in n # hand_out_ns k cid s')"

text \<open>
  The write counter never repeats. Each call returns the counter's value and advances it, so
  the values handed out for one contact are consecutive and all different, whatever happens to
  other contacts in between; an unknown contact is an error.
\<close>

lemma write_counter_never_repeats:
  assumes "lookup_row c_id cid (contacts s) = Some r" and "c_next_write_n r = Integer n"
    and "0 \<le> n" and "n + int k \<le> i64_max"
  shows "hand_out_ns k cid s = map (\<lambda>i. Ok (as_u64 (n + int i))) [0..<k]
    \<and> distinct (hand_out_ns k cid s)
    \<and> (lookup_row c_id other (contacts s) = None \<longrightarrow>
         fst (increment_and_get_next_write_n other s) = Err (Sqlite QueryReturnedNoRows))"
proof -
  have eq: "hand_out_ns k cid s = map (\<lambda>i. Ok (as_u64 (n + int i))) [0..<k]"
    using assms
  proof (induction k arbitrary: s r n)
    case (Suc k)
    then have lt: "n < i64_max" by simp
    let ?f = "\<lambda>r. r\<lparr>c_next_write_n := sql_succ (c_next_write_n r)\<rparr>"
    let ?s' = "snd (update_contact cid ?f s)"
    from Suc.prems(1) have "lookup_row c_id cid (contacts ?s') = Some (?f r)"
      by (simp add: update_contact_def lookup_row_update_where)
    moreover have "c_next_write_n (?f r) = Integer (n + 1)" using Suc.prems(2) lt by simp
    ultimately have "hand_out_ns k cid ?s' = map (\<lambda>i. Ok (as_u64 (n + 1 + int i))) [0..<k]"
      using Suc.IH[of ?s' "?f r" "n + 1"] Suc.prems(3,4) by simp
    also have "\<dots> = map (\<lambda>i. Ok (as_u64 (n + int i))) [1..<Suc k]"
      by (simp add: map_Suc_upt[symmetric] comp_def algebra_simps del: upt_Suc)
    finally show ?case
      using increment_next_write_n[OF Suc.prems(1,2) lt]
      by (simp add: upt_conv_Cons del: upt_Suc)
  qed simp
  have "inj_on (\<lambda>i. Ok (as_u64 (n + int i)) :: (u64, StoreError) outcome) (set [0..<k])"
  proof (rule inj_onI)
    fix i j assume ij: "i \<in> set [0..<k]" "j \<in> set [0..<k]"
      "(Ok (as_u64 (n + int i)) :: (u64, StoreError) outcome) = Ok (as_u64 (n + int j))"
    then have "n + int i = n + int j"
      using assms(3,4) by (subst as_u64_inject[symmetric]) (auto simp: i64_min_def)
    then show "i = j" by simp
  qed
  then have "distinct (hand_out_ns k cid s)" by (simp add: eq distinct_map)
  with eq show ?thesis
    by (simp add: increment_and_get_next_write_n_def and_then_def update_contact_def
        lookup_row_update_where)
qed

lemma write_counter_never_repeats_witness:
  "hand_out_ns 2 1 sample_store = [Ok 0, Ok 1]"
proof -
  have row: "lookup_row c_id 1 (contacts sample_store) = Some (hd (contacts sample_store))"
    and n: "c_next_write_n (hd (contacts sample_store)) = Integer 0"
    by (simp_all add: sample_store_def upsert_contact_def empty_store_def Let_def upsert_def next_rowid_def)
  have "[0..<2] = [0, Suc 0]" by (simp add: upt_rec)
  then show ?thesis
    using write_counter_never_repeats[OF row n, of 2] by (simp add: i64_max_def as_u64_def)
qed

lemma message_of_lamport:
  "store_wf s \<Longrightarrow> r \<in> set (messages s) \<Longrightarrow> as_i64 (sm_lamport (message_of r)) = m_lamport r"
  by (simp add: store_wf_def list_all_iff message_ok_def message_of_def)

text \<open>The row of a new message, and what is read back from it.\<close>

definition new_message_row :: "i64 \<Rightarrow> NewMessage \<Rightarrow> message_row" where
  "new_message_row cid msg = \<lparr>m_contact_id = cid, m_msg_id = nm_msg_id msg,
      m_direction = direction_as_str (nm_direction msg),
      m_lamport = as_i64 (nm_lamport msg), m_sent_at = as_i64 (nm_sent_at msg),
      m_plaintext = nm_plaintext msg, m_status = map_option status_as_str (nm_status msg)\<rparr>"

lemma message_of_new_row:
  "message_of (new_message_row cid msg) = \<lparr>sm_msg_id = nm_msg_id msg, sm_direction = nm_direction msg,
      sm_lamport = nm_lamport msg, sm_sent_at = nm_sent_at msg, sm_plaintext = nm_plaintext msg,
      sm_status = nm_status msg\<rparr>"
  by (cases "nm_status msg") (simp_all add: message_of_def new_message_row_def)

lemma insert_message_appends:
  assumes "cid \<in> c_id ` set (contacts s)" and "(cid, nm_msg_id msg) \<notin> set (map message_key (messages s))"
  shows "insert_message cid msg s = (Ok (), s\<lparr>messages := messages s @ [new_message_row cid msg]\<rparr>)"
  using assms by (auto simp: insert_message_def fk_violated_def message_key_def image_iff new_message_row_def)

text \<open>
  C33: message history. Storing a message for a known contact succeeds exactly when the contact
  has no message with that id; it is then listed once, after every message with a Lamport value
  up to its own and before all later ones, with what was stored; other contacts' histories do
  not change. A refused insert changes nothing.
\<close>

theorem message_history:
  assumes "store_wf s" and "length (nm_msg_id msg) = 16" and "cid \<in> c_id ` set (contacts s)"
  shows "if (cid, nm_msg_id msg) \<in> set (map message_key (messages s))
    then insert_message cid msg s = (Err (Sqlite ConstraintViolation), s)
    else \<exists>s' before after. insert_message cid msg s = (Ok (), s') \<and> store_wf s'
      \<and> fst (messages_for_contact cid s) = Ok (before @ after)
      \<and> fst (messages_for_contact cid s') = Ok (before @
          \<lparr>sm_msg_id = nm_msg_id msg, sm_direction = nm_direction msg, sm_lamport = nm_lamport msg,
           sm_sent_at = nm_sent_at msg, sm_plaintext = nm_plaintext msg, sm_status = nm_status msg\<rparr>
          # after)
      \<and> (\<forall>m \<in> set before. as_i64 (sm_lamport m) \<le> as_i64 (nm_lamport msg))
      \<and> (\<forall>m \<in> set after. as_i64 (nm_lamport msg) < as_i64 (sm_lamport m))
      \<and> (\<forall>other. other \<noteq> cid \<longrightarrow> fst (messages_for_contact other s') = fst (messages_for_contact other s))"
proof (cases "(cid, nm_msg_id msg) \<in> set (map message_key (messages s))")
  case True
  then show ?thesis by (auto simp: insert_message_def message_key_def)
next
  case False
  let ?row = "new_message_row cid msg"
  let ?s' = "s\<lparr>messages := messages s @ [?row]\<rparr>"
  let ?of = "\<lambda>c st. filter (\<lambda>r. m_contact_id r = c) (messages st)"
  have row: "m_lamport ?row = as_i64 (nm_lamport msg)" "m_contact_id ?row = cid" by (simp_all add: new_message_row_def)
  note ins = insert_message_appends[OF assms(3) False]
  have wf': "store_wf ?s'" using insert_message_wf[OF assms(1,2), of cid] by (simp add: ins)
  obtain before after where split: "sort_key m_lamport (?of cid s) = before @ after"
    and new: "sort_key m_lamport (?of cid s @ [?row]) = before @ ?row # after"
    and le: "\<forall>y \<in> set before. m_lamport y \<le> m_lamport ?row"
    and gt: "\<forall>y \<in> set after. m_lamport ?row < m_lamport y"
    using sort_key_snoc[of m_lamport "?of cid s" ?row] by blast
  have "set (before @ after) = set (?of cid s)" by (metis split set_sort)
  then have lams: "as_i64 (sm_lamport (message_of y)) = m_lamport y" if "y \<in> set (before @ after)" for y
    using that message_of_lamport[OF assms(1)] by auto
  have "fst (messages_for_contact cid s) = Ok (map message_of before @ map message_of after)"
    using split by (simp add: messages_for_contact_ok[OF assms(1)])
  moreover have "fst (messages_for_contact cid ?s') = Ok (map message_of before @ message_of ?row # map message_of after)"
    using new by (simp add: messages_for_contact_ok[OF wf'] row)
  moreover have "fst (messages_for_contact other ?s') = fst (messages_for_contact other s)" if "other \<noteq> cid" for other
    using that by (simp add: messages_for_contact_ok[OF assms(1)] messages_for_contact_ok[OF wf'] row)
  moreover have "\<forall>m \<in> set (map message_of before). as_i64 (sm_lamport m) \<le> as_i64 (nm_lamport msg)"
    and "\<forall>m \<in> set (map message_of after). as_i64 (nm_lamport msg) < as_i64 (sm_lamport m)"
    using le gt lams by (auto simp: row)
  ultimately show ?thesis using False ins wf' unfolding message_of_new_row by (simp only: if_False) blast
qed

definition sample_message :: NewMessage where
  "sample_message = \<lparr>nm_msg_id = replicate 16 1, nm_direction = Outgoing, nm_lamport = 5, nm_sent_at = 9,
     nm_plaintext = [1, 2], nm_status = Some Sent\<rparr>"

theorem message_history_witness:
  "\<exists>s'. insert_message 1 sample_message sample_store = (Ok (), s')
     \<and> fst (messages_for_contact 1 s') = Ok [\<lparr>sm_msg_id = replicate 16 1, sm_direction = Outgoing,
          sm_lamport = 5, sm_sent_at = 9, sm_plaintext = [1, 2], sm_status = Some Sent\<rparr>]"
proof -
  have in_store: "1 \<in> c_id ` set (contacts sample_store)" "messages sample_store = []"
    by (simp_all add: sample_store_def upsert_contact_def empty_store_def Let_def upsert_def next_rowid_def)
  have "length (nm_msg_id sample_message) = 16" by (simp add: sample_message_def)
  from message_history[OF sample_store_wf this in_store(1)] in_store(2) show ?thesis
    by (auto simp: messages_for_contact_def sample_message_def)
qed

text \<open>
  The Lamport rule. While the clock and the remote value are below the largest 64-bit signed
  number, a tick advances the clock by one and observing a remote value moves it past both; so
  a reply carries a larger value than the message it answers.
\<close>

lemma lamport_rule:
  assumes "local_clock s = Integer c" and "0 \<le> c" and "c < i64_max" and "unat remote < 2 ^ 63 - 1"
  shows "(\<exists>s'. tick_lamport s = (Ok (as_u64 (c + 1)), s') \<and> local_clock s' = Integer (c + 1))
    \<and> (\<exists>s' v. observe_lamport remote s = (Ok v, s') \<and> local_clock s' = Integer (int (unat v))
         \<and> unat v = max (nat c) (unat remote) + 1)"
proof -
  have r: "as_i64 remote = int (unat remote)" using assms(4) by (intro as_i64_nonneg) simp
  let ?m = "max c (int (unat remote))"
  have lt: "?m < i64_max" using assms(3,4) by (auto simp: i64_max_def simp del: of_nat_unat)
  then have succ: "sql_succ (max (local_clock s) (Integer (as_i64 remote))) = Integer (?m + 1)"
    by (simp add: assms(1) r del: of_nat_unat)
  have "unat (as_u64 (?m + 1)) = nat (?m + 1)"
    using lt assms(2) by (intro unat_as_u64) auto
  then have "unat (as_u64 (?m + 1)) = max (nat c) (unat remote) + 1"
    using assms(2) by linarith
  moreover have "Integer (?m + 1) = Integer (int (unat (as_u64 (?m + 1))))"
    using \<open>unat (as_u64 (?m + 1)) = nat (?m + 1)\<close> assms(2) by (simp del: of_nat_unat)
  ultimately show ?thesis
    using assms succ by (simp add: tick_lamport_def observe_lamport_def current_def del: of_nat_unat)
qed

lemma lamport_rule_witness:
  "fst (tick_lamport (empty_store True)) = Ok 1
   \<and> (\<exists>s' v. observe_lamport 41 (empty_store True) = (Ok v, s') \<and> unat v = 42)"
proof -
  have c: "local_clock (empty_store True) = Integer 0" by (simp add: empty_store_def)
  have "\<exists>s'. tick_lamport (empty_store True) = (Ok (as_u64 (0 + 1)), s')"
    "\<exists>s' v. observe_lamport 41 (empty_store True) = (Ok v, s') \<and> unat v = 42"
    using lamport_rule[OF c, of 41] by (auto simp: i64_max_def)
  then show ?thesis by (auto simp: as_u64_def)
qed

lemma stuck_clock:
  assumes "local_clock s = Real63"
  shows "fst (tick_lamport s) = Err (Sqlite InvalidColumnType)"
    and "local_clock (snd (tick_lamport s)) = Real63"
    and "fst (observe_lamport v s) = Err (Sqlite InvalidColumnType)"
    and "local_clock (snd (observe_lamport v s)) = Real63"
  using assms by (simp_all add: tick_lamport_def observe_lamport_def current_def)

text \<open>
  C34: one message can stop the clock. The remote value comes from an unauthenticated envelope
  header. If it is the largest signed 64-bit number, SQLite stores a floating-point number
  instead of the next integer, and from then on every tick and every observation is an error,
  whatever else is observed; values from \<open>2 ^ 63\<close> on are read as negative and ignored.
\<close>

theorem lamport_poisoned:
  assumes "local_clock s = Integer c" and "0 \<le> c" and "c < i64_max"
  shows "(let s' = snd (observe_lamport (as_u64 i64_max) s) in
       fst (tick_lamport s') = Err (Sqlite InvalidColumnType)
     \<and> (\<forall>v. fst (observe_lamport v s') = Err (Sqlite InvalidColumnType)
          \<and> local_clock (snd (observe_lamport v s')) = local_clock s')
     \<and> local_clock (snd (tick_lamport s')) = local_clock s')
   \<and> (2 ^ 63 \<le> unat remote \<longrightarrow> fst (observe_lamport remote s) = fst (tick_lamport s))"
proof -
  have big: "as_i64 (as_u64 i64_max) = i64_max"
    by (simp add: i64_min_def i64_max_def)
  then have clock: "local_clock (snd (observe_lamport (as_u64 i64_max) s)) = Real63"
    using assms by (simp add: observe_lamport_def current_def max_absorb2)
  note stuck = stuck_clock[OF clock]
  have neg: "as_i64 remote < 0" if "2 ^ 63 \<le> unat remote"
  proof (rule ccontr)
    assume "\<not> as_i64 remote < 0"
    then have "unat (as_u64 (as_i64 remote)) = nat (as_i64 remote)"
      using as_i64_bounds[of remote] by (intro unat_as_u64) auto
    with that as_i64_bounds(2)[of remote] show False by (simp add: i64_max_def)
  qed
  have "fst (observe_lamport remote s) = fst (tick_lamport s)" if "2 ^ 63 \<le> unat remote"
  proof -
    have "max c (as_i64 remote) = c" using neg[OF that] assms(2) by simp
    then show ?thesis by (simp add: observe_lamport_def tick_lamport_def current_def assms(1) split: option.splits)
  qed
  with stuck clock show ?thesis by (simp add: Let_def)
qed

theorem lamport_poisoned_witness:
  "fst (tick_lamport (snd (observe_lamport (as_u64 i64_max) (empty_store True))))
     = Err (Sqlite InvalidColumnType)"
proof -
  have c: "local_clock (empty_store True) = Integer 0" by (simp add: empty_store_def)
  show ?thesis using lamport_poisoned[OF c, of 0] by (simp add: i64_max_def Let_def)
qed

end
