(* ===== verification/Migrations.thy ===== *)
theory Migrations
  imports Crypto_Keys Node_Store Store_DB
begin

text \<open>
  The schema migrations of both databases (\<^verbatim>\<open>crates/pm-store/src/migrations.rs\<close>,
  \<^verbatim>\<open>crates/pm-node/src/migrations.rs\<close> and the SQL files next to them) and the functions that
  open a database with them (\<^verbatim>\<open>Store::open\<close>, and \<^verbatim>\<open>open\<close> of
  \<^verbatim>\<open>crates/pm-node/src/db.rs\<close>). A database is here its tables with their columns and
  \<^verbatim>\<open>PRAGMA user_version\<close>; of a column only the name is kept, so its type and its constraints
  (NOT NULL, DEFAULT, UNIQUE) play no part here. SQLCipher, which turns a file and a key into one, is a parameter.
  The two runners are copies of one loop, and the \<open>migration_runner\<close> locale proves once what both
  rely on: that versions build on each other.
\<close>

section \<open>SQL files\<close>

datatype sql_statement =
    CreateTable string "string list"
  | CreateIndex string string
  | AddColumn string string
  | SeedRow string

record schema =
  tables :: "(string \<times> string list) list"
  indexes :: "string list"
  seeded :: "string list"
  user_version :: i64

definition fresh_schema :: schema where
  "fresh_schema = \<lparr>tables = [], indexes = [], seeded = [], user_version = 0\<rparr>"

text \<open>
  A statement fails, and changes nothing, when the table or index to create exists, the table to
  change does not, the column is there already, or the row with the fixed key is.
\<close>

definition add_column :: "string \<Rightarrow> string \<Rightarrow> (string \<times> string list) list \<Rightarrow> (string \<times> string list) list" where
  "add_column t c ts = map (\<lambda>(u, cs). (u, if u = t then cs @ [c] else cs)) ts"

fun execute :: "sql_statement \<Rightarrow> (schema, unit, string) action" where
  "execute (CreateTable t cols) db =
     (if t \<in> set (map fst (tables db)) then (Err (''table '' @ t @ '' already exists''), db)
      else (Ok (), db\<lparr>tables := tables db @ [(t, cols)]\<rparr>))"
| "execute (CreateIndex i t) db =
     (if i \<in> set (indexes db) then (Err (''index '' @ i @ '' already exists''), db)
      else if t \<notin> set (map fst (tables db)) then (Err (''no such table: '' @ t), db)
      else (Ok (), db\<lparr>indexes := indexes db @ [i]\<rparr>))"
| "execute (AddColumn t c) db =
     (case map_of (tables db) t of
        None \<Rightarrow> (Err (''no such table: '' @ t), db)
      | Some cols \<Rightarrow>
          if c \<in> set cols then (Err (''duplicate column name: '' @ c), db)
          else (Ok (), db\<lparr>tables := add_column t c (tables db)\<rparr>))"
| "execute (SeedRow t) db =
     (if t \<notin> set (map fst (tables db)) then (Err (''no such table: '' @ t), db)
      else if t \<in> set (seeded db) then (Err ''UNIQUE constraint failed'', db)
      else (Ok (), db\<lparr>seeded := seeded db @ [t]\<rparr>))"

definition execute_batch :: "sql_statement list \<Rightarrow> (schema, unit, string) action" where
  "execute_batch stmts = for_each execute stmts"

section \<open>The runner\<close>

definition set_user_version :: "nat \<Rightarrow> (schema, unit, string) action" where
  "set_user_version v db = (Ok (), db\<lparr>user_version := int v\<rparr>)"

text \<open>
  The loop over \<^verbatim>\<open>enumerate().skip(current)\<close>: \<open>i\<close> is the index of the first migration of the
  list.
\<close>

fun run_from :: "nat \<Rightarrow> sql_statement list list \<Rightarrow> (schema, unit, string) action" where
  "run_from i [] = pure ()"
| "run_from i (migration # rest) =
     and_then (execute_batch migration) (\<lambda>_.
     and_then (set_user_version (i + 1)) (\<lambda>_. run_from (i + 1) rest))"

definition run :: "sql_statement list list \<Rightarrow> (schema, unit, string) action" where
  "run migrations db =
     (let current = unat (as_u64 (user_version db)) in run_from current (drop current migrations) db)"

definition STORE_MIGRATIONS :: "sql_statement list list" where
  "STORE_MIGRATIONS =
     [[CreateTable ''contacts'' [''id'', ''identity_key'', ''curve25519_key'', ''display_name'', ''created_at''],
       CreateTable ''sessions'' [''contact_id'', ''pickle'', ''updated_at''],
       CreateTable ''messages'' [''id'', ''contact_id'', ''msg_id'', ''direction'', ''lamport'', ''sent_at'',
         ''plaintext'', ''created_at''],
       CreateIndex ''messages_by_contact_lamport'' ''messages'',
       CreateTable ''local_clock'' [''id'', ''lamport''],
       SeedRow ''local_clock''],
      [CreateTable ''account'' [''id'', ''pickle'', ''updated_at''], AddColumn ''contacts'' ''server_addr''],
      [AddColumn ''contacts'' ''pair_secret'', AddColumn ''contacts'' ''next_write_n'',
       AddColumn ''account'' ''last_synced_blob_id''],
      [AddColumn ''contacts'' ''pending_otk''],
      [AddColumn ''account'' ''own_server_addr''],
      [AddColumn ''contacts'' ''transport_key'', AddColumn ''messages'' ''status''],
      [AddColumn ''contacts'' ''pointer_updated_at''],
      [AddColumn ''account'' ''pointer_broadcast_seq'', AddColumn ''contacts'' ''pointer_seq'']]"

definition NODE_MIGRATIONS :: "sql_statement list list" where
  "NODE_MIGRATIONS =
     [[CreateTable ''registered_slots'' [''slot_hash''],
       CreateTable ''blobs'' [''id'', ''blob'', ''delivered''],
       CreateTable ''backup'' [''id'', ''blob''],
       CreateTable ''retry_entries'' [''msg_id'', ''recipient_transport_key'', ''envelope'', ''attempts'',
         ''next_attempt_at_ms''],
       CreateTable ''failed_deliveries'' [''msg_id'']]]"

text \<open>The two copies of the runner.\<close>

definition store_run :: "(schema, unit, string) action" where
  "store_run = run STORE_MIGRATIONS"

definition node_run :: "(schema, unit, string) action" where
  "node_run = run NODE_MIGRATIONS"

section \<open>Opening a database\<close>

text \<open>
  \<open>sc_open\<close> and \<open>sc_memory\<close> are \<^verbatim>\<open>Connection::open\<close> and \<^verbatim>\<open>open_in_memory\<close>; \<open>sc_key\<close>
  is \<^verbatim>\<open>PRAGMA key\<close> with the key in hexadecimal, after which the connection shows a database.
\<close>

record 'f sqlcipher =
  sc_open :: "string \<Rightarrow> string + 'f"
  sc_memory :: "string + 'f"
  sc_key :: "bytes \<Rightarrow> 'f \<Rightarrow> string + schema"

definition migrated :: "(schema, unit, string) action \<Rightarrow> schema \<Rightarrow> (schema, string) outcome" where
  "migrated runner db = (let (r, db') = runner db in map_ok (\<lambda>_. db') r)"

definition store_init :: "'f sqlcipher \<Rightarrow> 'f \<Rightarrow> bytes \<Rightarrow> (schema, string) outcome" where
  "store_init sc conn key =
     bind_outcome (or_err (\<lambda>e. e) (sc_key sc key conn)) (migrated store_run)"

definition store_open :: "'f sqlcipher \<Rightarrow> string \<Rightarrow> bytes \<Rightarrow> (schema, string) outcome" where
  "store_open sc path key =
     bind_outcome (or_err (\<lambda>e. e) (sc_open sc path)) (\<lambda>conn. store_init sc conn key)"

definition store_open_in_memory :: "'f sqlcipher \<Rightarrow> bytes \<Rightarrow> (schema, string) outcome" where
  "store_open_in_memory sc key =
     bind_outcome (or_err (\<lambda>e. e) (sc_memory sc)) (\<lambda>conn. store_init sc conn key)"

datatype DbError = DbOpen string

definition STORAGE_KEY_LABEL :: bytes where
  "STORAGE_KEY_LABEL = as_bytes ''pm-node-storage-key-v1''"

definition db_hkdf_expand_32 :: "hkdf_fun \<Rightarrow> bytes \<Rightarrow> bytes \<Rightarrow> (bytes, DbError) outcome" where
  "db_hkdf_expand_32 hkdf ikm label = (case hkdf ikm label 32 of None \<Rightarrow> Panic | Some okm \<Rightarrow> Ok okm)"

text \<open>\<^verbatim>\<open>dir.join("mailbox.sqlite")\<close> on a Unix path.\<close>

definition db_open ::
  "hkdf_fun \<Rightarrow> 'f sqlcipher \<Rightarrow> string option \<Rightarrow> bytes \<Rightarrow> (schema, DbError) outcome" where
  "db_open hkdf sc data_dir key =
     bind_outcome (or_err DbOpen (case data_dir of
          Some dir \<Rightarrow> sc_open sc (dir @ ''/mailbox.sqlite'') | None \<Rightarrow> sc_memory sc)) (\<lambda>conn.
     bind_outcome (db_hkdf_expand_32 hkdf key STORAGE_KEY_LABEL) (\<lambda>storage_key.
     bind_outcome (or_err DbOpen (sc_key sc storage_key conn)) (\<lambda>db.
       map_err DbOpen (migrated node_run db))))"

section \<open>What a statement leaves behind\<close>

fun applied :: "sql_statement \<Rightarrow> schema \<Rightarrow> bool" where
  "applied (CreateTable t cols) db \<longleftrightarrow> t \<in> set (map fst (tables db))"
| "applied (CreateIndex i t) db \<longleftrightarrow> i \<in> set (indexes db)"
| "applied (AddColumn t c) db \<longleftrightarrow> (\<exists>cols. map_of (tables db) t = Some cols \<and> c \<in> set cols)"
| "applied (SeedRow t) db \<longleftrightarrow> t \<in> set (map fst (tables db)) \<and> t \<in> set (seeded db)"

lemma map_of_add_column:
  "map_of (add_column t c ts) v = map_option (\<lambda>cs. if v = t then cs @ [c] else cs) (map_of ts v)"
  by (induction ts) (auto simp: add_column_def)

lemma fst_add_column [simp]: "fst ` set (add_column t c ts) = fst ` set ts"
  by (induction ts) (auto simp: add_column_def)

lemma applied_after: "execute s db = (Ok (), db') \<Longrightarrow> applied s db'"
  by (cases s) (auto simp: map_of_add_column image_iff split: if_splits option.splits)

lemma applied_stays:
  assumes "applied s db"
  shows "applied s (snd (execute s' db))"
proof (cases s')
  case (AddColumn t c)
  show ?thesis
  proof (cases s)
    case (AddColumn u d)
    with assms \<open>s' = AddColumn t c\<close> show ?thesis
      by (cases "u = t") (auto simp: map_of_add_column split: option.splits)
  next
    case (CreateTable u cols)
    then have "u \<in> fst ` set (tables db)" using assms by simp
    with AddColumn CreateTable show ?thesis by (simp split: option.split)
  next
    case (SeedRow u)
    then have "u \<in> fst ` set (tables db) \<and> u \<in> set (seeded db)" using assms by simp
    with AddColumn SeedRow show ?thesis by (simp split: option.split)
  qed (use assms AddColumn in \<open>simp split: option.split\<close>)
next
  case (CreateTable t cols)
  have "map_of (tables db @ [(t, cols)]) u = Some cs" if "map_of (tables db) u = Some cs" for u cs
    using that by (simp add: map_of_append)
  with assms CreateTable show ?thesis by (cases s) (auto simp: map_add_def)
qed (use assms in \<open>cases s; auto\<close>)+

lemma applied_again:
  assumes "applied s db"
  shows "\<exists>e. execute s db = (Err e, db)"
  using assms by (cases s) (auto simp: image_iff)

lemma applied_batch: "applied s db \<Longrightarrow> applied s (snd (execute_batch stmts db))"
  unfolding execute_batch_def by (rule for_each_keeps) (rule applied_stays)

lemma execute_version: "user_version (snd (execute s db)) = user_version db"
  by (cases s) (auto split: option.splits)

lemma version_batch: "user_version (snd (execute_batch stmts db)) = user_version db"
  unfolding execute_batch_def
  by (rule for_each_keeps[where P = "\<lambda>db'. user_version db' = user_version db"])
    (simp_all add: execute_version)

section \<open>Versions build on each other\<close>

text \<open>The database after the first \<open>j\<close> migrations, starting from an empty one.\<close>

definition at_version :: "sql_statement list list \<Rightarrow> nat \<Rightarrow> schema" where
  "at_version ms j = snd (run_from 0 (take j ms) fresh_schema)"

text \<open>The database when the process stops after \<open>k\<close> statements of migration \<open>j\<close>.\<close>

definition interrupted :: "sql_statement list list \<Rightarrow> nat \<Rightarrow> nat \<Rightarrow> schema" where
  "interrupted ms j k = snd (execute_batch (take k (ms ! j)) (at_version ms j))"

lemma and_then_pure [simp]: "and_then (pure a) k = k a"
  by (simp add: and_then_def pure_def fun_eq_iff)

lemma run_from_append:
  "run_from i (xs @ ys) = and_then (run_from i xs) (\<lambda>_. run_from (i + length xs) ys)"
  by (induction xs arbitrary: i) (simp_all add: and_then_assoc)

lemma is_ok_and_then: "is_ok (fst (and_then m k s)) \<Longrightarrow> is_ok (fst (m s))"
  by (auto simp: and_then_def split: prod.splits outcome.splits)

locale migration_runner =
  fixes ms :: "sql_statement list list"
  assumes applies: "is_ok (fst (run_from 0 ms fresh_schema))"
    and no_empty: "[] \<notin> set ms"
    and few: "length ms < 2 ^ 63"
begin

lemma split_run:
  "j \<le> length ms \<Longrightarrow> run_from 0 ms = and_then (run_from 0 (take j ms)) (\<lambda>_. run_from j (drop j ms))"
  using run_from_append[of 0 "take j ms" "drop j ms"] by (simp add: min.absorb2)

lemma at_version_run:
  assumes "j \<le> length ms"
  shows "run_from 0 (take j ms) fresh_schema = (Ok (), at_version ms j)"
proof -
  have "is_ok (fst (run_from 0 (take j ms) fresh_schema))"
    using applies unfolding split_run[OF assms] by (rule is_ok_and_then)
  then have "fst (run_from 0 (take j ms) fresh_schema) = Ok ()"
    by (cases "fst (run_from 0 (take j ms) fresh_schema)") simp_all
  then show ?thesis by (simp add: at_version_def prod_eq_iff)
qed

lemma at_version_Suc:
  assumes "j < length ms"
  shows "\<exists>db. execute_batch (ms ! j) (at_version ms j) = (Ok (), db)
    \<and> at_version ms (Suc j) = db\<lparr>user_version := int (Suc j)\<rparr>"
proof -
  have "run_from 0 (take (Suc j) ms) fresh_schema = run_from j [ms ! j] (at_version ms j)"
    using assms at_version_run[of j]
    by (simp add: take_Suc_conv_app_nth run_from_append and_then_Ok min.absorb2 del: run_from.simps)
  with at_version_run[of "Suc j"] assms show ?thesis
    by (auto simp: and_then_Ok_iff set_user_version_def pure_def)
qed

lemma at_version_version: "j \<le> length ms \<Longrightarrow> user_version (at_version ms j) = int j"
proof (cases j)
  case 0
  then show ?thesis by (simp add: at_version_def pure_def fresh_schema_def)
next
  case (Suc i)
  moreover assume "j \<le> length ms"
  ultimately show ?thesis using at_version_Suc[of i] by auto
qed

lemma current_version: "j \<le> length ms \<Longrightarrow> user_version db = int j \<Longrightarrow> unat (as_u64 (user_version db)) = j"
  using few by (subst unat_as_u64) (auto simp: i64_max_def)

lemma upgrade:
  assumes "j \<le> length ms"
  shows "run ms (at_version ms j) = (Ok (), at_version ms (length ms))"
proof -
  have "run_from 0 ms fresh_schema = run_from j (drop j ms) (at_version ms j)"
    unfolding split_run[OF assms] by (rule and_then_Ok) (rule at_version_run[OF assms])
  then show ?thesis
    using at_version_run[of "length ms"] current_version[OF assms at_version_version[OF assms]]
    by (simp add: run_def Let_def)
qed

lemma first_statement:
  assumes "j < length ms"
  obtains s rest where "ms ! j = s # rest"
  using assms no_empty nth_mem[of j ms] by (cases "ms ! j") auto

lemma stuck:
  assumes "j < length ms" and "0 < k"
  shows "\<exists>e. run ms (interrupted ms j k) = (Err e, interrupted ms j k)"
proof -
  obtain s rest where split: "ms ! j = s # rest" by (rule first_statement[OF assms(1)])
  from at_version_Suc[OF assms(1)] split obtain db1 where "execute s (at_version ms j) = (Ok (), db1)"
    by (auto simp: execute_batch_def and_then_Ok_iff)
  then have "applied s (interrupted ms j k)"
    using assms(2) split applied_after applied_batch[of s db1 "take (k - 1) rest"]
    by (cases k) (auto simp: interrupted_def execute_batch_def and_then_Ok)
  then obtain e where e: "execute s (interrupted ms j k) = (Err e, interrupted ms j k)"
    using applied_again by blast
  have "user_version (interrupted ms j k) = int j"
    using at_version_version assms(1) by (simp add: interrupted_def version_batch)
  from current_version[OF _ this] assms(1) e show ?thesis
    by (simp add: run_def Let_def Cons_nth_drop_Suc[symmetric] split execute_batch_def and_then_Err)
qed

end

interpretation store_runner: migration_runner STORE_MIGRATIONS
proof
  show "is_ok (fst (run_from 0 STORE_MIGRATIONS fresh_schema))" by code_simp
qed (simp_all add: STORE_MIGRATIONS_def)

interpretation node_runner: migration_runner NODE_MIGRATIONS
proof
  show "is_ok (fst (run_from 0 NODE_MIGRATIONS fresh_schema))" by code_simp
qed (simp_all add: NODE_MIGRATIONS_def)

text \<open>
  Opening what was opened before, with the key that made it: the database is as it was. The
  storage key is a function of the mailbox key alone.
\<close>

lemma reopen_unchanged:
  assumes "db_open hkdf sc (Some dir) key = Ok (at_version NODE_MIGRATIONS 1)"
    and "sc_open sc' (dir @ ''/mailbox.sqlite'') = Inr f" and "hkdf key STORAGE_KEY_LABEL 32 = Some k"
    and "sc_key sc' k f = Inr (at_version NODE_MIGRATIONS 1)"
  shows "db_open hkdf sc' (Some dir) key = db_open hkdf sc (Some dir) key"
  using assms node_runner.upgrade[of 1]
  by (simp add: db_open_def db_hkdf_expand_32_def migrated_def node_run_def NODE_MIGRATIONS_def)

section \<open>Properties\<close>

text \<open>
  C39: every released version of a database can be opened. Starting from the database any number
  of migrations had made, including none, the runner succeeds and makes the same database as a
  fresh install, with the columns the store and the node use; running it on that changes nothing.
  This holds for the phone's store and for the node.
\<close>

theorem upgrade_from_any_version:
  assumes "i \<le> length STORE_MIGRATIONS" and "j \<le> length NODE_MIGRATIONS"
  shows "store_run (at_version STORE_MIGRATIONS i) = (Ok (), at_version STORE_MIGRATIONS 8)
    \<and> store_run (at_version STORE_MIGRATIONS 8) = (Ok (), at_version STORE_MIGRATIONS 8)
    \<and> tables (at_version STORE_MIGRATIONS 8) =
       [(''contacts'', [''id'', ''identity_key'', ''curve25519_key'', ''display_name'', ''created_at'',
          ''server_addr'', ''pair_secret'', ''next_write_n'', ''pending_otk'', ''transport_key'',
          ''pointer_updated_at'', ''pointer_seq'']),
        (''sessions'', [''contact_id'', ''pickle'', ''updated_at'']),
        (''messages'', [''id'', ''contact_id'', ''msg_id'', ''direction'', ''lamport'', ''sent_at'',
          ''plaintext'', ''created_at'', ''status'']),
        (''local_clock'', [''id'', ''lamport'']),
        (''account'', [''id'', ''pickle'', ''updated_at'', ''last_synced_blob_id'', ''own_server_addr'',
          ''pointer_broadcast_seq''])]
    \<and> node_run (at_version NODE_MIGRATIONS j) = (Ok (), at_version NODE_MIGRATIONS 1)"
proof -
  have "length STORE_MIGRATIONS = 8" "length NODE_MIGRATIONS = 1"
    by (simp_all add: STORE_MIGRATIONS_def NODE_MIGRATIONS_def)
  moreover have "tables (at_version STORE_MIGRATIONS 8) =
       [(''contacts'', [''id'', ''identity_key'', ''curve25519_key'', ''display_name'', ''created_at'',
          ''server_addr'', ''pair_secret'', ''next_write_n'', ''pending_otk'', ''transport_key'',
          ''pointer_updated_at'', ''pointer_seq'']),
        (''sessions'', [''contact_id'', ''pickle'', ''updated_at'']),
        (''messages'', [''id'', ''contact_id'', ''msg_id'', ''direction'', ''lamport'', ''sent_at'',
          ''plaintext'', ''created_at'', ''status'']),
        (''local_clock'', [''id'', ''lamport'']),
        (''account'', [''id'', ''pickle'', ''updated_at'', ''last_synced_blob_id'', ''own_server_addr'',
          ''pointer_broadcast_seq''])]"
    by code_simp
  ultimately show ?thesis
    using store_runner.upgrade[OF assms(1)] store_runner.upgrade[of 8] node_runner.upgrade[OF assms(2)]
    by (simp add: store_run_def node_run_def)
qed

theorem upgrade_from_any_version_witness:
  "store_run (at_version STORE_MIGRATIONS 3) = (Ok (), at_version STORE_MIGRATIONS 8)
   \<and> node_run (at_version NODE_MIGRATIONS 0) = (Ok (), at_version NODE_MIGRATIONS 1)"
  using upgrade_from_any_version[of 3 0] by (simp add: STORE_MIGRATIONS_def)

text \<open>
  C40: a migration that was cut off is never taken up again. The statements of a migration and the
  version number are not written in one transaction; when the process stops after at least one
  statement of a migration and before its version number is written, every later attempt to open
  the database fails at that migration's first statement and changes nothing.
\<close>

theorem interrupted_migration_is_stuck:
  assumes "i < length STORE_MIGRATIONS" and "j < length NODE_MIGRATIONS" and "0 < k"
  shows "(\<exists>e. store_run (interrupted STORE_MIGRATIONS i k)
              = (Err e, interrupted STORE_MIGRATIONS i k))
    \<and> (\<exists>e. node_run (interrupted NODE_MIGRATIONS j k) = (Err e, interrupted NODE_MIGRATIONS j k))"
  using store_runner.stuck[OF assms(1,3)] node_runner.stuck[OF assms(2,3)]
  by (simp add: store_run_def node_run_def)

theorem interrupted_migration_is_stuck_witness:
  "\<exists>e. store_run (interrupted STORE_MIGRATIONS 7 1) = (Err e, interrupted STORE_MIGRATIONS 7 1)"
  using interrupted_migration_is_stuck[of 7 0 1] by (simp add: STORE_MIGRATIONS_def NODE_MIGRATIONS_def)

end
