(* ===== verification/Transport.thy ===== *)
theory Transport
  imports Proto_Wire
begin

text \<open>
  \<^verbatim>\<open>crates/pm-transport/src/lib.rs\<close> and \<^verbatim>\<open>error.rs\<close>: the client side of both wire
  protocols. iroh is a parameter: opening a connection to an address for a protocol, and the
  exchange of one request for one response on a bidirectional stream of it, each of which may
  fail and may change the outside world; and the endpoints connections are opened from.
\<close>

section \<open>Errors and the network\<close>

datatype TransportError =
    Endpoint string
  | Connect string
  | Stream string
  | Codec string
  | Rejected string

definition NODE_ALPN :: bytes where
  "NODE_ALPN = as_bytes ''pm/node/1''"

definition DIRECT_ALPN :: bytes where
  "DIRECT_ALPN = as_bytes ''pm/direct/1''"

text \<open>
  \<open>net_connect\<close> is \<^verbatim>\<open>Endpoint::connect\<close> followed by \<^verbatim>\<open>open_bi\<close>;
  \<open>net_exchange\<close> writes all bytes, finishes the stream and reads the answer to its end,
  failing when it is longer than the limit.
\<close>

record ('addr, 'w) network =
  net_connect :: "'addr \<Rightarrow> bytes \<Rightarrow> ('w, unit, TransportError) action"
  net_exchange :: "'addr \<Rightarrow> bytes \<Rightarrow> bytes \<Rightarrow> nat \<Rightarrow> ('w, bytes, TransportError) action"

section \<open>Addresses as text\<close>

definition encode_endpoint_addr ::
  "'addr codec \<Rightarrow> (bytes \<Rightarrow> string) \<Rightarrow> 'addr \<Rightarrow> (string, TransportError) outcome" where
  "encode_endpoint_addr c b64 addr =
     (case enc c addr of Inl e \<Rightarrow> Err (Codec e) | Inr bs \<Rightarrow> Ok (b64 bs))"

definition decode_endpoint_addr ::
  "'addr codec \<Rightarrow> (string \<Rightarrow> string + bytes) \<Rightarrow> string \<Rightarrow> ('addr, TransportError) outcome" where
  "decode_endpoint_addr c unb64 s =
     (case unb64 (trim s) of
        Inl e \<Rightarrow> Err (Codec e)
      | Inr bs \<Rightarrow> (case dec c bs of Inl e \<Rightarrow> Err (Codec e) | Inr addr \<Rightarrow> Ok addr))"

section \<open>Calls\<close>

definition call ::
  "('addr, 'w) network \<Rightarrow> NodeRequest codec \<Rightarrow> NodeResponse codec \<Rightarrow> 'addr \<Rightarrow> NodeRequest
    \<Rightarrow> ('w, NodeResponse, TransportError) action" where
  "call net rq rs node_addr request =
     and_then (net_connect net node_addr NODE_ALPN) (\<lambda>_.
     and_then (lift_outcome (or_err Codec (enc rq request))) (\<lambda>request_bytes.
     and_then (net_exchange net node_addr NODE_ALPN request_bytes MAX_MESSAGE_SIZE) (\<lambda>response_bytes.
       lift_outcome (or_err Codec (dec rs response_bytes)))))"

definition call_direct ::
  "('addr, 'w) network \<Rightarrow> DirectAck codec \<Rightarrow> 'addr \<Rightarrow> bytes \<Rightarrow> ('w, unit, TransportError) action" where
  "call_direct net ac peer_addr envelope_bytes =
     and_then (net_connect net peer_addr DIRECT_ALPN) (\<lambda>_.
     and_then (net_exchange net peer_addr DIRECT_ALPN envelope_bytes MAX_MESSAGE_SIZE) (\<lambda>ack_bytes.
     and_then (lift_outcome (or_err Codec (dec ac ack_bytes))) (\<lambda>ack.
       case ack of AckOk \<Rightarrow> pure () | AckError e \<Rightarrow> fail (Rejected e))))"

section \<open>Endpoints\<close>

text \<open>
  iroh's \<^verbatim>\<open>Endpoint\<close>: \<open>ep_bind\<close> is \<^verbatim>\<open>Endpoint::builder(presets::N0)\<close> with a secret key,
  and \<^verbatim>\<open>bind\<close>; \<open>ep_online\<close> the state of the world when \<^verbatim>\<open>online\<close> returns; \<open>ep_network\<close> what
  connections opened from the endpoint do. A clone of an endpoint is the same endpoint.
\<close>

record ('ep, 'addr, 'w) iroh =
  ep_bind :: "bytes \<Rightarrow> ('w, 'ep, string) action"
  ep_addr :: "'ep \<Rightarrow> 'w \<Rightarrow> 'addr"
  ep_online :: "'ep \<Rightarrow> 'w \<Rightarrow> 'w"
  ep_close :: "'ep \<Rightarrow> 'w \<Rightarrow> 'w"
  ep_network :: "'ep \<Rightarrow> ('addr, 'w) network"

record 'ep NodeClient =
  nc_endpoint :: 'ep

definition NodeClient_new :: "('ep, 'addr, 'w) iroh \<Rightarrow> bytes \<Rightarrow> ('w, 'ep NodeClient, TransportError) action" where
  "NodeClient_new ir secret_key w =
     (let (r, w') = ep_bind ir secret_key w in (map_ok (\<lambda>ep. \<lparr>nc_endpoint = ep\<rparr>) (map_err Endpoint r), w'))"

definition from_endpoint :: "'ep \<Rightarrow> 'ep NodeClient" where
  "from_endpoint ep = \<lparr>nc_endpoint = ep\<rparr>"

definition nc_addr :: "('ep, 'addr, 'w) iroh \<Rightarrow> 'ep NodeClient \<Rightarrow> 'w \<Rightarrow> 'addr" where
  "nc_addr ir c w = ep_addr ir (nc_endpoint c) w"

definition nc_online :: "('ep, 'addr, 'w) iroh \<Rightarrow> 'ep NodeClient \<Rightarrow> 'w \<Rightarrow> 'w" where
  "nc_online ir c w = ep_online ir (nc_endpoint c) w"

definition nc_call ::
  "('ep, 'addr, 'w) iroh \<Rightarrow> NodeRequest codec \<Rightarrow> NodeResponse codec \<Rightarrow> 'ep NodeClient \<Rightarrow> 'addr \<Rightarrow> NodeRequest
    \<Rightarrow> ('w, NodeResponse, TransportError) action" where
  "nc_call ir rq rs c = call (ep_network ir (nc_endpoint c)) rq rs"

definition nc_call_direct ::
  "('ep, 'addr, 'w) iroh \<Rightarrow> DirectAck codec \<Rightarrow> 'ep NodeClient \<Rightarrow> 'addr \<Rightarrow> bytes
    \<Rightarrow> ('w, unit, TransportError) action" where
  "nc_call_direct ir ac c = call_direct (ep_network ir (nc_endpoint c)) ac"

definition nc_close :: "('ep, 'addr, 'w) iroh \<Rightarrow> 'ep NodeClient \<Rightarrow> 'w \<Rightarrow> 'w" where
  "nc_close ir c w = ep_close ir (nc_endpoint c) w"

text \<open>A client around an existing endpoint makes its calls from that endpoint.\<close>

lemma from_endpoint_calls:
  "nc_call ir rq rs (from_endpoint ep) = call (ep_network ir ep) rq rs"
  "nc_call_direct ir ac (from_endpoint ep) = call_direct (ep_network ir ep) ac"
  by (simp_all add: nc_call_def nc_call_direct_def from_endpoint_def)

lemma NodeClient_new_Ok_iff:
  "NodeClient_new ir key w = (Ok c, w') \<longleftrightarrow> ep_bind ir key w = (Ok (nc_endpoint c), w')"
  by (cases "ep_bind ir key w"; cases "fst (ep_bind ir key w)"; cases c) (auto simp: NodeClient_new_def)

section \<open>Facts\<close>

lemma lift_outcome_apply [action_simps]: "lift_outcome r s = (r, s)"
  by (simp add: lift_outcome_def)

lemma call_Ok_iff:
  "call net rq rs addr req w = (Ok resp, w') \<longleftrightarrow>
     (\<exists>w1 b rb. net_connect net addr NODE_ALPN w = (Ok (), w1) \<and> enc rq req = Inr b
       \<and> net_exchange net addr NODE_ALPN b MAX_MESSAGE_SIZE w1 = (Ok rb, w') \<and> dec rs rb = Inr resp)"
  by (auto simp: call_def and_then_Ok_iff lift_outcome_def)

lemma endpoint_addr_roundtrip:
  assumes "codec_roundtrip c" and "\<And>bs. unb64 (b64 bs) = Inr bs" and "\<And>bs. trim (b64 bs) = b64 bs"
    and "encode_endpoint_addr c b64 addr = Ok s"
  shows "decode_endpoint_addr c unb64 s = Ok addr"
proof -
  from assms(4) obtain bs where "enc c addr = Inr bs" "s = b64 bs"
    by (auto simp: encode_endpoint_addr_def split: sum.splits)
  with assms(1-3) show ?thesis by (simp add: decode_endpoint_addr_def codec_roundtripD)
qed

end
