(* ===== verification/Node_Main.thy ===== *)
theory Node_Main
  imports Node_Run Migrations Transport
begin

text \<open>
  The server program: \<^verbatim>\<open>spawn\<close>, \<^verbatim>\<open>RunningNode::endpoint\<close> and \<^verbatim>\<open>shutdown\<close> of
  \<^verbatim>\<open>crates/pm-node/src/lib.rs\<close> with their errors, and \<^verbatim>\<open>main\<close> of
  \<^verbatim>\<open>crates/pm-node/src/main.rs\<close> from the environment variables to the exit; and the task
  that a sweep spawns for one due delivery, shown to end in one of the two ways \<^verbatim>\<open>Node_Run\<close> has.
\<close>

section \<open>Errors\<close>

datatype NodeError = NodeEndpoint string | Storage string

text \<open>The boxed errors \<^verbatim>\<open>main\<close> returns: a message, or an error of one of the calls.\<close>

datatype MainError = Message string | OfNode NodeError | OfTransport TransportError | OfSignal string

fun db_error_text :: "DbError \<Rightarrow> string" where
  "db_error_text (DbOpen e) = ''failed to open or migrate storage: '' @ e"

section \<open>spawn and shutdown\<close>

text \<open>
  A node with the endpoint its router and its outgoing dials share. \<open>contents\<close> are the rows the
  opened database holds, read at the time \<open>now\<close>; a database in memory is empty.
\<close>

definition node_spawn ::
  "('ep, 'addr, 'w) iroh \<Rightarrow> hkdf_fun \<Rightarrow> 'f sqlcipher \<Rightarrow> bytes \<Rightarrow> bytes \<Rightarrow> string option \<Rightarrow> (string \<Rightarrow> node_db) \<Rightarrow> i64
    \<Rightarrow> ('w, 'id RunningNode \<times> 'ep NodeClient, NodeError) action" where
  "node_spawn ir hkdf sc mkey tkey data_dir contents now =
     and_then (\<lambda>w. let (r, w') = ep_bind ir tkey w in (map_err NodeEndpoint r, w')) (\<lambda>endpoint.
     and_then (lift_outcome (map_err (\<lambda>e. Storage (db_error_text e)) (db_open hkdf sc data_dir mkey))) (\<lambda>conn.
       let db = (case data_dir of Some dir \<Rightarrow> contents dir | None \<Rightarrow> empty_node_db)
       in pure (spawn mkey db now, from_endpoint endpoint)))"

text \<open>The retry task is aborted, then the router is shut down (\<open>router_shutdown\<close>, of iroh).\<close>

definition shutdown :: "('ep \<Rightarrow> ('w, unit, string) action) \<Rightarrow> 'ep NodeClient \<Rightarrow> ('w, unit, NodeError) action" where
  "shutdown router_shutdown client w =
     (let (r, w') = router_shutdown (nc_endpoint client) w in (map_err NodeEndpoint r, w'))"

text \<open>
  The task that the sweep spawns for one due delivery: \<open>endpoint\<close> is \<^verbatim>\<open>EndpointId::from_bytes\<close>, and
  \<open>times_out\<close> says whether, and with what effect, the call is cut off after \<^verbatim>\<open>RETRY_DIAL_TIMEOUT\<close>.
\<close>

definition run_attempt ::
  "('ep, 'addr, 'w) iroh \<Rightarrow> DirectAck codec \<Rightarrow> (bytes \<Rightarrow> 'addr option) \<Rightarrow> ('addr \<Rightarrow> bytes \<Rightarrow> 'w \<Rightarrow> 'w option)
    \<Rightarrow> 'ep NodeClient \<Rightarrow> DueDelivery \<times> i64 \<Rightarrow> 'id RunningNode \<Rightarrow> 'w \<Rightarrow> 'id RunningNode \<times> 'w" where
  "run_attempt ir ac endpoint times_out dial_client task s w =
     (case endpoint (due_recipient (fst task)) of
        None \<Rightarrow> (attempt_failed task s, w)
      | Some peer_addr \<Rightarrow>
          (case times_out peer_addr (due_envelope (fst task)) w of
             Some w' \<Rightarrow> (attempt_failed task s, w')
           | None \<Rightarrow>
               (let (r, w') = nc_call_direct ir ac dial_client peer_addr (due_envelope (fst task)) w
                in (if r = Ok () then attempt_delivered task s else attempt_failed task s, w'))))"

text \<open>It is one of the two ends of an attempt, and a delivery only if the peer has acknowledged it.\<close>

lemma run_attempt_step:
  assumes "task \<in> set (rn_in_flight s)"
  shows "node_step sha (\<lambda>k. endpoint k \<noteq> None) lag s (fst (run_attempt ir ac endpoint times_out client task s w))"
  using assms node_step.failed[OF assms] node_step.delivered[OF assms]
  by (auto simp: run_attempt_def Let_def split: option.split prod.split)

lemma run_attempt_delivered:
  assumes "run_attempt ir ac endpoint times_out client task s w = (attempt_delivered task s, w')"
    and "attempt_delivered task s \<noteq> attempt_failed task s"
  obtains peer_addr where "endpoint (due_recipient (fst task)) = Some peer_addr"
    and "nc_call_direct ir ac client peer_addr (due_envelope (fst task)) w = (Ok (), w')"
  using assms by (auto simp: run_attempt_def Let_def split: option.splits prod.splits if_splits)

section \<open>main\<close>

text \<open>
  What \<^verbatim>\<open>main\<close> finds around it: the environment variables, the \<^verbatim>\<open>hex\<close> and
  \<^verbatim>\<open>base64\<close> crates, the signal it waits for, and its standard output. (The warnings it writes to
  standard error when a variable is not set are left out.)
\<close>

record ('ep, 'addr, 'w) host =
  h_var :: "string \<Rightarrow> string option"
  h_hex :: "string \<Rightarrow> string + bytes"
  h_base64 :: "bytes \<Rightarrow> string"
  h_addr :: "'addr codec"
  h_ctrl_c :: "('w, unit, string) action"
  h_router_shutdown :: "'ep \<Rightarrow> ('w, unit, string) action"
  h_print :: "string \<Rightarrow> 'w \<Rightarrow> 'w"

definition configured :: "('ep, 'addr, 'w) host \<Rightarrow> (bytes \<times> bytes \<times> string option, MainError) outcome" where
  "configured h =
     bind_outcome (map_err Message (mailbox_key_from_env (h_hex h) (h_var h ''PM_NODE_MAILBOX_KEY''))) (\<lambda>mkey.
     bind_outcome (map_err Message (transport_key_from_env (h_hex h) (h_var h ''PM_NODE_TRANSPORT_KEY''))) (\<lambda>tkey.
       Ok (mkey, tkey, h_var h ''PM_NODE_DATA_DIR'')))"

definition main_start ::
  "('ep, 'addr, 'w) iroh \<Rightarrow> hkdf_fun \<Rightarrow> 'f sqlcipher \<Rightarrow> ('ep, 'addr, 'w) host \<Rightarrow> (string \<Rightarrow> node_db) \<Rightarrow> i64
    \<Rightarrow> ('w, 'id RunningNode \<times> 'ep NodeClient, MainError) action" where
  "main_start ir hkdf sc h contents now =
     and_then (lift_outcome (configured h)) (\<lambda>(mkey, tkey, data_dir) w.
       let (r, w') = node_spawn ir hkdf sc mkey tkey data_dir contents now w in (map_err OfNode r, w'))"

definition main_announce ::
  "('ep, 'addr, 'w) iroh \<Rightarrow> ('ep, 'addr, 'w) host \<Rightarrow> 'ep NodeClient \<Rightarrow> ('w, unit, MainError) action" where
  "main_announce ir h client w =
     (let w0 = nc_online ir client w;
          addr = nc_addr ir client w0;
          w1 = h_print h ''pm-node listening. Endpoint address (paste this into the app's Server mailbox setup screen):'' w0
      in case encode_endpoint_addr (h_addr h) (h_base64 h) addr of
           Ok text \<Rightarrow> (Ok (), h_print h text w1)
         | Err err \<Rightarrow> (Err (OfTransport err), w1)
         | Panic \<Rightarrow> (Panic, w1))"

definition main_stop :: "('ep, 'addr, 'w) host \<Rightarrow> 'ep NodeClient \<Rightarrow> ('w, unit, MainError) action" where
  "main_stop h client =
     and_then (\<lambda>w. let (r, w') = h_ctrl_c h w in (map_err OfSignal r, w')) (\<lambda>_ w.
       let (r, w') = shutdown (h_router_shutdown h) client (h_print h ''shutting down'' w) in (map_err OfNode r, w'))"

definition node_main ::
  "('ep, 'addr, 'w) iroh \<Rightarrow> hkdf_fun \<Rightarrow> 'f sqlcipher \<Rightarrow> ('ep, 'addr, 'w) host \<Rightarrow> (string \<Rightarrow> node_db) \<Rightarrow> i64
    \<Rightarrow> ('w, unit, MainError) action" where
  "node_main ir hkdf sc h contents now =
     and_then (main_start ir hkdf sc h contents now :: ('w, string RunningNode \<times> 'ep NodeClient, MainError) action)
       (\<lambda>(node, client). and_then (main_announce ir h client) (\<lambda>_. main_stop h client))"

section \<open>When it starts\<close>

lemma configured_Ok_iff:
  "configured h = Ok (mkey, tkey, dir) \<longleftrightarrow>
     mailbox_key_from_env (h_hex h) (h_var h ''PM_NODE_MAILBOX_KEY'') = Ok mkey
   \<and> transport_key_from_env (h_hex h) (h_var h ''PM_NODE_TRANSPORT_KEY'') = Ok tkey
   \<and> h_var h ''PM_NODE_DATA_DIR'' = dir"
  by (auto simp: configured_def bind_outcome_Ok_iff)

lemma node_spawn_Ok_iff:
  "node_spawn ir hkdf sc mkey tkey dir contents now w = (Ok (node, client), w') \<longleftrightarrow>
     ep_bind ir tkey w = (Ok (nc_endpoint client), w') \<and> is_ok (db_open hkdf sc dir mkey)
   \<and> node = spawn mkey (case dir of Some d \<Rightarrow> contents d | None \<Rightarrow> empty_node_db) now"
  by (cases "ep_bind ir tkey w"; cases "fst (ep_bind ir tkey w)"; cases "db_open hkdf sc dir mkey"; cases client)
    (auto simp: node_spawn_def and_then_def lift_outcome_def pure_def from_endpoint_def)

lemma main_start_Ok_iff:
  "main_start ir hkdf sc h contents now w = (Ok (node, client), w') \<longleftrightarrow>
     (\<exists>mkey tkey dir. configured h = Ok (mkey, tkey, dir)
        \<and> node_spawn ir hkdf sc mkey tkey dir contents now w = (Ok (node, client), w'))"
  by (cases "configured h") (auto simp: main_start_def and_then_def lift_outcome_def Let_def split: prod.splits)

section \<open>Properties\<close>

text \<open>
  C36: when the program starts, and with which mailbox. It starts exactly if the mailbox key, if one
  is set, and the transport key, which must be set, are 32 bytes in hexadecimal, the endpoint can be
  bound with the transport key and the database opens with the mailbox key; the node then has the
  contents of its data directory, or none if there is no data directory. But when no mailbox key is
  set the node does not refuse owner requests, as its warning says: a request that presents 32 zero
  bytes is answered as the owner's with the whole mailbox.
\<close>

theorem program_starts_iff:
  "(main_start ir hkdf sc h contents now w = (Ok (node, client), w') \<longleftrightarrow>
     (\<exists>mkey tkey. (case h_var h ''PM_NODE_MAILBOX_KEY'' of
          None \<Rightarrow> mkey = replicate 32 0 | Some v \<Rightarrow> h_hex h (trim v) = Inr mkey \<and> length mkey = 32)
      \<and> (\<exists>v. h_var h ''PM_NODE_TRANSPORT_KEY'' = Some v \<and> h_hex h (trim v) = Inr tkey \<and> length tkey = 32)
      \<and> ep_bind ir tkey w = (Ok (nc_endpoint client), w') \<and> is_ok (db_open hkdf sc (h_var h ''PM_NODE_DATA_DIR'') mkey)
      \<and> node = spawn mkey (case h_var h ''PM_NODE_DATA_DIR'' of Some d \<Rightarrow> contents d | None \<Rightarrow> empty_node_db) now))
   \<and> fst (answer sha t i (Inr (Fetch (replicate 32 0))) (rn_handler (spawn (replicate 32 0) db now)))
       = Ok (Blobs (fetch_all db))"
proof (rule conjI)
  have keys: "mailbox_key_from_env hex var = Ok key \<longleftrightarrow> (case var of
        None \<Rightarrow> key = replicate 32 0 | Some v \<Rightarrow> hex (trim v) = Inr key \<and> length key = 32)"
    "transport_key_from_env hex var = Ok key \<longleftrightarrow> (\<exists>v. var = Some v \<and> hex (trim v) = Inr key \<and> length key = 32)" for hex var key
    by (auto simp: mailbox_key_from_env_def transport_key_from_env_def split: option.splits sum.splits)
  show "main_start ir hkdf sc h contents now w = (Ok (node, client), w') \<longleftrightarrow>
     (\<exists>mkey tkey. (case h_var h ''PM_NODE_MAILBOX_KEY'' of
          None \<Rightarrow> mkey = replicate 32 0 | Some v \<Rightarrow> h_hex h (trim v) = Inr mkey \<and> length mkey = 32)
      \<and> (\<exists>v. h_var h ''PM_NODE_TRANSPORT_KEY'' = Some v \<and> h_hex h (trim v) = Inr tkey \<and> length tkey = 32)
      \<and> ep_bind ir tkey w = (Ok (nc_endpoint client), w') \<and> is_ok (db_open hkdf sc (h_var h ''PM_NODE_DATA_DIR'') mkey)
      \<and> node = spawn mkey (case h_var h ''PM_NODE_DATA_DIR'' of Some d \<Rightarrow> contents d | None \<Rightarrow> empty_node_db) now)"
    unfolding main_start_Ok_iff configured_Ok_iff node_spawn_Ok_iff keys by blast
  show "fst (answer sha t i (Inr (Fetch (replicate 32 0))) (rn_handler (spawn (replicate 32 0) db now)))
       = Ok (Blobs (fetch_all db))"
    by (simp add: answer_def spawn_def MailboxHandler_new_def)
qed

end
