(* ===== verification/Core_Base.thy ===== *)
theory Core_Base
  imports Transport Crypto_Keys Store_DB
begin

text \<open>
  What the client and its backups share: \<^verbatim>\<open>crates/pm-core/src/error.rs\<close>,
  \<^verbatim>\<open>message.rs\<close> (the plaintext inside the Olm layer), the payload of
  \<^verbatim>\<open>pairing.rs\<close>, and the signed mailbox-pointer updates of \<^verbatim>\<open>client.rs\<close>. Ed25519
  (\<^verbatim>\<open>ed25519-dalek\<close>) and bincode are parameters.
\<close>

section \<open>Errors\<close>

datatype CoreError =
    Store StoreError
  | Crypto CryptoError
  | Proto ProtoError
  | TransportErr TransportError
  | UnknownContact i64
  | NoRouteToContact
  | NoSessionAvailable
  | DirectDeliveryTimedOut
  | NoOwnServer
  | UnattributedMessage
  | NoBackupFound
  | CorruptBackup string
  | NodeError string

text \<open>Store methods inside a function that returns \<^verbatim>\<open>CoreError\<close>.\<close>

definition from_store :: "'a store_action \<Rightarrow> (store, 'a, CoreError) action" where
  "from_store m s = (let (r, s') = m s in (map_err Store r, s'))"

lemma from_store_Ok: "m s = (Ok a, s') \<Longrightarrow> from_store m s = (Ok a, s')"
  by (simp add: from_store_def)

lemma from_store_Ok_iff: "from_store m s = (Ok a, s') \<longleftrightarrow> m s = (Ok a, s')"
  by (auto simp: from_store_def Let_def split: prod.splits)

lemma snd_from_store [simp]: "snd (from_store m s) = snd (m s)"
  by (simp add: from_store_def case_prod_beta Let_def)

section \<open>Plaintexts\<close>

datatype PlaintextPayload =
    Chat bytes
  | Receipt bytes
  | MailboxPointerUpdate "bytes option" u64 u64 bytes
      \<comment> \<open>server address, updated at, sequence number, signature\<close>

definition payload_serialize :: "PlaintextPayload codec \<Rightarrow> PlaintextPayload \<Rightarrow> (bytes, CoreError) outcome" where
  "payload_serialize c p = (case enc c p of Inl e \<Rightarrow> Panic | Inr bs \<Rightarrow> Ok bs)"

definition payload_deserialize :: "PlaintextPayload codec \<Rightarrow> bytes \<Rightarrow> PlaintextPayload option" where
  "payload_deserialize c bs = (case dec c bs of Inl e \<Rightarrow> None | Inr p \<Rightarrow> Some p)"

lemma payload_roundtrip:
  "codec_roundtrip c \<Longrightarrow> payload_serialize c p = Ok bs \<Longrightarrow> payload_deserialize c bs = Some p"
  by (auto simp: payload_serialize_def payload_deserialize_def codec_roundtrip_def split: sum.splits)

section \<open>Pairing payloads\<close>

record PairingPayload =
  pp_identity_key :: bytes
  pp_curve25519_key :: bytes
  pp_transport_key :: bytes
  pp_one_time_key :: bytes
  pp_nonce :: bytes
  pp_server_addr :: "bytes option"

section \<open>Signed mailbox-pointer updates\<close>

text \<open>
  \<open>ed_public\<close> is the verifying key of a signing key. What Ed25519 documents: public keys are
  valid, a signature has 64 bytes and verifies under the key it was made with.
\<close>

record ed25519 =
  ed_public :: "bytes \<Rightarrow> bytes"
  ed_sign :: "bytes \<Rightarrow> bytes \<Rightarrow> bytes"
  ed_key_valid :: "bytes \<Rightarrow> bool"
  ed_verify_strict :: "bytes \<Rightarrow> bytes \<Rightarrow> bytes \<Rightarrow> bool"

definition ed25519_documented :: "ed25519 \<Rightarrow> bool" where
  "ed25519_documented ed \<longleftrightarrow>
     (\<forall>sk. ed_key_valid ed (ed_public ed sk) \<and> length (ed_public ed sk) = 32)
   \<and> (\<forall>sk m. length (ed_sign ed sk m) = 64 \<and> ed_verify_strict ed (ed_public ed sk) m (ed_sign ed sk m))"

type_synonym pointer_fields = "bytes option \<times> u64 \<times> u64"

definition pointer_update_signed_bytes ::
  "pointer_fields codec \<Rightarrow> bytes option \<Rightarrow> u64 \<Rightarrow> u64 \<Rightarrow> (bytes, CoreError) outcome" where
  "pointer_update_signed_bytes c addr updated_at seq =
     (case enc c (addr, updated_at, seq) of Inl e \<Rightarrow> Panic | Inr bs \<Rightarrow> Ok bs)"

definition sign_pointer_update ::
  "ed25519 \<Rightarrow> pointer_fields codec \<Rightarrow> bytes \<Rightarrow> bytes option \<Rightarrow> u64 \<Rightarrow> u64 \<Rightarrow> (bytes, CoreError) outcome" where
  "sign_pointer_update ed c signing addr updated_at seq =
     bind_outcome (pointer_update_signed_bytes c addr updated_at seq) (\<lambda>m. Ok (ed_sign ed signing m))"

definition verify_pointer_update ::
  "ed25519 \<Rightarrow> pointer_fields codec \<Rightarrow> bytes \<Rightarrow> bytes option \<Rightarrow> u64 \<Rightarrow> u64 \<Rightarrow> bytes
    \<Rightarrow> (bool, CoreError) outcome" where
  "verify_pointer_update ed c ik addr updated_at seq signature =
     (if \<not> ed_key_valid ed ik then Ok False
      else if to_array 64 signature = None then Ok False
      else bind_outcome (pointer_update_signed_bytes c addr updated_at seq)
             (\<lambda>m. Ok (ed_verify_strict ed ik m signature)))"

definition pointer_update_is_valid ::
  "ed25519 \<Rightarrow> pointer_fields codec \<Rightarrow> bytes \<Rightarrow> u64 \<Rightarrow> bytes option \<Rightarrow> u64 \<Rightarrow> u64 \<Rightarrow> bytes
    \<Rightarrow> (bool, CoreError) outcome" where
  "pointer_update_is_valid ed c ik current_pointer_seq addr updated_at seq signature =
     bind_outcome (verify_pointer_update ed c ik addr updated_at seq signature)
       (\<lambda>ok. Ok (ok \<and> seq > current_pointer_seq))"

lemma signed_update_verifies:
  assumes "ed25519_documented ed" and "sign_pointer_update ed c sk addr ua seq = Ok sig"
  shows "verify_pointer_update ed c (ed_public ed sk) addr ua seq sig = Ok True"
proof -
  from assms(2) obtain m where m: "pointer_update_signed_bytes c addr ua seq = Ok m"
    and sig: "sig = ed_sign ed sk m"
    by (auto simp: sign_pointer_update_def bind_outcome_Ok_iff)
  from assms(1) have "length sig = 64" "ed_key_valid ed (ed_public ed sk)"
    "ed_verify_strict ed (ed_public ed sk) m sig"
    by (simp_all add: ed25519_documented_def sig)
  then show ?thesis by (simp add: verify_pointer_update_def m to_array_def)
qed

end
