(* ===== verification/Core_Backup.thy ===== *)
theory Core_Backup
  imports Core_Base
begin

text \<open>
  \<^verbatim>\<open>crates/pm-core/src/backup.rs\<close>: what goes into a backup and how it is restored into an
  empty store. The round trip is proved for whole stores: what a device assembles after restoring
  a backup is the backup. What is not in the bundle is stated too: the Lamport clock and the
  replay guard for pointer updates start over.
\<close>

section \<open>The bundle\<close>

record BackupContact =
  bc_identity_key :: bytes
  bc_curve25519_key :: bytes
  bc_display_name :: "string option"
  bc_server_addr :: "bytes option"
  bc_pair_secret :: "bytes option"
  bc_next_write_n :: u64
  bc_session_pickle :: "bytes option"
  bc_pending_otk :: "bytes option"
  bc_transport_key :: "bytes option"
  bc_messages :: "StoredMessage list"

record BackupBundle =
  bb_account_pickle :: bytes
  bb_contacts :: "BackupContact list"
  bb_own_server_addr :: "bytes option"
  bb_pointer_broadcast_seq :: u64

definition backup_contact :: "ContactRecord \<Rightarrow> bytes option \<Rightarrow> StoredMessage list \<Rightarrow> BackupContact" where
  "backup_contact c pickle ms =
     \<lparr>bc_identity_key = identity_key c, bc_curve25519_key = curve25519_key c,
      bc_display_name = display_name c, bc_server_addr = server_addr c,
      bc_pair_secret = pair_secret c, bc_next_write_n = next_write_n c,
      bc_session_pickle = pickle, bc_pending_otk = pending_otk c,
      bc_transport_key = contact_transport_key c, bc_messages = ms\<rparr>"

fun assemble_contacts :: "ContactRecord list \<Rightarrow> (store, BackupContact list, CoreError) action" where
  "assemble_contacts [] = pure []"
| "assemble_contacts (c # cs) =
     and_then (from_store (load_session_pickle (cr_id c))) (\<lambda>pickle.
     and_then (from_store (messages_for_contact (cr_id c))) (\<lambda>ms.
     and_then (assemble_contacts cs) (\<lambda>rest. pure (backup_contact c pickle ms # rest))))"

definition assemble :: "(store, BackupBundle, CoreError) action" where
  "assemble =
     and_then (from_store load_account_pickle) (\<lambda>maybe_pickle.
     and_then (lift_outcome (ok_or (CorruptBackup ''no account pickle to back up'') maybe_pickle)) (\<lambda>pickle.
     and_then (from_store get_own_server_addr) (\<lambda>addr.
     and_then (from_store get_pointer_broadcast_seq) (\<lambda>seq.
     and_then (from_store list_contacts) (\<lambda>records.
     and_then (assemble_contacts records) (\<lambda>cs.
       pure \<lparr>bb_account_pickle = pickle, bb_contacts = cs, bb_own_server_addr = addr,
             bb_pointer_broadcast_seq = seq\<rparr>))))))"

section \<open>Restoring\<close>

fun repeat_action :: "nat \<Rightarrow> ('s, 'a, 'e) action \<Rightarrow> ('s, unit, 'e) action" where
  "repeat_action 0 m = pure ()"
| "repeat_action (Suc k) m = and_then m (\<lambda>_. repeat_action k m)"

fun when_some :: "'x option \<Rightarrow> ('x \<Rightarrow> ('s, unit, 'e) action) \<Rightarrow> ('s, unit, 'e) action" where
  "when_some None f = pure ()"
| "when_some (Some x) f = f x"

definition restored_message :: "StoredMessage \<Rightarrow> NewMessage" where
  "restored_message m =
     \<lparr>nm_msg_id = sm_msg_id m, nm_direction = sm_direction m, nm_lamport = sm_lamport m,
      nm_sent_at = sm_sent_at m, nm_plaintext = sm_plaintext m, nm_status = sm_status m\<rparr>"

definition restore_contact :: "BackupContact \<Rightarrow> unit store_action" where
  "restore_contact c =
     and_then (upsert_contact (bc_identity_key c) (bc_curve25519_key c) (bc_display_name c)) (\<lambda>cid.
     and_then (when_some (bc_server_addr c) (\<lambda>a. set_contact_server_addr cid (Some a))) (\<lambda>_.
     and_then (when_some (bc_pair_secret c) (set_contact_pair_secret cid)) (\<lambda>_.
     and_then (repeat_action (unat (bc_next_write_n c)) (increment_and_get_next_write_n cid)) (\<lambda>_.
     and_then (when_some (bc_session_pickle c) (save_session_pickle cid)) (\<lambda>_.
     and_then (when_some (bc_transport_key c) (set_contact_transport_key cid)) (\<lambda>_.
     and_then (when_some (bc_pending_otk c) (\<lambda>k. set_contact_pending_otk cid (Some k))) (\<lambda>_.
       for_each (\<lambda>m. insert_message cid (restored_message m)) (bc_messages c))))))))"

definition restore_into :: "BackupBundle \<Rightarrow> (store, unit, CoreError) action" where
  "restore_into bundle =
     from_store
       (and_then (save_account_pickle (bb_account_pickle bundle)) (\<lambda>_.
        and_then (set_own_server_addr (bb_own_server_addr bundle)) (\<lambda>_.
        and_then (set_pointer_broadcast_seq (bb_pointer_broadcast_seq bundle)) (\<lambda>_.
          for_each restore_contact (bb_contacts bundle)))))"

definition bundle_serialize :: "BackupBundle codec \<Rightarrow> BackupBundle \<Rightarrow> (bytes, CoreError) outcome" where
  "bundle_serialize c bundle = (case enc c bundle of Inl e \<Rightarrow> Panic | Inr bs \<Rightarrow> Ok bs)"

definition bundle_deserialize :: "BackupBundle codec \<Rightarrow> bytes \<Rightarrow> (BackupBundle, CoreError) outcome" where
  "bundle_deserialize c bs = or_err CorruptBackup (dec c bs)"

section \<open>Assembling a well-formed store\<close>

definition session_of :: "store \<Rightarrow> i64 \<Rightarrow> bytes option" where
  "session_of s cid = map_option s_pickle (lookup_row s_contact_id cid (sessions s))"

definition history_of :: "store \<Rightarrow> i64 \<Rightarrow> StoredMessage list" where
  "history_of s cid =
     map message_of (sort_key m_lamport (filter (\<lambda>r. m_contact_id r = cid) (messages s)))"

definition bundle_of :: "store \<Rightarrow> account_row \<Rightarrow> i64 \<Rightarrow> BackupBundle" where
  "bundle_of s a seq =
     \<lparr>bb_account_pickle = a_pickle a,
      bb_contacts = map (\<lambda>r. backup_contact (contact_of r) (session_of s (c_id r)) (history_of s (c_id r)))
        (sort_key c_id (contacts s)),
      bb_own_server_addr = a_own_server_addr a, bb_pointer_broadcast_seq = as_u64 seq\<rparr>"

lemma assemble_contacts_ok:
  assumes "store_wf s"
  shows "assemble_contacts cs s =
    (Ok (map (\<lambda>c. backup_contact c (session_of s (cr_id c)) (history_of s (cr_id c))) cs), s)"
  by (induction cs)
    (simp_all add: action_simps and_then_def from_store_def load_session_pickle_def session_of_def
      history_of_def messages_for_contact_ok[OF assms])

lemma assemble_ok:
  assumes "store_wf s" and "account s = Some a" and "a_pointer_broadcast_seq a = Integer seq"
  shows "assemble s = (Ok (bundle_of s a seq), s)"
  using assms(2,3)
  by (simp add: assemble_def and_then_def from_store_def load_account_pickle_def get_own_server_addr_def
      get_pointer_broadcast_seq_def list_contacts_ok[OF assms(1)] assemble_contacts_ok[OF assms(1)]
      bundle_of_def pure_def lift_outcome_def comp_def)

section \<open>Restoring one contact\<close>

text \<open>The rows a contact of a bundle is restored to, under a given id.\<close>

definition restored_row :: "i64 \<Rightarrow> BackupContact \<Rightarrow> contact_row" where
  "restored_row cid c =
     \<lparr>c_id = cid, c_identity_key = bc_identity_key c, c_curve25519_key = bc_curve25519_key c,
      c_display_name = bc_display_name c, c_server_addr = bc_server_addr c,
      c_pair_secret = bc_pair_secret c, c_next_write_n = Integer (int (unat (bc_next_write_n c))),
      c_pending_otk = bc_pending_otk c, c_transport_key = bc_transport_key c,
      c_pointer_updated_at = 0, c_pointer_seq = 0\<rparr>"

definition restored_message_row :: "i64 \<Rightarrow> StoredMessage \<Rightarrow> message_row" where
  "restored_message_row cid m =
     \<lparr>m_contact_id = cid, m_msg_id = sm_msg_id m, m_direction = direction_as_str (sm_direction m),
      m_lamport = as_i64 (sm_lamport m), m_sent_at = as_i64 (sm_sent_at m),
      m_plaintext = sm_plaintext m, m_status = map_option status_as_str (sm_status m)\<rparr>"

definition restored_session :: "i64 \<Rightarrow> BackupContact \<Rightarrow> session_row list" where
  "restored_session cid c =
     (case bc_session_pickle c of None \<Rightarrow> [] | Some p \<Rightarrow> [\<lparr>s_contact_id = cid, s_pickle = p\<rparr>])"

text \<open>What the code can read back from a bundle's contact.\<close>

definition bundle_contact_ok :: "BackupContact \<Rightarrow> bool" where
  "bundle_contact_ok c \<longleftrightarrow>
     length (bc_identity_key c) = 32 \<and> length (bc_curve25519_key c) = 32
   \<and> unat (bc_next_write_n c) < 2 ^ 63
   \<and> distinct (map sm_msg_id (bc_messages c))
   \<and> list_all (\<lambda>m. length (sm_msg_id m) = 16) (bc_messages c)
   \<and> sorted (map (\<lambda>m. as_i64 (sm_lamport m)) (bc_messages c))
   \<and> (\<forall>k. bc_pair_secret c = Some k \<or> bc_pending_otk c = Some k \<or> bc_transport_key c = Some k
        \<longrightarrow> length k = 32)"

text \<open>All steps up to the messages act on the last row of the table, which has a fresh id.\<close>

definition with_last :: "store \<Rightarrow> contact_row \<Rightarrow> store" where
  "with_last s r = s\<lparr>contacts := contacts s @ [r]\<rparr>"

lemma update_last:
  assumes "c_id r \<notin> c_id ` set (contacts s)"
  shows "update_contact (c_id r) f (with_last s r) = (Ok (), with_last s (f r))"
proof -
  have "update_where (\<lambda>x. c_id x = c_id r) f (contacts s) = contacts s"
    using assms by (intro update_where_none) (metis image_eqI)
  then show ?thesis by (simp add: update_contact_def with_last_def update_where_def)
qed

lemma repeat_increment:
  assumes "c_id r \<notin> c_id ` set (contacts s)" and "c_next_write_n r = Integer n"
    and "n + int k \<le> i64_max"
  shows "repeat_action k (increment_and_get_next_write_n (c_id r)) (with_last s r)
    = (Ok (), with_last s (r\<lparr>c_next_write_n := Integer (n + int k)\<rparr>))"
  using assms
proof (induction k arbitrary: r n)
  case 0
  then show ?case by (cases r) (simp add: pure_def)
next
  case (Suc k)
  let ?r' = "r\<lparr>c_next_write_n := Integer (n + 1)\<rparr>"
  have none: "lookup_row c_id (c_id r) (contacts s) = None"
    using Suc.prems(1) by (simp add: lookup_row_None_iff)
  have "increment_and_get_next_write_n (c_id r) (with_last s r) = (Ok (as_u64 n), with_last s ?r')"
    using update_last[OF Suc.prems(1)] Suc.prems(2,3) none
    by (simp add: increment_and_get_next_write_n_def and_then_def)
      (simp add: with_last_def lookup_row_append none)
  moreover have "repeat_action k (increment_and_get_next_write_n (c_id ?r')) (with_last s ?r')
      = (Ok (), with_last s (?r'\<lparr>c_next_write_n := Integer (n + 1 + int k)\<rparr>))"
    using Suc.IH[of ?r' "n + 1"] Suc.prems by simp
  ultimately show ?case by (simp add: and_then_def algebra_simps)
qed

lemma when_some_update_last:
  assumes "c_id r \<notin> c_id ` set (contacts s)"
  shows "when_some x (\<lambda>a. update_contact (c_id r) (f a)) (with_last s r)
    = (Ok (), with_last s (case x of None \<Rightarrow> r | Some a \<Rightarrow> f a r))"
  by (cases x) (simp_all add: pure_def update_last[OF assms])

lemma save_session_last:
  assumes "c_id r \<notin> s_contact_id ` set (sessions s)"
  shows "when_some x (save_session_pickle (c_id r)) (with_last s r) =
    (Ok (), with_last (s\<lparr>sessions := sessions s @
        (case x of None \<Rightarrow> [] | Some p \<Rightarrow> [\<lparr>s_contact_id = c_id r, s_pickle = p\<rparr>])\<rparr>) r)"
  using assms
  by (cases x) (simp_all add: pure_def save_session_pickle_def fk_violated_def with_last_def upsert_def)

lemma insert_messages_last:
  assumes "cid \<in> c_id ` set (contacts s)"
    and "distinct (map sm_msg_id ms)"
    and "\<And>m. m \<in> set ms \<Longrightarrow> (cid, sm_msg_id m) \<notin> message_key ` set (messages s)"
  shows "for_each (\<lambda>m. insert_message cid (restored_message m)) ms s =
    (Ok (), s\<lparr>messages := messages s @ map (restored_message_row cid) ms\<rparr>)"
  using assms
proof (induction ms arbitrary: s)
  case Nil
  then show ?case by (simp add: pure_def)
next
  case (Cons m ms)
  let ?s' = "s\<lparr>messages := messages s @ [restored_message_row cid m]\<rparr>"
  have "\<not> (\<exists>r \<in> set (messages s). m_contact_id r = cid \<and> m_msg_id r = sm_msg_id m)"
    using Cons.prems(3)[of m] by (auto simp: message_key_def image_iff)
  then have "insert_message cid (restored_message m) s = (Ok (), ?s')"
    using Cons.prems(1)
    by (simp add: insert_message_def fk_violated_def restored_message_def restored_message_row_def)
  moreover have "for_each (\<lambda>m. insert_message cid (restored_message m)) ms ?s' =
      (Ok (), ?s'\<lparr>messages := messages ?s' @ map (restored_message_row cid) ms\<rparr>)"
  proof (rule Cons.IH)
    show "cid \<in> c_id ` set (contacts ?s')" using Cons.prems(1) by simp
    show "distinct (map sm_msg_id ms)" using Cons.prems(2) by simp
    show "(cid, sm_msg_id m') \<notin> message_key ` set (messages ?s')" if "m' \<in> set ms" for m'
    proof -
      have "sm_msg_id m' \<noteq> sm_msg_id m" using that Cons.prems(2) by (metis distinct.simps(2) image_eqI list.set_map list.simps(9))
      then show ?thesis
        using that Cons.prems(3)[of m'] by (auto simp: message_key_def restored_message_row_def)
    qed
  qed
  ultimately show ?case by (simp add: and_then_def)
qed

definition after_contact :: "i64 \<Rightarrow> BackupContact \<Rightarrow> store \<Rightarrow> store" where
  "after_contact cid c s =
     s\<lparr>contacts := contacts s @ [restored_row cid c],
       sessions := sessions s @ restored_session cid c,
       messages := messages s @ map (restored_message_row cid) (bc_messages c)\<rparr>"

lemma restore_contact_ok:
  assumes ok: "bundle_contact_ok c"
    and new: "bc_identity_key c \<notin> c_identity_key ` set (contacts s)"
    and cid: "cid = next_rowid c_id (contacts s)"
    and free: "cid \<notin> s_contact_id ` set (sessions s)" "cid \<notin> m_contact_id ` set (messages s)"
  shows "restore_contact c s = (Ok (), after_contact cid c s)"
proof -
  have fresh: "cid \<notin> c_id ` set (contacts s)" unfolding cid by (rule next_rowid_fresh)
  let ?r0 = "\<lparr>c_id = cid, c_identity_key = bc_identity_key c, c_curve25519_key = bc_curve25519_key c,
      c_display_name = bc_display_name c, c_server_addr = None, c_pair_secret = None,
      c_next_write_n = Integer 0, c_pending_otk = None, c_transport_key = None,
      c_pointer_updated_at = 0, c_pointer_seq = 0\<rparr>"
  let ?r1 = "?r0\<lparr>c_server_addr := bc_server_addr c\<rparr>"
  let ?r2 = "?r1\<lparr>c_pair_secret := bc_pair_secret c\<rparr>"
  let ?r3 = "?r2\<lparr>c_next_write_n := Integer (int (unat (bc_next_write_n c)))\<rparr>"
  let ?r4 = "?r3\<lparr>c_transport_key := bc_transport_key c\<rparr>"
  let ?r5 = "?r4\<lparr>c_pending_otk := bc_pending_otk c\<rparr>"
  let ?s1 = "s\<lparr>sessions := sessions s @ restored_session cid c\<rparr>"
  from new have none: "lookup_row c_identity_key (bc_identity_key c) (contacts s) = None"
    by (simp add: lookup_row_None_iff)
  have u: "upsert_contact (bc_identity_key c) (bc_curve25519_key c) (bc_display_name c) s
      = (Ok cid, with_last s ?r0)"
    using new none
    by (simp add: upsert_contact_def Let_def upsert_def cid with_last_def lookup_row_append)
  have a: "when_some (bc_server_addr c) (\<lambda>a. set_contact_server_addr cid (Some a)) (with_last s ?r0)
      = (Ok (), with_last s ?r1)"
    using when_some_update_last[of ?r0 s "bc_server_addr c" "\<lambda>a. c_server_addr_update (\<lambda>_. Some a)"] fresh
    by (cases "bc_server_addr c") (simp_all add: set_contact_server_addr_def)
  have p: "when_some (bc_pair_secret c) (set_contact_pair_secret cid) (with_last s ?r1)
      = (Ok (), with_last s ?r2)"
    using when_some_update_last[of ?r1 s "bc_pair_secret c" "\<lambda>a. c_pair_secret_update (\<lambda>_. Some a)"] fresh
    by (cases "bc_pair_secret c") (simp_all add: set_contact_pair_secret_def)
  have n: "repeat_action (unat (bc_next_write_n c)) (increment_and_get_next_write_n cid) (with_last s ?r2)
      = (Ok (), with_last s ?r3)"
    using repeat_increment[of ?r2 s 0 "unat (bc_next_write_n c)"] fresh ok
    by (simp add: bundle_contact_ok_def i64_max_def del: of_nat_unat)
  have q: "when_some (bc_session_pickle c) (save_session_pickle cid) (with_last s ?r3)
      = (Ok (), with_last ?s1 ?r3)"
    using save_session_last[of ?r3 s "bc_session_pickle c"] free(1)
    by (cases "bc_session_pickle c") (simp_all add: restored_session_def)
  have t: "when_some (bc_transport_key c) (set_contact_transport_key cid) (with_last ?s1 ?r3)
      = (Ok (), with_last ?s1 ?r4)"
    using when_some_update_last[of ?r3 ?s1 "bc_transport_key c" "\<lambda>a. c_transport_key_update (\<lambda>_. Some a)"] fresh
    by (cases "bc_transport_key c") (simp_all add: set_contact_transport_key_def)
  have o: "when_some (bc_pending_otk c) (\<lambda>k. set_contact_pending_otk cid (Some k)) (with_last ?s1 ?r4)
      = (Ok (), with_last ?s1 ?r5)"
    using when_some_update_last[of ?r4 ?s1 "bc_pending_otk c" "\<lambda>a. c_pending_otk_update (\<lambda>_. Some a)"] fresh
    by (cases "bc_pending_otk c") (simp_all add: set_contact_pending_otk_def)
  have m: "for_each (\<lambda>m. insert_message cid (restored_message m)) (bc_messages c) (with_last ?s1 ?r5)
      = (Ok (), (with_last ?s1 ?r5)\<lparr>messages := messages s @ map (restored_message_row cid) (bc_messages c)\<rparr>)"
  proof -
    have "(cid, mid) \<notin> message_key ` set (messages (with_last ?s1 ?r5))" for mid
      using free(2) by (force simp: with_last_def message_key_def)
    moreover have "cid \<in> c_id ` set (contacts (with_last ?s1 ?r5))" by (simp add: with_last_def)
    ultimately show ?thesis
      using insert_messages_last[of cid "with_last ?s1 ?r5" "bc_messages c"] ok
      by (simp add: bundle_contact_ok_def with_last_def)
  qed
  have r5: "restored_row cid c = ?r5" by (simp add: restored_row_def)
  have "restore_contact c s = (Ok (), (with_last ?s1 ?r5)
      \<lparr>messages := messages s @ map (restored_message_row cid) (bc_messages c)\<rparr>)"
    by (simp only: restore_contact_def and_then_def u a p n q t o m prod.case outcome.case)
  also have "\<dots> = (Ok (), after_contact cid c s)"
    by (simp only: after_contact_def with_last_def r5) simp
  finally show ?thesis .
qed

section \<open>Restoring a bundle\<close>

fun after_contacts :: "BackupContact list \<Rightarrow> store \<Rightarrow> store" where
  "after_contacts [] s = s"
| "after_contacts (c # cs) s = after_contacts cs (after_contact (next_rowid c_id (contacts s)) c s)"

text \<open>Sessions and messages belong to contacts.\<close>

definition refs_ok :: "store \<Rightarrow> bool" where
  "refs_ok s \<longleftrightarrow> s_contact_id ` set (sessions s) \<subseteq> c_id ` set (contacts s)
     \<and> m_contact_id ` set (messages s) \<subseteq> c_id ` set (contacts s)"

lemma refs_ok_after: "refs_ok s \<Longrightarrow> refs_ok (after_contact cid c s)"
  by (auto simp: refs_ok_def after_contact_def restored_row_def restored_session_def
      restored_message_row_def split: option.splits)

lemma for_each_restore:
  assumes "\<forall>c \<in> set cs. bundle_contact_ok c" and "distinct (map bc_identity_key cs)"
    and "bc_identity_key ` set cs \<inter> c_identity_key ` set (contacts s) = {}" and "refs_ok s"
  shows "for_each restore_contact cs s = (Ok (), after_contacts cs s)"
  using assms
proof (induction cs arbitrary: s)
  case Nil
  then show ?case by (simp add: pure_def)
next
  case (Cons c cs)
  let ?cid = "next_rowid c_id (contacts s)"
  have "?cid \<notin> c_id ` set (contacts s)" by (rule next_rowid_fresh)
  with Cons.prems(4) have "?cid \<notin> s_contact_id ` set (sessions s)" "?cid \<notin> m_contact_id ` set (messages s)"
    by (auto simp: refs_ok_def)
  then have one: "restore_contact c s = (Ok (), after_contact ?cid c s)"
    using Cons.prems(1,3) by (intro restore_contact_ok) auto
  have "for_each restore_contact cs (after_contact ?cid c s) = (Ok (), after_contacts cs (after_contact ?cid c s))"
    using Cons.prems refs_ok_after by (intro Cons.IH) (auto simp: after_contact_def restored_row_def)
  with one show ?case by (simp add: and_then_def)
qed

text \<open>What a store would back up, contact by contact.\<close>

definition view :: "store \<Rightarrow> BackupContact list" where
  "view s = map (\<lambda>r. backup_contact (contact_of r) (session_of s (c_id r)) (history_of s (c_id r))) (contacts s)"

lemma message_of_restored: "length (sm_msg_id m) = 16 \<Longrightarrow> message_of (restored_message_row cid m) = m"
  by (cases "sm_status m") (simp_all add: message_of_def restored_message_row_def)

lemma message_ok_restored: "length (sm_msg_id m) = 16 \<Longrightarrow> message_ok (restored_message_row cid m)"
  using as_i64_bounds[of "sm_lamport m"]
  by (cases "sm_status m") (auto simp: message_ok_def restored_message_row_def)

lemma contact_of_restored:
  assumes "bundle_contact_ok c"
  shows "backup_contact (contact_of (restored_row cid c)) (bc_session_pickle c) (bc_messages c) = c"
proof -
  have "Option.bind x (to_array 32) = x" if "\<And>k. x = Some k \<Longrightarrow> length k = 32" for x
    using that by (cases x) (simp_all add: to_array_def)
  then have "Option.bind (bc_pair_secret c) (to_array 32) = bc_pair_secret c"
    "Option.bind (bc_pending_otk c) (to_array 32) = bc_pending_otk c"
    "Option.bind (bc_transport_key c) (to_array 32) = bc_transport_key c"
    using assms by (auto simp: bundle_contact_ok_def)
  then show ?thesis by (simp add: backup_contact_def contact_of_def restored_row_def as_u64_def)
qed

lemma view_after_contact:
  assumes ok: "bundle_contact_ok c" and refs: "refs_ok s"
    and fresh: "cid \<notin> c_id ` set (contacts s)"
  shows "view (after_contact cid c s) = view s @ [c]"
proof -
  let ?s' = "after_contact cid c s"
  have no_sess: "lookup_row s_contact_id cid (sessions s) = None"
    using refs fresh by (auto simp: lookup_row_None_iff refs_ok_def)
  have no_msgs: "filter (\<lambda>r. m_contact_id r = cid) (messages s) = []"
    using refs fresh by (auto simp: filter_empty_conv refs_ok_def)
  have old_sess: "session_of ?s' i = session_of s i" if "i \<noteq> cid" for i
    using that by (auto simp: session_of_def after_contact_def lookup_row_append restored_session_def
        split: option.splits)
  have "filter (\<lambda>r. m_contact_id r = i) (map (restored_message_row cid) ms) = []" if "i \<noteq> cid" for i ms
    using that by (auto simp: filter_empty_conv restored_message_row_def)
  then have old_hist: "history_of ?s' i = history_of s i" if "i \<noteq> cid" for i
    using that by (simp add: history_of_def after_contact_def)
  have new_sess: "session_of ?s' cid = bc_session_pickle c"
    using no_sess by (cases "bc_session_pickle c")
      (simp_all add: session_of_def after_contact_def lookup_row_append restored_session_def)
  have "filter (\<lambda>r. m_contact_id r = cid) (map (restored_message_row cid) ms) = map (restored_message_row cid) ms" for ms
    by (induction ms) (simp_all add: restored_message_row_def)
  then have "filter (\<lambda>r. m_contact_id r = cid) (messages ?s') = map (restored_message_row cid) (bc_messages c)"
    using no_msgs by (simp add: after_contact_def)
  moreover have "sorted (map m_lamport (map (restored_message_row cid) (bc_messages c)))"
    using ok by (simp add: bundle_contact_ok_def restored_message_row_def comp_def)
  moreover have "map (message_of \<circ> restored_message_row cid) (bc_messages c) = bc_messages c"
    using ok by (intro map_idI) (simp add: bundle_contact_ok_def list_all_iff message_of_restored)
  ultimately have new_hist: "history_of ?s' cid = bc_messages c"
    by (simp add: history_of_def sort_key_id_if_sorted)
  have old: "map (\<lambda>r. backup_contact (contact_of r) (session_of ?s' (c_id r)) (history_of ?s' (c_id r))) (contacts s) = view s"
    unfolding view_def
  proof (rule map_cong[OF refl])
    fix r assume "r \<in> set (contacts s)"
    then have "c_id r \<noteq> cid" using fresh by auto
    then show "backup_contact (contact_of r) (session_of ?s' (c_id r)) (history_of ?s' (c_id r))
        = backup_contact (contact_of r) (session_of s (c_id r)) (history_of s (c_id r))"
      using old_sess old_hist by simp
  qed
  have cs: "contacts ?s' = contacts s @ [restored_row cid c]" by (simp add: after_contact_def)
  have rid: "c_id (restored_row cid c) = cid" by (simp add: restored_row_def)
  show ?thesis
    using old unfolding view_def[of ?s'] cs
    by (simp add: rid new_sess new_hist contact_of_restored[OF ok])
qed

lemma after_contact_wf:
  assumes ok: "bundle_contact_ok c" and wf: "store_wf s" and refs: "refs_ok s"
    and cid: "cid = next_rowid c_id (contacts s)"
    and new: "bc_identity_key c \<notin> c_identity_key ` set (contacts s)"
  shows "store_wf (after_contact cid c s)"
proof -
  have fresh: "cid \<notin> c_id ` set (contacts s)" and pos: "0 < cid"
    unfolding cid by (rule next_rowid_fresh, rule next_rowid_pos)
  have "contact_ok (restored_row cid c)"
    using ok pos by (simp add: contact_ok_def restored_row_def bundle_contact_ok_def i64_max_def del: of_nat_unat)
  moreover have "list_all message_ok (map (restored_message_row cid) (bc_messages c))"
    using ok by (simp add: list_all_iff message_ok_restored bundle_contact_ok_def)
  moreover have "distinct (map message_key (messages s @ map (restored_message_row cid) (bc_messages c)))"
  proof -
    have "distinct (map message_key (map (restored_message_row cid) (bc_messages c)))"
      using ok by (simp add: bundle_contact_ok_def distinct_map message_key_def restored_message_row_def
          inj_on_def comp_def)
    moreover have "message_key ` set (messages s) \<inter> message_key ` set (map (restored_message_row cid) (bc_messages c)) = {}"
      using refs fresh by (fastforce simp: message_key_def restored_message_row_def refs_ok_def)
    ultimately show ?thesis using wf by (auto simp: store_wf_def)
  qed
  moreover have "distinct (map s_contact_id (sessions s @ restored_session cid c))"
    using wf refs fresh by (auto simp: store_wf_def refs_ok_def restored_session_def split: option.splits)
  ultimately show ?thesis
    using wf fresh new by (simp add: store_wf_def after_contact_def restored_row_def)
qed

lemma after_contacts_view:
  assumes "\<forall>c \<in> set cs. bundle_contact_ok c" and "distinct (map bc_identity_key cs)"
    and "bc_identity_key ` set cs \<inter> c_identity_key ` set (contacts s) = {}"
    and "refs_ok s" and "store_wf s" and "sorted (map c_id (contacts s))"
  shows "view (after_contacts cs s) = view s @ cs \<and> store_wf (after_contacts cs s)
    \<and> sorted (map c_id (contacts (after_contacts cs s)))"
  using assms
proof (induction cs arbitrary: s)
  case (Cons c cs)
  let ?cid = "next_rowid c_id (contacts s)"
  let ?s' = "after_contact ?cid c s"
  have fresh: "?cid \<notin> c_id ` set (contacts s)" by (rule next_rowid_fresh)
  have v: "view ?s' = view s @ [c]"
    using view_after_contact[OF _ Cons.prems(4) fresh] Cons.prems(1) by simp
  have "store_wf ?s'"
    using Cons.prems by (intro after_contact_wf) auto
  moreover have "sorted (map c_id (contacts ?s'))"
    using Cons.prems(6) next_rowid_greater[of _ "contacts s" c_id]
    by (auto simp: after_contact_def restored_row_def sorted_append less_imp_le)
  ultimately have "view (after_contacts cs ?s') = view ?s' @ cs \<and> store_wf (after_contacts cs ?s')
      \<and> sorted (map c_id (contacts (after_contacts cs ?s')))"
    using Cons.prems refs_ok_after by (intro Cons.IH) (auto simp: after_contact_def restored_row_def)
  with v show ?case by simp
qed simp

lemma after_contacts_rest [simp]:
  "account (after_contacts cs s) = account s" "local_clock (after_contacts cs s) = local_clock s"
  by (induction cs arbitrary: s) (simp_all add: after_contact_def)

section \<open>What comes out of a well-formed store can be restored\<close>

lemma bundle_contact_ok_of:
  assumes wf: "store_wf s" and r: "r \<in> set (contacts s)"
  shows "bundle_contact_ok (backup_contact (contact_of r) (session_of s (c_id r)) (history_of s (c_id r)))"
proof -
  let ?ms = "sort_key m_lamport (filter (\<lambda>x. m_contact_id x = c_id r) (messages s))"
  have set_ms: "set ?ms \<subseteq> set (messages s)" by auto
  have mok: "message_ok x" if "x \<in> set ?ms" for x
    using that set_ms wf by (auto simp: store_wf_def list_all_iff)
  have "contact_ok r" using wf r by (simp add: store_wf_def list_all_iff)
  then obtain n where n: "c_next_write_n r = Integer n" "0 \<le> n" "n \<le> i64_max"
    and len: "length (c_identity_key r) = 32" "length (c_curve25519_key r) = 32"
    by (auto simp: contact_ok_def)
  have un: "unat (as_u64 n) < 2 ^ 63" using unat_as_u64[OF n(2,3)] n(2,3) by (simp add: i64_max_def)
  have "distinct (map message_key (filter (\<lambda>x. m_contact_id x = c_id r) (messages s)))"
    using wf by (simp add: store_wf_def distinct_map_filter)
  then have "distinct (map m_msg_id (filter (\<lambda>x. m_contact_id x = c_id r) (messages s)))"
    by (auto simp: distinct_map message_key_def inj_on_def)
  then have "distinct (map m_msg_id ?ms)" by (simp add: distinct_map)
  then have d: "distinct (map sm_msg_id (map message_of ?ms))" by (simp add: message_of_def comp_def)
  have "map (\<lambda>m. as_i64 (sm_lamport m)) (map message_of ?ms) = map m_lamport ?ms"
    using mok by (auto simp: message_of_def message_ok_def)
  then have srt: "sorted (map (\<lambda>m. as_i64 (sm_lamport m)) (map message_of ?ms))"
    by (simp only: sorted_sort_key)
  have l16: "list_all (\<lambda>m. length (sm_msg_id m) = 16) (map message_of ?ms)"
    using mok by (auto simp: list_all_iff message_of_def message_ok_def)
  show ?thesis
    using len un d srt l16 n(1)
    by (auto simp: bundle_contact_ok_def backup_contact_def contact_of_def history_of_def bind_eq_Some_conv)
qed

lemma bundle_of_contacts:
  assumes wf: "store_wf s"
  shows "\<forall>c \<in> set (bb_contacts (bundle_of s a seq)). bundle_contact_ok c"
    and "distinct (map bc_identity_key (bb_contacts (bundle_of s a seq)))"
proof -
  show "\<forall>c \<in> set (bb_contacts (bundle_of s a seq)). bundle_contact_ok c"
    using bundle_contact_ok_of[OF wf] by (auto simp: bundle_of_def)
  have "map bc_identity_key (bb_contacts (bundle_of s a seq)) = map c_identity_key (sort_key c_id (contacts s))"
    by (simp add: bundle_of_def backup_contact_def contact_of_def comp_def)
  then show "distinct (map bc_identity_key (bb_contacts (bundle_of s a seq)))"
    using wf by (simp add: store_wf_def distinct_map)
qed

definition restored_account :: "BackupBundle \<Rightarrow> account_row" where
  "restored_account b = \<lparr>a_pickle = bb_account_pickle b, a_last_synced_blob_id = 0,
     a_own_server_addr = bb_own_server_addr b,
     a_pointer_broadcast_seq = Integer (as_i64 (bb_pointer_broadcast_seq b))\<rparr>"

lemma restore_into_empty:
  assumes "\<forall>c \<in> set (bb_contacts b). bundle_contact_ok c" and "distinct (map bc_identity_key (bb_contacts b))"
  shows "restore_into b (empty_store fk) =
    (Ok (), after_contacts (bb_contacts b) ((empty_store fk)\<lparr>account := Some (restored_account b)\<rparr>))"
proof -
  let ?s0 = "(empty_store fk)\<lparr>account := Some (restored_account b)\<rparr>"
  have "for_each restore_contact (bb_contacts b) ?s0 = (Ok (), after_contacts (bb_contacts b) ?s0)"
    using assms by (intro for_each_restore) (simp_all add: refs_ok_def empty_store_def)
  moreover have "snd (set_pointer_broadcast_seq (bb_pointer_broadcast_seq b)
      (snd (set_own_server_addr (bb_own_server_addr b)
        (snd (save_account_pickle (bb_account_pickle b) (empty_store fk)))))) = ?s0"
    by (simp add: set_pointer_broadcast_seq_def set_own_server_addr_def save_account_pickle_def
        upsert_account_def empty_store_def empty_account_def restored_account_def)
  ultimately show ?thesis
    by (simp add: restore_into_def from_store_def and_then_def save_account_pickle_def
        set_own_server_addr_def set_pointer_broadcast_seq_def)
qed

lemma restored_store:
  fixes fk :: bool and b :: BackupBundle
  assumes "\<forall>c \<in> set (bb_contacts b). bundle_contact_ok c" and "distinct (map bc_identity_key (bb_contacts b))"
  defines "s' \<equiv> after_contacts (bb_contacts b) ((empty_store fk)\<lparr>account := Some (restored_account b)\<rparr>)"
  shows "store_wf s' \<and> bundle_of s' (restored_account b) (as_i64 (bb_pointer_broadcast_seq b)) = b"
proof -
  let ?s0 = "(empty_store fk)\<lparr>account := Some (restored_account b)\<rparr>"
  have "view s' = view ?s0 @ bb_contacts b \<and> store_wf s' \<and> sorted (map c_id (contacts s'))"
    unfolding s'_def using assms(1,2)
    by (intro after_contacts_view) (simp_all add: refs_ok_def empty_store_def store_wf_def)
  moreover have "view ?s0 = []" by (simp add: view_def empty_store_def)
  ultimately show ?thesis
    by (simp add: bundle_of_def view_def sort_key_id_if_sorted restored_account_def)
qed

section \<open>Properties\<close>

text \<open>
  C18: a restored device holds what was backed up. Every well-formed store with an account can be
  backed up; restoring the bundle into an empty store succeeds, and assembling a backup on the
  restored device gives exactly the same bundle: account, own address, broadcast counter, and for
  every contact its keys, name, address, secret, write counter, session, pending key and the
  whole message history in order.
\<close>

theorem backup_restore_roundtrip:
  assumes "store_wf s" and "account s = Some a" and "a_pointer_broadcast_seq a = Integer seq"
  shows "\<exists>b s'. assemble s = (Ok b, s) \<and> restore_into b (empty_store fk) = (Ok (), s')
    \<and> store_wf s' \<and> fst (assemble s') = Ok b"
proof -
  let ?b = "bundle_of s a seq"
  let ?s' = "after_contacts (bb_contacts ?b) ((empty_store fk)\<lparr>account := Some (restored_account ?b)\<rparr>)"
  note ok = bundle_of_contacts[OF assms(1), of a seq]
  have acc: "account ?s' = Some (restored_account ?b)" by simp
  have "a_pointer_broadcast_seq (restored_account ?b) = Integer (as_i64 (bb_pointer_broadcast_seq ?b))"
    by (simp add: restored_account_def)
  with assemble_ok[OF _ acc] restored_store[OF ok, of fk] have "fst (assemble ?s') = Ok ?b" by simp
  with assemble_ok[OF assms] restore_into_empty[OF ok, of fk] restored_store[OF ok, of fk]
  show ?thesis by blast
qed

theorem backup_restore_roundtrip_witness:
  "\<exists>b s'. assemble (snd (save_account_pickle [7] sample_store)) = (Ok b, snd (save_account_pickle [7] sample_store))
     \<and> restore_into b (empty_store True) = (Ok (), s') \<and> fst (assemble s') = Ok b"
proof -
  let ?s = "snd (save_account_pickle [7] sample_store)"
  have wf: "store_wf ?s" using sample_store_wf by simp
  have acc: "account ?s = Some (empty_account\<lparr>a_pickle := [7]\<rparr>)"
    by (simp add: save_account_pickle_def upsert_account_def sample_store_def upsert_contact_def
        empty_store_def Let_def upsert_def)
  have "a_pointer_broadcast_seq (empty_account\<lparr>a_pickle := [7]\<rparr>) = Integer 0"
    by (simp add: empty_account_def)
  from backup_restore_roundtrip[OF wf acc this, of True] show ?thesis by blast
qed

lemma after_contacts_identities:
  "map c_identity_key (contacts (after_contacts cs s)) = map c_identity_key (contacts s) @ map bc_identity_key cs"
  by (induction cs arbitrary: s) (simp_all add: after_contact_def restored_row_def)

text \<open>
  C35: what a restore forgets. On the restored device the Lamport clock starts again at zero, so
  the next message sent gets the value 1 whatever the restored messages have. The contacts are those
  of the bundle, and the sequence number of the last accepted pointer update of every one of them is
  zero, so any pointer update this contact ever signed is newer than it.
\<close>

theorem restore_forgets_clock_and_pointers:
  assumes "\<forall>c \<in> set (bb_contacts b). bundle_contact_ok c"
    and "distinct (map bc_identity_key (bb_contacts b))"
  shows "\<exists>s'. restore_into b (empty_store fk) = (Ok (), s') \<and> fst (tick_lamport s') = Ok 1
    \<and> map c_identity_key (contacts s') = map bc_identity_key (bb_contacts b)
    \<and> (\<forall>cid c. fst (get_contact cid s') = Ok (Some c) \<longrightarrow> pointer_seq c = 0)"
proof -
  let ?s' = "after_contacts (bb_contacts b) ((empty_store fk)\<lparr>account := Some (restored_account b)\<rparr>)"
  have zero: "\<forall>r \<in> set (contacts (after_contacts cs s)). c_pointer_seq r = 0"
    if "\<forall>r \<in> set (contacts s). c_pointer_seq r = 0" for cs s
    using that
  proof (induction cs arbitrary: s)
    case (Cons c cs)
    have "\<forall>r \<in> set (contacts (after_contact (next_rowid c_id (contacts s)) c s)). c_pointer_seq r = 0"
      using Cons.prems by (simp add: after_contact_def restored_row_def)
    from Cons.IH[OF this] show ?case by simp
  qed simp
  have wf: "store_wf ?s'" using restored_store[OF assms] by blast
  have "pointer_seq c = 0" if "fst (get_contact cid ?s') = Ok (Some c)" for cid c
  proof -
    from that obtain r where r: "lookup_row c_id cid (contacts ?s') = Some r" "c = contact_of r"
      by (auto simp: get_contact_ok[OF wf])
    have "c_pointer_seq r = 0"
      using zero[of "(empty_store fk)\<lparr>account := Some (restored_account b)\<rparr>" "bb_contacts b"]
        lookup_row_SomeD[OF r(1)] by (simp add: empty_store_def)
    then show ?thesis by (simp add: r(2) contact_of_def as_u64_def)
  qed
  moreover have "fst (tick_lamport ?s') = Ok 1"
    by (simp add: tick_lamport_def current_def empty_store_def i64_max_def as_u64_def)
  moreover have "map c_identity_key (contacts ?s') = map bc_identity_key (bb_contacts b)"
    by (simp add: after_contacts_identities empty_store_def)
  ultimately show ?thesis using restore_into_empty[OF assms] by blast
qed

text \<open>A bundle with a contact and a message of Lamport time 9.\<close>

definition sample_bundle :: BackupBundle where
  "sample_bundle = \<lparr>bb_account_pickle = [7], bb_contacts = [\<lparr>bc_identity_key = replicate 32 1,
     bc_curve25519_key = replicate 32 2, bc_display_name = Some ''bob'', bc_server_addr = None,
     bc_pair_secret = Some (replicate 32 3), bc_next_write_n = 4, bc_session_pickle = Some [8],
     bc_pending_otk = None, bc_transport_key = None,
     bc_messages = [\<lparr>sm_msg_id = replicate 16 5, sm_direction = Incoming, sm_lamport = 9, sm_sent_at = 6,
       sm_plaintext = [10], sm_status = None\<rparr>]\<rparr>], bb_own_server_addr = None, bb_pointer_broadcast_seq = 3\<rparr>"

theorem restore_forgets_clock_and_pointers_witness:
  "\<exists>s' k. restore_into sample_bundle (empty_store True) = (Ok (), s') \<and> fst (tick_lamport s') = Ok 1
     \<and> contacts s' = [k] \<and> c_identity_key k = replicate 32 1
     \<and> (\<forall>cid c. fst (get_contact cid s') = Ok (Some c) \<longrightarrow> pointer_seq c = 0)"
proof -
  have ok: "\<forall>c \<in> set (bb_contacts sample_bundle). bundle_contact_ok c"
    "distinct (map bc_identity_key (bb_contacts sample_bundle))"
    by (simp_all add: sample_bundle_def bundle_contact_ok_def)
  have "map bc_identity_key (bb_contacts sample_bundle) = [replicate 32 1]" by (simp add: sample_bundle_def)
  with restore_forgets_clock_and_pointers[OF ok, of True] obtain s' where
    "restore_into sample_bundle (empty_store True) = (Ok (), s')" "fst (tick_lamport s') = Ok 1"
    "map c_identity_key (contacts s') = [replicate 32 1]"
    "\<forall>cid c. fst (get_contact cid s') = Ok (Some c) \<longrightarrow> pointer_seq c = 0"
    by metis
  then show ?thesis by (auto simp: map_eq_Cons_conv)
qed

end
