(* ===== verification/Core_Client.thy ===== *)
theory Core_Client
  imports Core_Backup Node_Handler
begin

text \<open>
  \<^verbatim>\<open>crates/pm-core/src/client.rs\<close>: the client. Its state is what \<^verbatim>\<open>ClientShared\<close>
  holds (identity, store, Olm account, own server address), the background tasks it has spawned
  and not yet run, and the outside world. The world is a parameter: the network, the clock and
  the random number generator change it and read it; with it come the libraries the client calls
  (vodozemac, HKDF, SHA-256, Ed25519, the cipher and the serialisers). One
  operation at a time is the granularity here; a task that is spawned runs later, as an operation
  of its own. What happens while a delivery waits for the network is in \<^verbatim>\<open>Core_Concurrent\<close>.
\<close>

section \<open>Environment and state\<close>

record ('acc, 'ses, 'r, 'addr, 'w) env =
  env_olm :: "('acc, 'ses, 'r) vodozemac"
  env_hkdf :: hkdf_fun
  env_sha256 :: "bytes \<Rightarrow> bytes"
  env_ed :: ed25519
  env_aead :: aead
  env_addr :: "'addr codec"
  env_envelope :: "Envelope codec"
  env_payload :: "PlaintextPayload codec"
  env_bundle :: "BackupBundle codec"
  env_pointer :: "pointer_fields codec"
  env_request :: "NodeRequest codec"
  env_response :: "NodeResponse codec"
  env_ack :: "DirectAck codec"
  env_net :: "('addr, 'w) network"
  env_open_store :: "bytes \<Rightarrow> store \<Rightarrow> (store, StoreError) outcome"
  env_bind :: "bytes \<Rightarrow> ('w, unit, TransportError) action"
  env_public_id :: "bytes \<Rightarrow> bytes"
  env_endpoint_addr :: "bytes \<Rightarrow> string + 'addr"
  env_times_out :: "'addr \<Rightarrow> bytes \<Rightarrow> 'w \<Rightarrow> 'w option"
  env_random :: "nat \<Rightarrow> 'w \<Rightarrow> bytes \<times> 'w"
  env_olm_random :: "'w \<Rightarrow> 'r \<times> 'w"
  env_now :: "'w \<Rightarrow> u64 \<times> 'w"
  env_debug :: "NodeResponse \<Rightarrow> string"
  env_show :: "CoreError \<Rightarrow> string"

datatype task = SendReceipt i64 bytes | BroadcastPointerUpdate

record ('acc, 'addr, 'w) client =
  cl_identity :: Identity
  cl_store :: store
  cl_account :: 'acc
  cl_server_addr :: "'addr option"
  cl_spawned :: "task list"
  cl_world :: 'w

definition SLOT_REPLENISH_BATCH :: nat where
  "SLOT_REPLENISH_BATCH = 8"

section \<open>Steps\<close>

definition store_do ::
  "'a store_action \<Rightarrow> (('acc, 'addr, 'w) client, 'a, CoreError) action" where
  "store_do m c = (let (r, s') = m (cl_store c) in (map_err Store r, c\<lparr>cl_store := s'\<rparr>))"

definition world_do :: "('w \<Rightarrow> 'a \<times> 'w) \<Rightarrow> (('acc, 'addr, 'w) client, 'a, CoreError) action" where
  "world_do f c = (let (a, w') = f (cl_world c) in (Ok a, c\<lparr>cl_world := w'\<rparr>))"

definition call_node ::
  "('acc, 'ses, 'r, 'addr, 'w) env \<Rightarrow> 'addr \<Rightarrow> NodeRequest
    \<Rightarrow> (('acc, 'addr, 'w) client, NodeResponse, CoreError) action" where
  "call_node e addr req c =
     (let (r, w') = call (env_net e) (env_request e) (env_response e) addr req (cl_world c)
      in (map_err TransportErr r, c\<lparr>cl_world := w'\<rparr>))"

definition require :: "CoreError \<Rightarrow> 'a option \<Rightarrow> ('s, 'a, CoreError) action" where
  "require err x = lift_outcome (ok_or err x)"

definition spawn_task :: "task \<Rightarrow> (('acc, 'addr, 'w) client, unit, CoreError) action" where
  "spawn_task t c = (Ok (), c\<lparr>cl_spawned := cl_spawned c @ [t]\<rparr>)"

text \<open>A call whose error is looked at instead of being passed on; a panic still unwinds.\<close>

definition attempt :: "('s, 'a, 'e) action \<Rightarrow> ('s, ('a, 'e) outcome, 'f) action" where
  "attempt m s = (case m s of (Panic, s') \<Rightarrow> (Panic, s') | (r, s') \<Rightarrow> (Ok r, s'))"

definition unexpected_response :: "('acc, 'ses, 'r, 'addr, 'w) env \<Rightarrow> NodeResponse \<Rightarrow> CoreError" where
  "unexpected_response e response =
     (case response of
        RespError msg \<Rightarrow> NodeError msg
      | other \<Rightarrow> NodeError (''unexpected response: '' @ env_debug e other))"

definition expect_ok ::
  "('acc, 'ses, 'r, 'addr, 'w) env \<Rightarrow> NodeResponse \<Rightarrow> (('acc, 'addr, 'w) client, unit, CoreError) action" where
  "expect_ok e response =
     (case response of RespOk \<Rightarrow> pure () | other \<Rightarrow> fail (unexpected_response e other))"

definition client_get_contact :: "i64 \<Rightarrow> (('acc, 'addr, 'w) client, ContactRecord, CoreError) action" where
  "client_get_contact cid =
     and_then (store_do (get_contact cid)) (\<lambda>c. require (UnknownContact cid) c)"

section \<open>Keys and pairing\<close>

definition client_identity_key :: "('acc, 'ses, 'r, 'addr, 'w) env \<Rightarrow> ('acc, 'addr, 'w) client \<Rightarrow> bytes" where
  "client_identity_key e c = ed_public (env_ed e) (signing_key (cl_identity c))"

definition client_curve25519_key :: "('acc, 'ses, 'r, 'addr, 'w) env \<Rightarrow> ('acc, 'addr, 'w) client \<Rightarrow> bytes" where
  "client_curve25519_key e c = acc_key (env_olm e) (cl_account c)"

definition client_mailbox_key :: "('acc, 'addr, 'w) client \<Rightarrow> bytes" where
  "client_mailbox_key c = mailbox_key (cl_identity c)"

definition client_server_transport_key :: "('acc, 'addr, 'w) client \<Rightarrow> bytes" where
  "client_server_transport_key c = server_transport_key (cl_identity c)"

definition generate_one_time_key ::
  "('acc, 'ses, 'r, 'addr, 'w) env \<Rightarrow> (('acc, 'addr, 'w) client, bytes, CoreError) action" where
  "generate_one_time_key e =
     and_then (world_do (env_olm_random e)) (\<lambda>r c.
       let (keys, acc') = generate_one_time_keys (env_olm e) 1 r (cl_account c);
           c' = c\<lparr>cl_account := acc'\<rparr>
       in and_then (lift_outcome (map_err Crypto (account_pickle (env_olm e) acc'))) (\<lambda>pickle.
          and_then (store_do (save_account_pickle pickle)) (\<lambda>_.
            lift_outcome (case keys of [] \<Rightarrow> Panic | k # ks \<Rightarrow> Ok k))) c')"

definition client_register_slot ::
  "('acc, 'ses, 'r, 'addr, 'w) env \<Rightarrow> 'addr \<Rightarrow> bytes \<Rightarrow> (('acc, 'addr, 'w) client, unit, CoreError) action" where
  "client_register_slot e node_addr slot_hash c =
     and_then (call_node e node_addr (RegisterSlot (mailbox_key (cl_identity c)) slot_hash)) (expect_ok e) c"

definition register_slots ::
  "('acc, 'ses, 'r, 'addr, 'w) env \<Rightarrow> 'addr \<Rightarrow> bytes \<Rightarrow> (('acc, 'addr, 'w) client, unit, CoreError) action" where
  "register_slots e my_addr secret =
     for_each (\<lambda>n. and_then (lift_outcome (map_err Proto (derive_auth (env_hkdf e) secret (word_of_nat n))))
                     (\<lambda>auth. client_register_slot e my_addr (env_sha256 e auth)))
       [0..<SLOT_REPLENISH_BATCH]"

definition add_contact ::
  "('acc, 'ses, 'r, 'addr, 'w) env \<Rightarrow> bytes \<Rightarrow> bytes \<Rightarrow> bytes \<Rightarrow> bytes \<Rightarrow> string option \<Rightarrow> 'addr option \<Rightarrow> bytes
    \<Rightarrow> (('acc, 'addr, 'w) client, i64, CoreError) action" where
  "add_contact e their_ik their_ck their_otk their_tk name their_addr secret =
     and_then (store_do (upsert_contact their_ik their_ck name)) (\<lambda>cid.
     and_then (store_do (set_contact_pair_secret cid secret)) (\<lambda>_.
     and_then (store_do (set_contact_transport_key cid their_tk)) (\<lambda>_.
     and_then (when_some their_addr (\<lambda>addr.
         and_then (lift_outcome (or_err CorruptBackup (enc (env_addr e) addr))) (\<lambda>bs.
           store_do (set_contact_server_addr cid (Some bs))))) (\<lambda>_.
     and_then (store_do (set_contact_pending_otk cid (Some their_otk))) (\<lambda>_.
     and_then (\<lambda>c. when_some (cl_server_addr c) (\<lambda>my_addr. register_slots e my_addr secret) c) (\<lambda>_.
       pure cid))))))"

definition pairing_payload ::
  "('acc, 'ses, 'r, 'addr, 'w) env \<Rightarrow> (('acc, 'addr, 'w) client, PairingPayload, CoreError) action" where
  "pairing_payload e =
     and_then (generate_one_time_key e) (\<lambda>otk.
     and_then (world_do (env_random e 32)) (\<lambda>nonce.
     and_then (\<lambda>c. (case cl_server_addr c of
          None \<Rightarrow> (Ok None, c)
        | Some addr \<Rightarrow> (map_ok Some (or_err CorruptBackup (enc (env_addr e) addr)), c))) (\<lambda>addr c.
       (Ok \<lparr>pp_identity_key = client_identity_key e c, pp_curve25519_key = client_curve25519_key e c,
            pp_transport_key = env_public_id e (transport_key (cl_identity c)),
            pp_one_time_key = otk, pp_nonce = nonce, pp_server_addr = addr\<rparr>, c))))"

definition add_contact_from_payload ::
  "('acc, 'ses, 'r, 'addr, 'w) env \<Rightarrow> PairingPayload \<Rightarrow> bytes \<Rightarrow> string option
    \<Rightarrow> (('acc, 'addr, 'w) client, i64, CoreError) action" where
  "add_contact_from_payload e their my_nonce name =
     and_then (lift_outcome (map_err Proto (compute_pair_secret (env_hkdf e) my_nonce (pp_nonce their)))) (\<lambda>secret.
     and_then (lift_outcome (case pp_server_addr their of
          None \<Rightarrow> Ok None
        | Some bs \<Rightarrow> map_ok Some (or_err CorruptBackup (dec (env_addr e) bs)))) (\<lambda>their_addr.
       add_contact e (pp_identity_key their) (pp_curve25519_key their) (pp_one_time_key their)
         (pp_transport_key their) name their_addr secret))"

section \<open>Delivery\<close>

definition open_session ::
  "('acc, 'ses, 'r, 'addr, 'w) env \<Rightarrow> i64 \<Rightarrow> ContactRecord \<Rightarrow> (('acc, 'addr, 'w) client, 'ses, CoreError) action" where
  "open_session e cid contact =
     and_then (store_do (load_session_pickle cid)) (\<lambda>maybe_pickle.
       case maybe_pickle of
         Some pickle \<Rightarrow> lift_outcome (map_err Crypto (session_from_pickle (env_olm e) pickle))
       | None \<Rightarrow>
           and_then (require NoSessionAvailable (pending_otk contact)) (\<lambda>their_otk.
           and_then (world_do (env_olm_random e)) (\<lambda>r.
           and_then (\<lambda>c. (map_err Crypto (create_outbound_session (env_olm e) r
                 (curve25519_key contact) their_otk (cl_account c)), c)) (\<lambda>ses.
           and_then (store_do (set_contact_pending_otk cid None)) (\<lambda>_. pure ses)))))"

definition encrypt_payload ::
  "('acc, 'ses, 'r, 'addr, 'w) env \<Rightarrow> PlaintextPayload \<Rightarrow> 'ses
    \<Rightarrow> (('acc, 'addr, 'w) client, 'ses \<times> byte \<times> bytes, CoreError) action" where
  "encrypt_payload e payload ses =
     and_then (lift_outcome (payload_serialize (env_payload e) payload)) (\<lambda>plaintext_bytes.
     and_then (world_do (env_olm_random e)) (\<lambda>r.
       lift_outcome (case session_encrypt (env_olm e) r plaintext_bytes ses of
           (Ok (otype, ct), ses') \<Rightarrow> Ok (ses', otype, ct)
         | (Err err, ses') \<Rightarrow> Err (Crypto err)
         | (Panic, ses') \<Rightarrow> Panic)))"

definition try_direct ::
  "('acc, 'ses, 'r, 'addr, 'w) env \<Rightarrow> 'addr \<Rightarrow> bytes \<Rightarrow> (('acc, 'addr, 'w) client, unit, CoreError) action" where
  "try_direct e peer_addr envelope_bytes c =
     (case env_times_out e peer_addr envelope_bytes (cl_world c) of
        Some w' \<Rightarrow> (Err DirectDeliveryTimedOut, c\<lparr>cl_world := w'\<rparr>)
      | None \<Rightarrow>
          let (r, w') = call_direct (env_net e) (env_ack e) peer_addr envelope_bytes (cl_world c)
          in (map_err TransportErr r, c\<lparr>cl_world := w'\<rparr>))"

definition schedule_retry ::
  "('acc, 'ses, 'r, 'addr, 'w) env \<Rightarrow> 'addr \<Rightarrow> bytes \<Rightarrow> bytes \<Rightarrow> bytes
    \<Rightarrow> (('acc, 'addr, 'w) client, unit, CoreError) action" where
  "schedule_retry e my_addr msg_id recipient envelope c =
     and_then (call_node e my_addr (ScheduleRetry (mailbox_key (cl_identity c)) msg_id recipient envelope))
       (expect_ok e) c"

definition envelope_bytes_of ::
  "('acc, 'ses, 'r, 'addr, 'w) env \<Rightarrow> byte \<Rightarrow> bytes \<Rightarrow> u64 \<Rightarrow> u64 \<Rightarrow> u64 \<Rightarrow> bytes
    \<Rightarrow> (('acc, 'addr, 'w) client, bytes, CoreError) action" where
  "envelope_bytes_of e otype ct n lamport sent_at msg_id =
     lift_outcome (map_err Proto
       (to_padded_bytes (env_envelope e) (Envelope_new otype ct n lamport sent_at msg_id)))"

definition deliver_to_server ::
  "('acc, 'ses, 'r, 'addr, 'w) env \<Rightarrow> i64 \<Rightarrow> ContactRecord \<Rightarrow> bytes \<Rightarrow> byte \<Rightarrow> bytes \<Rightarrow> u64 \<Rightarrow> u64 \<Rightarrow> bytes
    \<Rightarrow> (('acc, 'addr, 'w) client, MessageStatus, CoreError) action" where
  "deliver_to_server e cid contact addr_bytes otype ct lamport sent_at msg_id =
     and_then (lift_outcome (or_err CorruptBackup (dec (env_addr e) addr_bytes))) (\<lambda>addr.
     and_then (require NoRouteToContact (pair_secret contact)) (\<lambda>secret.
     and_then (store_do (increment_and_get_next_write_n cid)) (\<lambda>n.
     and_then (lift_outcome (map_err Proto (derive_auth (env_hkdf e) secret n))) (\<lambda>auth.
     and_then (envelope_bytes_of e otype ct n lamport sent_at msg_id) (\<lambda>blob.
     and_then (call_node e addr (Write auth blob)) (\<lambda>response.
     and_then (expect_ok e response) (\<lambda>_. pure Sent)))))))"

definition deliver_direct ::
  "('acc, 'ses, 'r, 'addr, 'w) env \<Rightarrow> ContactRecord \<Rightarrow> byte \<Rightarrow> bytes \<Rightarrow> u64 \<Rightarrow> u64 \<Rightarrow> bytes
    \<Rightarrow> (('acc, 'addr, 'w) client, MessageStatus, CoreError) action" where
  "deliver_direct e contact otype ct lamport sent_at msg_id =
     and_then (require NoRouteToContact (contact_transport_key contact)) (\<lambda>tk.
     and_then (lift_outcome (or_err CorruptBackup (env_endpoint_addr e tk))) (\<lambda>peer.
     and_then (envelope_bytes_of e otype ct 0 lamport sent_at msg_id) (\<lambda>blob.
     and_then (attempt (try_direct e peer blob)) (\<lambda>result.
       case result of
         Err direct_err \<Rightarrow> (\<lambda>c.
           case cl_server_addr c of
             None \<Rightarrow> (Err direct_err, c)
           | Some my_addr \<Rightarrow>
               and_then (attempt (schedule_retry e my_addr msg_id tk blob)) (\<lambda>queued.
                 if is_ok queued then pure Sent else fail direct_err) c)
       | _ \<Rightarrow> pure Delivered))))"

definition save_session ::
  "('acc, 'ses, 'r, 'addr, 'w) env \<Rightarrow> i64 \<Rightarrow> 'ses \<Rightarrow> (('acc, 'addr, 'w) client, unit, CoreError) action" where
  "save_session e cid ses =
     and_then (lift_outcome (map_err Crypto (session_pickle (env_olm e) ses))) (\<lambda>p.
       store_do (save_session_pickle cid p))"

definition deliver_in_session ::
  "('acc, 'ses, 'r, 'addr, 'w) env \<Rightarrow> i64 \<Rightarrow> ContactRecord \<Rightarrow> PlaintextPayload \<Rightarrow> 'ses
    \<Rightarrow> (('acc, 'addr, 'w) client, bytes \<times> u64 \<times> u64 \<times> MessageStatus, CoreError) action" where
  "deliver_in_session e cid contact payload ses =
     and_then (encrypt_payload e payload ses) (\<lambda>(ses', otype, ct).
     and_then (world_do (env_random e 16)) (\<lambda>msg_id.
     and_then (world_do (env_now e)) (\<lambda>sent_at.
     and_then (store_do tick_lamport) (\<lambda>lamport.
     and_then (case server_addr contact of
          Some addr_bytes \<Rightarrow> deliver_to_server e cid contact addr_bytes otype ct lamport sent_at msg_id
        | None \<Rightarrow> deliver_direct e contact otype ct lamport sent_at msg_id) (\<lambda>status.
     and_then (save_session e cid ses') (\<lambda>_.
       pure (msg_id, lamport, sent_at, status)))))))"

definition deliver ::
  "('acc, 'ses, 'r, 'addr, 'w) env \<Rightarrow> i64 \<Rightarrow> PlaintextPayload
    \<Rightarrow> (('acc, 'addr, 'w) client, bytes \<times> u64 \<times> u64 \<times> MessageStatus, CoreError) action" where
  "deliver e cid payload =
     and_then (client_get_contact cid) (\<lambda>contact.
     and_then (open_session e cid contact) (\<lambda>ses.
       deliver_in_session e cid contact payload ses))"

definition send ::
  "('acc, 'ses, 'r, 'addr, 'w) env \<Rightarrow> i64 \<Rightarrow> bytes \<Rightarrow> (('acc, 'addr, 'w) client, unit, CoreError) action" where
  "send e cid plaintext =
     and_then (deliver e cid (Chat plaintext)) (\<lambda>(msg_id, lamport, sent_at, status).
       store_do (insert_message cid
         \<lparr>nm_msg_id = msg_id, nm_direction = Outgoing, nm_lamport = lamport, nm_sent_at = sent_at,
          nm_plaintext = plaintext, nm_status = Some status\<rparr>))"

definition send_receipt ::
  "('acc, 'ses, 'r, 'addr, 'w) env \<Rightarrow> i64 \<Rightarrow> bytes \<Rightarrow> (('acc, 'addr, 'w) client, unit, CoreError) action" where
  "send_receipt e cid for_msg_id =
     and_then (attempt (deliver e cid (Receipt for_msg_id))) (\<lambda>_. pure ())"

definition broadcast_pointer_update ::
  "('acc, 'ses, 'r, 'addr, 'w) env \<Rightarrow> (('acc, 'addr, 'w) client, unit, CoreError) action" where
  "broadcast_pointer_update e =
     and_then (\<lambda>c. (case cl_server_addr c of
          None \<Rightarrow> (Ok None, c)
        | Some addr \<Rightarrow> (case enc (env_addr e) addr of Inl err \<Rightarrow> (Panic, c) | Inr bs \<Rightarrow> (Ok (Some bs), c)))) (\<lambda>addr.
     and_then (world_do (env_now e)) (\<lambda>updated_at.
     and_then (attempt (store_do increment_and_get_pointer_broadcast_seq)) (\<lambda>maybe_seq.
       case maybe_seq of
         Ok seq \<Rightarrow>
           and_then (\<lambda>c. (sign_pointer_update (env_ed e) (env_pointer e) (signing_key (cl_identity c))
                addr updated_at seq, c)) (\<lambda>sig.
           and_then (attempt (store_do list_contacts)) (\<lambda>maybe_contacts.
             case maybe_contacts of
               Ok cs \<Rightarrow> for_each (\<lambda>contact.
                 and_then (attempt (deliver e (cr_id contact) (MailboxPointerUpdate addr updated_at seq sig)))
                   (\<lambda>_. pure ())) cs
             | _ \<Rightarrow> pure ()))
       | _ \<Rightarrow> pure ())))"

section \<open>Receiving\<close>

datatype Attribution = AttrChat | AttrReceipt | AttrPointerUpdate | Unattributed

definition handle_decrypted ::
  "('acc, 'ses, 'r, 'addr, 'w) env \<Rightarrow> i64 \<Rightarrow> Envelope \<Rightarrow> bytes
    \<Rightarrow> (('acc, 'addr, 'w) client, Attribution, CoreError) action" where
  "handle_decrypted e cid envelope plaintext =
     (case payload_deserialize (env_payload e) plaintext of
        Some (Chat text) \<Rightarrow>
          and_then (store_do (observe_lamport (env_lamport envelope))) (\<lambda>lamport.
          and_then (store_do (insert_message cid
              \<lparr>nm_msg_id = env_msg_id envelope, nm_direction = Incoming, nm_lamport = lamport,
               nm_sent_at = env_sent_at envelope, nm_plaintext = text, nm_status = None\<rparr>)) (\<lambda>_.
          and_then (spawn_task (SendReceipt cid (env_msg_id envelope))) (\<lambda>_. pure AttrChat)))
      | Some (Receipt msg_id) \<Rightarrow>
          and_then (store_do (set_message_status cid msg_id MessageStatus.Delivered)) (\<lambda>_. pure AttrReceipt)
      | Some (MailboxPointerUpdate addr updated_at seq signature) \<Rightarrow>
          and_then (client_get_contact cid) (\<lambda>contact.
          and_then (lift_outcome (pointer_update_is_valid (env_ed e) (env_pointer e)
              (identity_key contact) (pointer_seq contact) addr updated_at seq signature)) (\<lambda>valid.
          and_then (if valid then store_do (set_contact_pointer_update cid addr updated_at seq)
                    else pure ()) (\<lambda>_. pure AttrPointerUpdate)))
      | None \<Rightarrow> pure Unattributed)"

text \<open>
  One contact of the loop of \<^verbatim>\<open>attribute_and_store\<close>: \<open>None\<close> when the envelope is not
  theirs. With a session the envelope is decrypted in it; without, it may be the first message of
  one. \<^verbatim>\<open>accept_incoming\<close> changes the account only when it succeeds.
\<close>

definition try_session ::
  "('acc, 'ses, 'r, 'addr, 'w) env \<Rightarrow> Envelope \<Rightarrow> i64 \<Rightarrow> 'ses
    \<Rightarrow> (('acc, 'addr, 'w) client, Attribution option, CoreError) action" where
  "try_session e envelope cid ses =
     (case session_decrypt (env_olm e) (olm_type envelope) (ciphertext envelope) ses of
        (Ok plaintext, ses') \<Rightarrow>
          and_then (save_session e cid ses') (\<lambda>_.
          and_then (handle_decrypted e cid envelope plaintext) (\<lambda>a. pure (Some a)))
      | (Err err, ses') \<Rightarrow> pure None
      | (Panic, ses') \<Rightarrow> lift_outcome Panic)"

definition try_first_message ::
  "('acc, 'ses, 'r, 'addr, 'w) env \<Rightarrow> Envelope \<Rightarrow> ContactRecord
    \<Rightarrow> (('acc, 'addr, 'w) client, Attribution option, CoreError) action" where
  "try_first_message e envelope contact c =
     (case accept_incoming (env_olm e) (curve25519_key contact) (olm_type envelope)
             (ciphertext envelope) (cl_account c) of
        (Ok (ses, plaintext), acc') \<Rightarrow>
          and_then (lift_outcome (map_err Crypto (account_pickle (env_olm e) acc'))) (\<lambda>pickle.
          and_then (store_do (save_account_pickle pickle)) (\<lambda>_.
          and_then (save_session e (cr_id contact) ses) (\<lambda>_.
          and_then (handle_decrypted e (cr_id contact) envelope plaintext) (\<lambda>a. pure (Some a)))))
            (c\<lparr>cl_account := acc'\<rparr>)
      | (Err err, acc') \<Rightarrow> (Ok None, c\<lparr>cl_account := acc'\<rparr>)
      | (Panic, acc') \<Rightarrow> (Panic, c\<lparr>cl_account := acc'\<rparr>))"

definition try_contact ::
  "('acc, 'ses, 'r, 'addr, 'w) env \<Rightarrow> Envelope \<Rightarrow> ContactRecord
    \<Rightarrow> (('acc, 'addr, 'w) client, Attribution option, CoreError) action" where
  "try_contact e envelope contact =
     and_then (store_do (load_session_pickle (cr_id contact))) (\<lambda>maybe_pickle.
       case maybe_pickle of
         Some pickle \<Rightarrow>
           and_then (lift_outcome (map_err Crypto (session_from_pickle (env_olm e) pickle)))
             (try_session e envelope (cr_id contact))
       | None \<Rightarrow> try_first_message e envelope contact)"

fun attribute_among ::
  "('acc, 'ses, 'r, 'addr, 'w) env \<Rightarrow> Envelope \<Rightarrow> ContactRecord list
    \<Rightarrow> (('acc, 'addr, 'w) client, Attribution, CoreError) action" where
  "attribute_among e envelope [] = pure Unattributed"
| "attribute_among e envelope (contact # rest) =
     and_then (try_contact e envelope contact) (\<lambda>r.
       case r of Some a \<Rightarrow> pure a | None \<Rightarrow> attribute_among e envelope rest)"

definition attribute_and_store ::
  "('acc, 'ses, 'r, 'addr, 'w) env \<Rightarrow> Envelope
    \<Rightarrow> (('acc, 'addr, 'w) client, Attribution, CoreError) action" where
  "attribute_and_store e envelope =
     and_then (store_do list_contacts) (\<lambda>contacts. attribute_among e envelope contacts)"

text \<open>
  The loop over the new blobs: how many were chat messages, the largest id seen, and the ids to
  acknowledge.
\<close>

fun process_blobs ::
  "('acc, 'ses, 'r, 'addr, 'w) env \<Rightarrow> StoredBlob list \<Rightarrow> nat \<times> u64 \<times> u64 list
    \<Rightarrow> (('acc, 'addr, 'w) client, nat \<times> u64 \<times> u64 list, CoreError) action" where
  "process_blobs e [] acc = pure acc"
| "process_blobs e (blob # rest) (processed, max_id_seen, acked_ids) =
     (let max_id = max max_id_seen (blob_id blob) in
      case from_padded_bytes (env_envelope e) (blob_data blob) of
        Ok envelope \<Rightarrow>
          and_then (attribute_and_store e envelope) (\<lambda>a.
            process_blobs e rest
              ((if a = AttrChat then processed + 1 else processed), max_id, acked_ids @ [blob_id blob]))
      | Err _ \<Rightarrow> process_blobs e rest (processed, max_id, acked_ids)
      | Panic \<Rightarrow> lift_outcome Panic)"

definition own_addr :: "(('acc, 'addr, 'w) client, 'addr, CoreError) action" where
  "own_addr c = (case cl_server_addr c of None \<Rightarrow> (Panic, c) | Some a \<Rightarrow> (Ok a, c))"

definition ack_blobs ::
  "('acc, 'ses, 'r, 'addr, 'w) env \<Rightarrow> u64 list \<Rightarrow> (('acc, 'addr, 'w) client, unit, CoreError) action" where
  "ack_blobs e acked_ids =
     (if acked_ids = [] then pure () else
        and_then own_addr (\<lambda>addr c.
          and_then (call_node e addr (Ack (mailbox_key (cl_identity c)) acked_ids)) (expect_ok e) c))"

definition poll_failed ::
  "('acc, 'ses, 'r, 'addr, 'w) env \<Rightarrow> (('acc, 'addr, 'w) client, unit, CoreError) action" where
  "poll_failed e =
     and_then own_addr (\<lambda>addr.
     and_then (\<lambda>c. call_node e addr (PollFailedDeliveries (mailbox_key (cl_identity c))) c) (\<lambda>failed.
     and_then (case failed of FailedDeliveries ids \<Rightarrow> pure ids | other \<Rightarrow> fail (unexpected_response e other)) (\<lambda>ids.
       for_each (\<lambda>mid. store_do (set_message_status_by_msg_id mid MessageStatus.Failed)) ids)))"

definition sync ::
  "('acc, 'ses, 'r, 'addr, 'w) env \<Rightarrow> (('acc, 'addr, 'w) client, nat, CoreError) action" where
  "sync e =
     and_then (\<lambda>c. require NoOwnServer (cl_server_addr c) c) (\<lambda>my_addr.
     and_then (\<lambda>c. call_node e my_addr (Fetch (mailbox_key (cl_identity c))) c) (\<lambda>response.
     and_then (case response of Blobs bs \<Rightarrow> pure bs | other \<Rightarrow> fail (unexpected_response e other)) (\<lambda>blobs.
     and_then (store_do get_last_synced_blob_id) (\<lambda>watermark.
     and_then (process_blobs e (sort_key blob_id (filter (\<lambda>b. watermark < blob_id b) blobs)) (0, watermark, []))
       (\<lambda>(processed, max_id_seen, acked_ids).
     and_then (ack_blobs e acked_ids) (\<lambda>_.
     and_then (store_do (set_last_synced_blob_id max_id_seen)) (\<lambda>_.
     and_then (poll_failed e) (\<lambda>_. pure processed))))))))"

text \<open>
  Direct deliveries: the acknowledgement of one envelope, and the bytes a connection is answered
  with. The handler holds a weak reference to the client, gone once the client has been dropped.
\<close>

definition direct_ack ::
  "('acc, 'ses, 'r, 'addr, 'w) env \<Rightarrow> bytes \<Rightarrow> (('acc, 'addr, 'w) client, DirectAck, AcceptError) action" where
  "direct_ack e envelope_bytes =
     (case from_padded_bytes (env_envelope e) envelope_bytes of
        Err err \<Rightarrow> pure (AckError (''malformed envelope: '' @ env_show e (Proto err)))
      | Panic \<Rightarrow> lift_outcome Panic
      | Ok envelope \<Rightarrow>
          and_then (attempt (attribute_and_store e envelope)) (\<lambda>r.
            pure (case r of
                Ok Unattributed \<Rightarrow> AckError ''could not attribute this message to any known contact''
              | Ok a \<Rightarrow> AckOk
              | Err err \<Rightarrow> AckError (env_show e err)
              | Panic \<Rightarrow> AckError [])))"

definition direct_accept ::
  "('acc, 'ses, 'r, 'addr, 'w) env \<Rightarrow> bytes \<Rightarrow> (('acc, 'addr, 'w) client option, bytes, AcceptError) action" where
  "direct_accept e envelope_bytes =
     (if length envelope_bytes > MAX_MESSAGE_SIZE then fail TooLong
      else
        and_then (\<lambda>shared. case shared of
            None \<Rightarrow> (Ok (AckError ''this device is no longer reachable''), None)
          | Some c \<Rightarrow> (let (r, c') = direct_ack e envelope_bytes c in (r, Some c'))) (\<lambda>ack.
          lift_outcome (case enc (env_ack e) ack of Inl err \<Rightarrow> Panic | Inr bs \<Rightarrow> Ok bs)))"

section \<open>Own server, background tasks\<close>

definition client_set_own_server_addr ::
  "('acc, 'ses, 'r, 'addr, 'w) env \<Rightarrow> 'addr \<Rightarrow> (('acc, 'addr, 'w) client, unit, CoreError) action" where
  "client_set_own_server_addr e addr =
     and_then (lift_outcome (or_err CorruptBackup (enc (env_addr e) addr))) (\<lambda>bs.
     and_then (store_do (set_own_server_addr (Some bs))) (\<lambda>_.
     and_then (\<lambda>c. (Ok (), c\<lparr>cl_server_addr := Some addr\<rparr>)) (\<lambda>_.
       spawn_task BroadcastPointerUpdate)))"

definition clear_own_server_addr :: "(('acc, 'addr, 'w) client, unit, CoreError) action" where
  "clear_own_server_addr =
     and_then (store_do (set_own_server_addr None)) (\<lambda>_.
     and_then (\<lambda>c. (Ok (), c\<lparr>cl_server_addr := None\<rparr>)) (\<lambda>_.
       spawn_task BroadcastPointerUpdate))"

fun run_task ::
  "('acc, 'ses, 'r, 'addr, 'w) env \<Rightarrow> task \<Rightarrow> (('acc, 'addr, 'w) client, unit, CoreError) action" where
  "run_task e (SendReceipt cid mid) = send_receipt e cid mid"
| "run_task e BroadcastPointerUpdate = broadcast_pointer_update e"

section \<open>Backups\<close>

definition encrypted_bundle ::
  "('acc, 'ses, 'r, 'addr, 'w) env \<Rightarrow> (('acc, 'addr, 'w) client, bytes, CoreError) action" where
  "encrypted_bundle e =
     and_then (\<lambda>c. (let (r, s') = assemble (cl_store c) in (r, c\<lparr>cl_store := s'\<rparr>))) (\<lambda>bundle.
     and_then (lift_outcome (bundle_serialize (env_bundle e) bundle)) (\<lambda>plaintext.
     and_then (world_do (env_random e NONCE_LEN)) (\<lambda>nonce c.
       (map_err Crypto (encrypt_backup (env_aead e) (backup_key (cl_identity c)) nonce plaintext), c))))"

definition export_backup ::
  "('acc, 'ses, 'r, 'addr, 'w) env \<Rightarrow> (('acc, 'addr, 'w) client, bytes, CoreError) action" where
  "export_backup e = encrypted_bundle e"

definition push_backup ::
  "('acc, 'ses, 'r, 'addr, 'w) env \<Rightarrow> (('acc, 'addr, 'w) client, unit, CoreError) action" where
  "push_backup e =
     and_then (\<lambda>c. require NoOwnServer (cl_server_addr c) c) (\<lambda>my_addr.
     and_then (encrypted_bundle e) (\<lambda>blob.
     and_then (\<lambda>c. call_node e my_addr (PutBackup (mailbox_key (cl_identity c)) blob) c) (expect_ok e)))"

section \<open>Opening a client\<close>

text \<open>
  The constructors work on the database file and the world. \<^verbatim>\<open>Store::open\<close> with the mailbox key
  gives the (migrated) contents of the file, which the later steps change, or an error of SQLCipher,
  for example when the file was made with another key.
\<close>

definition disk_do :: "'a store_action \<Rightarrow> (store \<times> 'w, 'a, CoreError) action" where
  "disk_do m d = (let (r, s') = m (fst d) in (map_err Store r, (s', snd d)))"

definition open_store ::
  "('acc, 'ses, 'r, 'addr, 'w) env \<Rightarrow> Identity \<Rightarrow> (store \<times> 'w, unit, CoreError) action" where
  "open_store e identity d =
     (case env_open_store e (mailbox_key identity) (fst d) of
        Ok s \<Rightarrow> (Ok (), (s, snd d))
      | Err err \<Rightarrow> (Err (Store err), d)
      | Panic \<Rightarrow> (Panic, d))"

definition bind_endpoint ::
  "('acc, 'ses, 'r, 'addr, 'w) env \<Rightarrow> bytes \<Rightarrow> (store \<times> 'w, unit, CoreError) action" where
  "bind_endpoint e key d = (let (r, w') = env_bind e key (snd d) in (map_err TransportErr r, (fst d, w')))"

definition load_own_server_addr ::
  "('acc, 'ses, 'r, 'addr, 'w) env \<Rightarrow> (store \<times> 'w, 'addr option, CoreError) action" where
  "load_own_server_addr e =
     and_then (disk_do get_own_server_addr) (\<lambda>bs.
       lift_outcome (case bs of
           None \<Rightarrow> Ok None
         | Some b \<Rightarrow> map_ok Some (or_err CorruptBackup (dec (env_addr e) b))))"

definition from_parts ::
  "Identity \<Rightarrow> 'acc \<Rightarrow> 'addr option \<Rightarrow> (store \<times> 'w, ('acc, 'addr, 'w) client, CoreError) action" where
  "from_parts identity acc addr d =
     (Ok \<lparr>cl_identity = identity, cl_store = fst d, cl_account = acc, cl_server_addr = addr,
          cl_spawned = [], cl_world = snd d\<rparr>, d)"

definition client_open ::
  "('acc, 'ses, 'r, 'addr, 'w) env \<Rightarrow> bytes \<Rightarrow> (store \<times> 'w, ('acc, 'addr, 'w) client, CoreError) action" where
  "client_open e seed =
     and_then (lift_outcome (map_err Crypto (Identity_derive (env_hkdf e) seed))) (\<lambda>identity.
     and_then (open_store e identity) (\<lambda>_.
     and_then (disk_do load_account_pickle) (\<lambda>maybe_pickle.
     and_then (case maybe_pickle of
          Some bs \<Rightarrow> lift_outcome (map_err Crypto (account_from_pickle (env_olm e) bs))
        | None \<Rightarrow>
            and_then (\<lambda>d. (let (r, w') = env_olm_random e (snd d) in (Ok (acc_new (env_olm e) r), (fst d, w')))) (\<lambda>fresh.
            and_then (lift_outcome (map_err Crypto (account_pickle (env_olm e) fresh))) (\<lambda>p.
            and_then (disk_do (save_account_pickle p)) (\<lambda>_. pure fresh)))) (\<lambda>acc.
     and_then (load_own_server_addr e) (\<lambda>addr.
     and_then (bind_endpoint e (transport_key identity)) (\<lambda>_.
       from_parts identity acc addr))))))"

definition restore_bundle ::
  "('acc, 'ses, 'r, 'addr, 'w) env \<Rightarrow> BackupBundle \<Rightarrow> (store \<times> 'w, unit, CoreError) action" where
  "restore_bundle e bundle d = (let (r, s') = restore_into bundle (fst d) in (r, (s', snd d)))"

definition import_backup ::
  "('acc, 'ses, 'r, 'addr, 'w) env \<Rightarrow> bytes \<Rightarrow> bytes
    \<Rightarrow> (store \<times> 'w, ('acc, 'addr, 'w) client, CoreError) action" where
  "import_backup e seed backup_bytes =
     and_then (lift_outcome (map_err Crypto (Identity_derive (env_hkdf e) seed))) (\<lambda>identity.
     and_then (lift_outcome (map_err Crypto (decrypt_backup (env_aead e) (backup_key identity) backup_bytes))) (\<lambda>plaintext.
     and_then (lift_outcome (bundle_deserialize (env_bundle e) plaintext)) (\<lambda>bundle.
     and_then (open_store e identity) (\<lambda>_.
     and_then (restore_bundle e bundle) (\<lambda>_.
     and_then (lift_outcome (map_err Crypto (account_from_pickle (env_olm e) (bb_account_pickle bundle)))) (\<lambda>acc.
     and_then (load_own_server_addr e) (\<lambda>addr.
     and_then (bind_endpoint e (transport_key identity)) (\<lambda>_.
       from_parts identity acc addr))))))))"

definition restore ::
  "('acc, 'ses, 'r, 'addr, 'w) env \<Rightarrow> bytes \<Rightarrow> 'addr
    \<Rightarrow> (store \<times> 'w, ('acc, 'addr, 'w) client, CoreError) action" where
  "restore e seed addr =
     and_then (lift_outcome (map_err Crypto (Identity_derive (env_hkdf e) seed))) (\<lambda>identity.
     and_then (bind_endpoint e (transport_key identity)) (\<lambda>_.
     and_then (\<lambda>d. (let (r, w') = call (env_net e) (env_request e) (env_response e) addr
            (GetBackup (mailbox_key identity)) (snd d) in (map_err TransportErr r, (fst d, w')))) (\<lambda>response.
     and_then (case response of Backup b \<Rightarrow> pure b | other \<Rightarrow> fail (unexpected_response e other)) (\<lambda>maybe_blob.
     and_then (require NoBackupFound maybe_blob) (\<lambda>blob.
     and_then (lift_outcome (map_err Crypto (decrypt_backup (env_aead e) (backup_key identity) blob))) (\<lambda>plaintext.
     and_then (lift_outcome (bundle_deserialize (env_bundle e) plaintext)) (\<lambda>bundle.
     and_then (open_store e identity) (\<lambda>_.
     and_then (restore_bundle e bundle) (\<lambda>_.
     and_then (lift_outcome (or_err CorruptBackup (enc (env_addr e) addr))) (\<lambda>bs.
     and_then (disk_do (set_own_server_addr (Some bs))) (\<lambda>_.
     and_then (lift_outcome (map_err Crypto (account_from_pickle (env_olm e) (bb_account_pickle bundle)))) (\<lambda>acc.
       from_parts identity acc (Some addr)))))))))))))"

section \<open>A concrete environment\<close>

text \<open>
  A closed instance of every parameter but the network, for running the definitions: an Olm that
  does not encrypt, serialisers for the messages the examples use, constant randomness and clock.
\<close>

definition sample_olm :: "(unit, unit, unit) vodozemac" where
  "sample_olm = \<lparr>acc_new = \<lambda>_. (), acc_key = \<lambda>_. replicate 32 3, acc_generate_otks = \<lambda>_ _ _. (),
     acc_otks = \<lambda>_. [replicate 32 6], acc_outbound = \<lambda>_ _ _ _. Inr (), acc_inbound = \<lambda>_ m _. Inr ((), (), m),
     olm_parse = \<lambda>n ct. Inr (if n = 0 then PreKey ct else Normal ct),
     ses_encrypt = \<lambda>_ p _. Inr ((), 1, p), ses_decrypt = \<lambda>m _. (case m of PreKey p \<Rightarrow> Inr ((), p) | Normal p \<Rightarrow> Inr ((), p)),
     acc_json = \<lparr>enc = \<lambda>_. Inr [], dec = \<lambda>_. Inr ()\<rparr>, ses_json = \<lparr>enc = \<lambda>_. Inr [], dec = \<lambda>_. Inr ()\<rparr>\<rparr>"

definition sample_payload_codec :: "PlaintextPayload codec" where
  "sample_payload_codec =
     \<lparr>enc = \<lambda>p. (case p of
          Chat t \<Rightarrow> Inr (0 # t) | Receipt m \<Rightarrow> Inr (1 # m) | MailboxPointerUpdate a u n g \<Rightarrow> Inr [2]),
      dec = \<lambda>bs. (case bs of [] \<Rightarrow> Inl [] | b # t \<Rightarrow>
          if b = 0 then Inr (Chat t) else if b = 1 then Inr (Receipt t)
          else Inr (MailboxPointerUpdate None 0 7 (replicate 64 1)))\<rparr>"

definition sample_envelope_codec :: "Envelope codec" where
  "sample_envelope_codec =
     \<lparr>enc = \<lambda>v. Inr (ciphertext v), dec = \<lambda>bs. Inr (Envelope_new 1 bs 0 4 5 (replicate 16 9))\<rparr>"

definition sample_env :: "(nat, 'w) network \<Rightarrow> (unit, unit, unit, nat, 'w) env" where
  "sample_env net = \<lparr>env_olm = sample_olm, env_hkdf = \<lambda>ikm info len. Some (resize len 0 (take 24 ikm @ drop 8 info)),
     env_sha256 = \<lambda>bs. bs,
     env_ed = \<lparr>ed_public = \<lambda>k. k, ed_sign = \<lambda>k m. replicate 64 1, ed_key_valid = \<lambda>_. True,
        ed_verify_strict = \<lambda>_ _ sig. sig = replicate 64 1\<rparr>,
     env_aead = \<lparr>aead_encrypt = \<lambda>k n p. Some p, aead_decrypt = \<lambda>k n c. Some c\<rparr>,
     env_addr = \<lparr>enc = \<lambda>a. Inr [word_of_nat a], dec = \<lambda>bs. Inr (length bs)\<rparr>,
     env_envelope = sample_envelope_codec, env_payload = sample_payload_codec,
     env_bundle = \<lparr>enc = \<lambda>_. Inr [], dec = \<lambda>_. Inl []\<rparr>,
     env_pointer = \<lparr>enc = \<lambda>_. Inr [], dec = \<lambda>_. Inl []\<rparr>,
     env_request = \<lparr>enc = \<lambda>_. Inr [], dec = \<lambda>_. Inl []\<rparr>,
     env_response = \<lparr>enc = \<lambda>_. Inr [], dec = \<lambda>_. Inr RespOk\<rparr>,
     env_ack = \<lparr>enc = \<lambda>a. Inr (if a = AckOk then [0] else [1]), dec = \<lambda>bs. Inr (if bs = [0] then AckOk else AckError [])\<rparr>,
     env_net = net, env_open_store = \<lambda>_ s. Ok s, env_bind = \<lambda>_ w. (Ok (), w), env_public_id = \<lambda>k. k, env_endpoint_addr = \<lambda>k. Inr (length k),
     env_times_out = \<lambda>_ _ _. None, env_random = \<lambda>n w. (replicate n 9, w), env_olm_random = \<lambda>w. ((), w),
     env_now = \<lambda>w. (5, w), env_debug = \<lambda>_. [], env_show = \<lambda>_. []\<rparr>"

text \<open>A network on which nothing can be reached.\<close>

definition dead_network :: "(nat, 'w) network" where
  "dead_network = \<lparr>net_connect = \<lambda>_ _ w. (Err (Connect []), w), net_exchange = \<lambda>_ _ _ _ w. (Err (Stream []), w)\<rparr>"

definition sample_identity :: Identity where
  "sample_identity = \<lparr>signing_key = replicate 32 1, backup_key = replicate 32 2, mailbox_key = replicate 32 3,
     backup_location_key = replicate 32 4, transport_key = replicate 32 5, server_transport_key = replicate 32 6\<rparr>"

definition sample_client :: "store \<Rightarrow> nat option \<Rightarrow> 'w \<Rightarrow> (unit, nat, 'w) client" where
  "sample_client s addr w = \<lparr>cl_identity = sample_identity, cl_store = s, cl_account = (),
     cl_server_addr = addr, cl_spawned = [], cl_world = w\<rparr>"

lemma sample_env_simps [simp]:
  "env_olm (sample_env net) = sample_olm" "env_net (sample_env net) = net"
  "env_sha256 (sample_env net) bs = bs" "env_payload (sample_env net) = sample_payload_codec"
  "env_envelope (sample_env net) = sample_envelope_codec"
  "env_olm_random (sample_env net) w = ((), w)" "env_now (sample_env net) w = (5, w)"
  "env_random (sample_env net) n w = (replicate n 9, w)" "env_times_out (sample_env net) a b w = None"
  "env_endpoint_addr (sample_env net) k = Inr (length k)"
  by (simp_all add: sample_env_def)

lemma sample_client_simps [simp]:
  "cl_identity (sample_client s addr w) = sample_identity" "cl_store (sample_client s addr w) = s"
  "cl_server_addr (sample_client s addr w) = addr" "cl_world (sample_client s addr w) = w"
  "cl_account (sample_client s addr w) = ()" "cl_spawned (sample_client s addr w) = []"
  by (simp_all add: sample_client_def)

end
