(* ===== verification/Ffi.thy ===== *)
theory Ffi
  imports Core_Client
begin

text \<open>
  \<^verbatim>\<open>crates/pm-ffi/src/lib.rs\<close>: the interface the app calls. Keys arrive as byte vectors of
  any length and addresses as text; every method checks and converts what it is given, calls the
  client, and turns the client's errors into their messages. \<^verbatim>\<open>compat\<close>, which enters a Tokio
  runtime around every call, has no effect on the values. The messages are the
  \<^verbatim>\<open>#[error]\<close> strings of the error types; the text of a database error is rusqlite's, a
  parameter, as are base64 and BIP-39.
\<close>

section \<open>Error messages\<close>

definition show_int :: "int \<Rightarrow> string" where
  "show_int i = (if i < 0 then ''-'' @ show_nat (nat (- i)) else show_nat (nat i))"

record ('mn, 'rnd) ffi_libs =
  lib_bip39 :: "('mn, 'rnd) bip39"
  lib_b64 :: "bytes \<Rightarrow> string"
  lib_unb64 :: "string \<Rightarrow> string + bytes"
  lib_show_sqlite :: "sql_error \<Rightarrow> string"

fun show_crypto_error :: "CryptoError \<Rightarrow> string" where
  "show_crypto_error (InvalidMnemonic s) = ''invalid recovery phrase: '' @ s"
| "show_crypto_error (SessionCreation s) = ''vodozemac session creation failed: '' @ s"
| "show_crypto_error (Encryption s) = ''vodozemac encryption failed: '' @ s"
| "show_crypto_error (Decryption s) = ''vodozemac decryption failed: '' @ s"
| "show_crypto_error (MalformedMessage s) = ''malformed Olm message: '' @ s"

fun show_transport_error :: "TransportError \<Rightarrow> string" where
  "show_transport_error (Endpoint s) = ''endpoint setup failed: '' @ s"
| "show_transport_error (Connect s) = ''connection failed: '' @ s"
| "show_transport_error (Stream s) = ''stream I/O failed: '' @ s"
| "show_transport_error (Codec s) = ''failed to encode/decode a node message: '' @ s"
| "show_transport_error (Rejected s) = ''peer rejected the delivery: '' @ s"

fun show_proto_error :: "ProtoError \<Rightarrow> string" where
  "show_proto_error (TooLargeToPad len mx) = ''data too large to pad: '' @ show_nat len
     @ '' bytes exceeds the largest bucket ('' @ show_nat mx @ '' bytes)''"
| "show_proto_error PaddedBufferTooShort = ''padded buffer too short to contain a length prefix''"
| "show_proto_error (PaddedLengthInvalid declared actual) = ''padded buffer's declared length (''
     @ show_nat declared @ '') exceeds its actual size ('' @ show_nat actual @ '')''"
| "show_proto_error (DerivationLengthInvalid n) = ''requested derivation output length (''
     @ show_nat n @ '') is invalid for HKDF-SHA256''"
| "show_proto_error (Serialization s) = ''serialization failed: '' @ s"

fun show_store_error :: "(sql_error \<Rightarrow> string) \<Rightarrow> StoreError \<Rightarrow> string" where
  "show_store_error show_sql (Sqlite err) = ''database error: '' @ show_sql err"
| "show_store_error show_sql (InvalidMsgIdLength n) =
     ''message id must be exactly 16 bytes, got '' @ show_nat n"

fun show_core_error :: "(sql_error \<Rightarrow> string) \<Rightarrow> CoreError \<Rightarrow> string" where
  "show_core_error show_sql (Store err) = show_store_error show_sql err"
| "show_core_error show_sql (Crypto err) = show_crypto_error err"
| "show_core_error show_sql (Proto err) = show_proto_error err"
| "show_core_error show_sql (TransportErr err) = show_transport_error err"
| "show_core_error show_sql (UnknownContact i) = ''unknown contact id '' @ show_int i"
| "show_core_error show_sql NoRouteToContact =
     ''no way to reach this contact: no Server mailbox and no transport key on file''"
| "show_core_error show_sql NoSessionAvailable = ''can't establish a session with this contact: no ''
     @ ''session exists and no pending one-time key was recorded at pairing''"
| "show_core_error show_sql DirectDeliveryTimedOut = ''direct delivery to this contact timed out''"
| "show_core_error show_sql NoOwnServer =
     ''this client has no Server mailbox configured, so there's nothing to sync''"
| "show_core_error show_sql UnattributedMessage =
     ''could not attribute an incoming message to any known contact''"
| "show_core_error show_sql NoBackupFound = ''no backup found at that Server address''"
| "show_core_error show_sql (CorruptBackup s) = ''backup bundle is corrupt: '' @ s"
| "show_core_error show_sql (NodeError s) = ''node returned an error: '' @ s"

datatype FfiError = FfiFailed string

definition ffi_from_core :: "('mn, 'rnd) ffi_libs \<Rightarrow> CoreError \<Rightarrow> FfiError" where
  "ffi_from_core l err = FfiFailed (show_core_error (lib_show_sqlite l) err)"

definition ffi_from_crypto :: "CryptoError \<Rightarrow> FfiError" where
  "ffi_from_crypto err = FfiFailed (show_crypto_error err)"

definition ffi_from_transport :: "TransportError \<Rightarrow> FfiError" where
  "ffi_from_transport err = FfiFailed (show_transport_error err)"

section \<open>Conversions\<close>

definition to_32 :: "bytes \<Rightarrow> string \<Rightarrow> (bytes, FfiError) outcome" where
  "to_32 bs field =
     ok_or (FfiFailed (field @ '' must be exactly 32 bytes, got '' @ show_nat (length bs))) (to_array 32 bs)"

definition parse_addr ::
  "('mn, 'rnd) ffi_libs \<Rightarrow> ('acc, 'ses, 'r, 'addr, 'w) env \<Rightarrow> string \<Rightarrow> ('addr, FfiError) outcome" where
  "parse_addr l e s = map_err ffi_from_transport (decode_endpoint_addr (env_addr e) (lib_unb64 l) s)"

definition format_addr ::
  "('mn, 'rnd) ffi_libs \<Rightarrow> ('acc, 'ses, 'r, 'addr, 'w) env \<Rightarrow> 'addr \<Rightarrow> (string, FfiError) outcome" where
  "format_addr l e addr = map_err ffi_from_transport (encode_endpoint_addr (env_addr e) (lib_b64 l) addr)"

datatype FfiMessageStatus = FfiSent | FfiDelivered | FfiStatusFailed

fun ffi_status :: "MessageStatus \<Rightarrow> FfiMessageStatus" where
  "ffi_status Sent = FfiSent"
| "ffi_status Delivered = FfiDelivered"
| "ffi_status Failed = FfiStatusFailed"

record FfiMessage =
  fm_msg_id :: bytes
  fm_outgoing :: bool
  fm_lamport :: u64
  fm_sent_at :: u64
  fm_plaintext :: bytes
  fm_status :: "FfiMessageStatus option"

definition ffi_message :: "StoredMessage \<Rightarrow> FfiMessage" where
  "ffi_message m = \<lparr>fm_msg_id = sm_msg_id m, fm_outgoing = (sm_direction m = Outgoing),
     fm_lamport = sm_lamport m, fm_sent_at = sm_sent_at m, fm_plaintext = sm_plaintext m,
     fm_status = map_option ffi_status (sm_status m)\<rparr>"

record FfiContact =
  fc_id :: i64
  fc_identity_key :: bytes
  fc_curve25519_key :: bytes
  fc_display_name :: "string option"
  fc_has_server :: bool

definition ffi_contact :: "ContactRecord \<Rightarrow> FfiContact" where
  "ffi_contact c = \<lparr>fc_id = cr_id c, fc_identity_key = identity_key c,
     fc_curve25519_key = curve25519_key c, fc_display_name = display_name c,
     fc_has_server = (server_addr c \<noteq> None)\<rparr>"

record FfiPairingPayload =
  fp_identity_key :: bytes
  fp_curve25519_key :: bytes
  fp_transport_key :: bytes
  fp_one_time_key :: bytes
  fp_nonce :: bytes
  fp_server_addr :: "bytes option"

definition ffi_payload :: "PairingPayload \<Rightarrow> FfiPairingPayload" where
  "ffi_payload p = \<lparr>fp_identity_key = pp_identity_key p, fp_curve25519_key = pp_curve25519_key p,
     fp_transport_key = pp_transport_key p, fp_one_time_key = pp_one_time_key p,
     fp_nonce = pp_nonce p, fp_server_addr = pp_server_addr p\<rparr>"

definition payload_try_from :: "FfiPairingPayload \<Rightarrow> (PairingPayload, FfiError) outcome" where
  "payload_try_from p =
     bind_outcome (to_32 (fp_identity_key p) ''identity_key'') (\<lambda>ik.
     bind_outcome (to_32 (fp_curve25519_key p) ''curve25519_key'') (\<lambda>ck.
     bind_outcome (to_32 (fp_transport_key p) ''transport_key'') (\<lambda>tk.
     bind_outcome (to_32 (fp_one_time_key p) ''one_time_key'') (\<lambda>otk.
     bind_outcome (to_32 (fp_nonce p) ''nonce'') (\<lambda>nonce.
       Ok \<lparr>pp_identity_key = ik, pp_curve25519_key = ck, pp_transport_key = tk,
           pp_one_time_key = otk, pp_nonce = nonce, pp_server_addr = fp_server_addr p\<rparr>)))))"

section \<open>Methods\<close>

text \<open>A call into the client whose error becomes its message.\<close>

definition core_call :: "('mn, 'rnd) ffi_libs \<Rightarrow> ('s, 'a, CoreError) action \<Rightarrow> ('s, 'a, FfiError) action" where
  "core_call l m s = (let (r, s') = m s in (map_err (ffi_from_core l) r, s'))"

definition ffi_open ::
  "('mn, 'rnd) ffi_libs \<Rightarrow> ('acc, 'ses, 'r, 'addr, 'w) env \<Rightarrow> string
    \<Rightarrow> (store \<times> 'w, ('acc, 'addr, 'w) client, FfiError) action" where
  "ffi_open l e seed_phrase =
     and_then (lift_outcome (map_err ffi_from_crypto (from_phrase (lib_bip39 l) seed_phrase))) (\<lambda>seed.
       core_call l (client_open e seed))"

definition ffi_restore ::
  "('mn, 'rnd) ffi_libs \<Rightarrow> ('acc, 'ses, 'r, 'addr, 'w) env \<Rightarrow> string \<Rightarrow> string
    \<Rightarrow> (store \<times> 'w, ('acc, 'addr, 'w) client, FfiError) action" where
  "ffi_restore l e seed_phrase addr_text =
     and_then (lift_outcome (map_err ffi_from_crypto (from_phrase (lib_bip39 l) seed_phrase))) (\<lambda>seed.
     and_then (lift_outcome (parse_addr l e addr_text)) (\<lambda>addr.
       core_call l (restore e seed addr)))"

definition ffi_import_backup ::
  "('mn, 'rnd) ffi_libs \<Rightarrow> ('acc, 'ses, 'r, 'addr, 'w) env \<Rightarrow> string \<Rightarrow> bytes
    \<Rightarrow> (store \<times> 'w, ('acc, 'addr, 'w) client, FfiError) action" where
  "ffi_import_backup l e seed_phrase backup_bytes =
     and_then (lift_outcome (map_err ffi_from_crypto (from_phrase (lib_bip39 l) seed_phrase))) (\<lambda>seed.
       core_call l (import_backup e seed backup_bytes))"

definition ffi_identity_key :: "('acc, 'ses, 'r, 'addr, 'w) env \<Rightarrow> ('acc, 'addr, 'w) client \<Rightarrow> bytes" where
  "ffi_identity_key e c = client_identity_key e c"

definition ffi_curve25519_key :: "('acc, 'ses, 'r, 'addr, 'w) env \<Rightarrow> ('acc, 'addr, 'w) client \<Rightarrow> bytes" where
  "ffi_curve25519_key e c = client_curve25519_key e c"

definition ffi_mailbox_key :: "('acc, 'addr, 'w) client \<Rightarrow> bytes" where
  "ffi_mailbox_key c = client_mailbox_key c"

definition ffi_server_transport_key :: "('acc, 'addr, 'w) client \<Rightarrow> bytes" where
  "ffi_server_transport_key c = client_server_transport_key c"

definition ffi_generate_one_time_key ::
  "('mn, 'rnd) ffi_libs \<Rightarrow> ('acc, 'ses, 'r, 'addr, 'w) env \<Rightarrow> (('acc, 'addr, 'w) client, bytes, FfiError) action" where
  "ffi_generate_one_time_key l e = core_call l (generate_one_time_key e)"

definition ffi_list_contacts ::
  "('mn, 'rnd) ffi_libs \<Rightarrow> (('acc, 'addr, 'w) client, FfiContact list, FfiError) action" where
  "ffi_list_contacts l =
     and_then (core_call l (store_do list_contacts)) (\<lambda>cs. pure (map ffi_contact cs))"

definition ffi_own_server_addr ::
  "('mn, 'rnd) ffi_libs \<Rightarrow> ('acc, 'ses, 'r, 'addr, 'w) env
    \<Rightarrow> (('acc, 'addr, 'w) client, string option, FfiError) action" where
  "ffi_own_server_addr l e c =
     (case cl_server_addr c of
        None \<Rightarrow> (Ok None, c)
      | Some addr \<Rightarrow> (map_ok Some (format_addr l e addr), c))"

definition ffi_set_own_server_addr ::
  "('mn, 'rnd) ffi_libs \<Rightarrow> ('acc, 'ses, 'r, 'addr, 'w) env \<Rightarrow> string
    \<Rightarrow> (('acc, 'addr, 'w) client, unit, FfiError) action" where
  "ffi_set_own_server_addr l e s =
     and_then (lift_outcome (parse_addr l e s)) (\<lambda>addr. core_call l (client_set_own_server_addr e addr))"

definition ffi_clear_own_server_addr ::
  "('mn, 'rnd) ffi_libs \<Rightarrow> (('acc, 'addr, 'w) client, unit, FfiError) action" where
  "ffi_clear_own_server_addr l = core_call l clear_own_server_addr"

definition ffi_pairing_payload ::
  "('mn, 'rnd) ffi_libs \<Rightarrow> ('acc, 'ses, 'r, 'addr, 'w) env
    \<Rightarrow> (('acc, 'addr, 'w) client, FfiPairingPayload, FfiError) action" where
  "ffi_pairing_payload l e = and_then (core_call l (pairing_payload e)) (\<lambda>p. pure (ffi_payload p))"

definition ffi_add_contact_from_payload ::
  "('mn, 'rnd) ffi_libs \<Rightarrow> ('acc, 'ses, 'r, 'addr, 'w) env \<Rightarrow> FfiPairingPayload \<Rightarrow> bytes \<Rightarrow> string option
    \<Rightarrow> (('acc, 'addr, 'w) client, i64, FfiError) action" where
  "ffi_add_contact_from_payload l e their my_nonce name =
     and_then (lift_outcome (payload_try_from their)) (\<lambda>p.
     and_then (lift_outcome (to_32 my_nonce ''my_nonce'')) (\<lambda>nonce.
       core_call l (add_contact_from_payload e p nonce name)))"

definition ffi_add_contact ::
  "('mn, 'rnd) ffi_libs \<Rightarrow> ('acc, 'ses, 'r, 'addr, 'w) env \<Rightarrow> bytes \<Rightarrow> bytes \<Rightarrow> bytes \<Rightarrow> bytes
    \<Rightarrow> string option \<Rightarrow> string option \<Rightarrow> bytes \<Rightarrow> (('acc, 'addr, 'w) client, i64, FfiError) action" where
  "ffi_add_contact l e ik ck otk tk name addr secret =
     and_then (lift_outcome (to_32 ik ''their_identity_key'')) (\<lambda>ik.
     and_then (lift_outcome (to_32 ck ''their_curve25519_key'')) (\<lambda>ck.
     and_then (lift_outcome (to_32 otk ''their_one_time_key'')) (\<lambda>otk.
     and_then (lift_outcome (to_32 tk ''their_transport_key'')) (\<lambda>tk.
     and_then (lift_outcome (to_32 secret ''pair_secret'')) (\<lambda>secret.
     and_then (lift_outcome (case addr of None \<Rightarrow> Ok None | Some s \<Rightarrow> map_ok Some (parse_addr l e s))) (\<lambda>a.
       core_call l (add_contact e ik ck otk tk name a secret)))))))"

definition ffi_send ::
  "('mn, 'rnd) ffi_libs \<Rightarrow> ('acc, 'ses, 'r, 'addr, 'w) env \<Rightarrow> i64 \<Rightarrow> bytes
    \<Rightarrow> (('acc, 'addr, 'w) client, unit, FfiError) action" where
  "ffi_send l e cid plaintext = core_call l (send e cid plaintext)"

text \<open>\<^verbatim>\<open>as u32\<close> on the count keeps its low 32 bits.\<close>

definition ffi_sync ::
  "('mn, 'rnd) ffi_libs \<Rightarrow> ('acc, 'ses, 'r, 'addr, 'w) env \<Rightarrow> (('acc, 'addr, 'w) client, u32, FfiError) action" where
  "ffi_sync l e = and_then (core_call l (sync e)) (\<lambda>n. pure (word_of_nat n))"

definition ffi_messages_for_contact ::
  "('mn, 'rnd) ffi_libs \<Rightarrow> i64 \<Rightarrow> (('acc, 'addr, 'w) client, FfiMessage list, FfiError) action" where
  "ffi_messages_for_contact l cid =
     and_then (core_call l (store_do (messages_for_contact cid))) (\<lambda>ms. pure (map ffi_message ms))"

definition ffi_push_backup ::
  "('mn, 'rnd) ffi_libs \<Rightarrow> ('acc, 'ses, 'r, 'addr, 'w) env \<Rightarrow> (('acc, 'addr, 'w) client, unit, FfiError) action" where
  "ffi_push_backup l e = core_call l (push_backup e)"

definition ffi_export_backup ::
  "('mn, 'rnd) ffi_libs \<Rightarrow> ('acc, 'ses, 'r, 'addr, 'w) env \<Rightarrow> (('acc, 'addr, 'w) client, bytes, FfiError) action" where
  "ffi_export_backup l e = core_call l (export_backup e)"

definition generate_seed_phrase :: "('mn, 'rnd) ffi_libs \<Rightarrow> 'rnd \<Rightarrow> (string, CryptoError) outcome" where
  "generate_seed_phrase l r =
     bind_outcome (seed_generate (lib_bip39 l) r) (\<lambda>(seed, m). Ok (mn_display (lib_bip39 l) m))"

section \<open>The boundary\<close>

lemma to_32_Ok_iff [simp]: "to_32 bs field = Ok a \<longleftrightarrow> length bs = 32 \<and> a = bs"
  by (auto simp: to_32_def)

lemma to_32_right [simp]: "length bs = 32 \<Longrightarrow> to_32 bs field = Ok bs"
  by simp

lemma to_32_wrong: "length bs \<noteq> 32 \<Longrightarrow> \<exists>msg. to_32 bs field = Err (FfiFailed msg)"
  by (simp add: to_32_def to_array_def)

lemma parse_addr_cases: "(\<exists>a. parse_addr l e s = Ok a) \<or> (\<exists>msg. parse_addr l e s = Err (FfiFailed msg))"
  by (auto simp: parse_addr_def decode_endpoint_addr_def ffi_from_transport_def split: sum.splits)

text \<open>A check that fails ends the call before anything is done; one that succeeds is passed.\<close>

lemma check_fails: "m = Err err \<Longrightarrow> and_then (lift_outcome m) k s = (Err err, s)"
  by (simp add: and_then_def lift_outcome_def)

lemma check_passes: "m = Ok a \<Longrightarrow> and_then (lift_outcome m) k s = k a s"
  by (simp add: and_then_def lift_outcome_def)

lemma check_key_fails:
  assumes "length bs = 32 \<Longrightarrow> \<exists>msg. k bs s = (Err (FfiFailed msg), s)"
  shows "\<exists>msg. and_then (lift_outcome (to_32 bs field)) k s = (Err (FfiFailed msg), s)"
proof (cases "length bs = 32")
  case True
  with assms show ?thesis by (simp add: check_passes)
next
  case False
  from to_32_wrong[OF this] obtain msg where "to_32 bs field = Err (FfiFailed msg)" ..
  then show ?thesis by (auto simp: check_fails)
qed

lemma payload_try_from_iff:
  "payload_try_from p = Ok q \<longleftrightarrow>
     length (fp_identity_key p) = 32 \<and> length (fp_curve25519_key p) = 32 \<and> length (fp_transport_key p) = 32
   \<and> length (fp_one_time_key p) = 32 \<and> length (fp_nonce p) = 32 \<and> ffi_payload q = p"
  by (cases p; cases q) (auto simp: payload_try_from_def bind_outcome_Ok_iff ffi_payload_def)

lemma core_call_Ok_iff: "core_call l m s = (Ok a, s') \<longleftrightarrow> m s = (Ok a, s')"
  by (auto simp: core_call_def Let_def split: prod.splits)

text \<open>What vodozemac, Ed25519, iroh and the random number generator document about sizes.\<close>

definition key_sizes :: "('acc, 'ses, 'r, 'addr, 'w) env \<Rightarrow> bool" where
  "key_sizes e \<longleftrightarrow> (\<forall>k. length (ed_public (env_ed e) k) = 32) \<and> (\<forall>a. length (acc_key (env_olm e) a) = 32)
     \<and> (\<forall>k. length (env_public_id e k) = 32) \<and> (\<forall>a. \<forall>k \<in> set (acc_otks (env_olm e) a). length k = 32)
     \<and> (\<forall>n w. length (fst (env_random e n w)) = n)"

lemma one_time_key_size:
  assumes "key_sizes e" and "generate_one_time_key e c = (Ok otk, c')"
  shows "length otk = 32"
proof -
  from assms(2) obtain a where "otk \<in> set (acc_otks (env_olm e) a)"
    by (auto simp: generate_one_time_key_def generate_one_time_keys_def and_then_Ok_iff lift_outcome_def
        Let_def neq_Nil_conv split: list.splits) (metis list.set_intros(1))
  with assms(1) show ?thesis by (simp add: key_sizes_def)
qed

lemma pairing_payload_sizes:
  assumes "key_sizes e" and "pairing_payload e c = (Ok p, c')"
  shows "length (pp_identity_key p) = 32 \<and> length (pp_curve25519_key p) = 32
    \<and> length (pp_transport_key p) = 32 \<and> length (pp_one_time_key p) = 32 \<and> length (pp_nonce p) = 32"
proof -
  from assms(2) obtain otk nonce c1 c2 addr c3 where otk: "generate_one_time_key e c = (Ok otk, c1)"
    and nonce: "world_do (env_random e 32) c1 = (Ok nonce, c2)"
    and p: "p = \<lparr>pp_identity_key = client_identity_key e c3, pp_curve25519_key = client_curve25519_key e c3,
        pp_transport_key = env_public_id e (transport_key (cl_identity c3)),
        pp_one_time_key = otk, pp_nonce = nonce, pp_server_addr = addr\<rparr>"
    by (auto simp: pairing_payload_def and_then_Ok_iff)
  have "length nonce = 32"
    using nonce assms(1) by (auto simp: world_do_def key_sizes_def split: prod.splits)
      (metis fst_conv)
  with one_time_key_size[OF assms(1) otk] assms(1) show ?thesis
    by (simp add: p key_sizes_def client_identity_key_def client_curve25519_key_def)
qed

text \<open>Instances: two letters a byte in place of base64, and libraries with keys of the right size.\<close>

fun text_of_bytes :: "bytes \<Rightarrow> string" where
  "text_of_bytes [] = []"
| "text_of_bytes (b # bs) = char_of (65 + unat b div 16) # char_of (65 + unat b mod 16) # text_of_bytes bs"

fun bytes_of_text :: "string \<Rightarrow> string + bytes" where
  "bytes_of_text [] = Inr []"
| "bytes_of_text [c] = Inl ''odd length''"
| "bytes_of_text (c # d # cs) =
     map_sum id (\<lambda>bs. word_of_nat ((of_char c - 65) * 16 + (of_char d - 65)) # bs) (bytes_of_text cs)"

definition sample_libs :: "(string, string) ffi_libs" where
  "sample_libs = \<lparr>lib_bip39 = sample_bip39, lib_b64 = text_of_bytes, lib_unb64 = bytes_of_text,
     lib_show_sqlite = \<lambda>_. ''error''\<rparr>"

definition ffi_env :: "(unit, unit, unit, nat, unit) env" where
  "ffi_env = (sample_env dead_network)
     \<lparr>env_ed := \<lparr>ed_public = \<lambda>_. replicate 32 1, ed_sign = \<lambda>_ _. [], ed_key_valid = \<lambda>_. True, ed_verify_strict = \<lambda>_ _ _. True\<rparr>,
      env_public_id := \<lambda>_. replicate 32 4, env_addr := single_codec 7 [17]\<rparr>"

lemma byte_nibbles: "unat b div 16 < 16 \<and> unat b mod 16 < 16" for b :: byte
proof -
  have "unat b < 256" using unsigned_less[of b, where ?'a = nat] by simp
  then show ?thesis by simp
qed

lemma letter_no_space: "n < 16 \<Longrightarrow> \<not> is_space (char_of (65 + n))" for n :: nat
  by (simp add: is_space_def Let_def)

lemma bytes_of_text_roundtrip: "bytes_of_text (text_of_bytes bs) = Inr bs"
proof (induction bs)
  case (Cons b bs)
  have "word_of_nat (unat b div 16 * 16 + unat b mod 16) = b" by simp
  with Cons byte_nibbles[of b] show ?case by (simp add: mult.commute)
qed simp

lemma trim_no_space:
  assumes "\<forall>c \<in> set s. \<not> is_space c"
  shows "trim s = s"
proof -
  have "dropWhile is_space xs = xs" if "\<forall>c \<in> set xs. \<not> is_space c" for xs
    using that by (cases xs) auto
  from this[of s] this[of "rev s"] assms show ?thesis by (simp add: trim_def)
qed

lemma trim_text_of_bytes: "trim (text_of_bytes bs) = text_of_bytes bs"
proof (rule trim_no_space)
  show "\<forall>c \<in> set (text_of_bytes bs). \<not> is_space c"
    by (induction bs) (simp_all add: letter_no_space byte_nibbles)
qed

lemma ffi_env_key_sizes: "key_sizes ffi_env"
  by (simp add: key_sizes_def ffi_env_def sample_env_def sample_olm_def)

section \<open>Properties\<close>

text \<open>
  C38: no key of the wrong size gets past the boundary. Adding a contact calls the client, with
  the arguments unchanged and the address decoded, exactly when all five keys have 32 bytes and
  the address, if there is one, can be decoded; otherwise it returns an error message and leaves
  the client as it was.
\<close>

theorem ffi_add_contact_checks:
  "if length ik = 32 \<and> length ck = 32 \<and> length otk = 32 \<and> length tk = 32 \<and> length secret = 32
      \<and> (case addr of None \<Rightarrow> True | Some s \<Rightarrow> is_ok (parse_addr l e s))
   then \<exists>a. (case addr of None \<Rightarrow> a = None | Some s \<Rightarrow> \<exists>x. a = Some x \<and> parse_addr l e s = Ok x)
          \<and> ffi_add_contact l e ik ck otk tk name addr secret c
              = core_call l (add_contact e ik ck otk tk name a secret) c
   else \<exists>msg. ffi_add_contact l e ik ck otk tk name addr secret c = (Err (FfiFailed msg), c)"
proof (cases "length ik = 32 \<and> length ck = 32 \<and> length otk = 32 \<and> length tk = 32 \<and> length secret = 32")
  case True
  then have call: "ffi_add_contact l e ik ck otk tk name addr secret c =
      and_then (lift_outcome (case addr of None \<Rightarrow> Ok None | Some s \<Rightarrow> map_ok Some (parse_addr l e s)))
        (\<lambda>a. core_call l (add_contact e ik ck otk tk name a secret)) c"
    by (simp add: ffi_add_contact_def check_passes)
  show ?thesis
  proof (cases addr)
    case None
    with True call show ?thesis by (simp add: check_passes)
  next
    case (Some s)
    with parse_addr_cases[of l e s] True call show ?thesis by (auto simp: check_passes check_fails)
  qed
next
  case False
  then have "\<exists>msg. ffi_add_contact l e ik ck otk tk name addr secret c = (Err (FfiFailed msg), c)"
    unfolding ffi_add_contact_def by (intro check_key_fails) simp
  with False show ?thesis by auto
qed

text \<open>
  What one device shows, another can take in. A pairing payload that crosses the boundary is
  accepted on the other side, and is there the payload the client made, given that the libraries
  return keys of 32 bytes and random bytes of the length asked for.
\<close>

lemma ffi_pairing_payload_accepted:
  assumes "key_sizes e" and "ffi_pairing_payload l e c = (Ok fp, c')"
  shows "\<exists>p. payload_try_from fp = Ok p \<and> pairing_payload e c = (Ok p, c')"
proof -
  from assms(2) obtain p where p: "pairing_payload e c = (Ok p, c')" "fp = ffi_payload p"
    by (auto simp: ffi_pairing_payload_def and_then_Ok_iff core_call_Ok_iff pure_def)
  with pairing_payload_sizes[OF assms(1) p(1)] show ?thesis
    by (simp add: payload_try_from_iff ffi_payload_def)
qed

lemma ffi_pairing_payload_accepted_witness:
  "\<exists>p fp. fst (ffi_pairing_payload sample_libs ffi_env
        (sample_client (empty_store True) None ())) = Ok fp \<and> payload_try_from fp = Ok p"
proof -
  let ?c = "sample_client (empty_store True) None ()"
  have "is_ok (fst (ffi_pairing_payload sample_libs ffi_env ?c))" by code_simp
  then obtain fp c' where "ffi_pairing_payload sample_libs ffi_env ?c = (Ok fp, c')"
    by (metis is_ok.elims(2) prod.collapse)
  with ffi_pairing_payload_accepted[OF ffi_env_key_sizes this] show ?thesis by auto
qed

text \<open>
  Addresses survive being copied as text. The text one device shows for an address, entered
  as the own server on a device whose libraries agree, always succeeds: the address becomes that
  device's server, is written to its store, and is shown again as the same text.
\<close>

lemma ffi_server_addr_roundtrip:
  assumes "codec_roundtrip (env_addr e)" and "\<And>bs. lib_unb64 l (lib_b64 l bs) = Inr bs"
    and "\<And>bs. trim (lib_b64 l bs) = lib_b64 l bs" and "format_addr l e addr = Ok s"
  shows "\<exists>c' bs. ffi_set_own_server_addr l e s c = (Ok (), c') \<and> cl_server_addr c' = Some addr
    \<and> fst (get_own_server_addr (cl_store c')) = Ok (Some bs) \<and> dec (env_addr e) bs = Inr addr
    \<and> ffi_own_server_addr l e c' = (Ok (Some s), c')"
proof -
  from assms(4) obtain bs where bs: "enc (env_addr e) addr = Inr bs" "s = lib_b64 l bs"
    by (auto simp: format_addr_def encode_endpoint_addr_def split: sum.splits)
  have "parse_addr l e s = Ok addr" and "dec (env_addr e) bs = Inr addr"
    using assms(1-3) bs by (simp_all add: parse_addr_def decode_endpoint_addr_def codec_roundtripD)
  then show ?thesis
    using bs assms(4)
    by (simp add: ffi_set_own_server_addr_def check_passes core_call_def client_set_own_server_addr_def
        and_then_def lift_outcome_def store_do_def set_own_server_addr_def spawn_task_def Let_def
        ffi_own_server_addr_def get_own_server_addr_def upsert_account_def)
qed

end
