(* ===== verification/Core_Progress.thy ===== *)
theory Core_Progress
  imports Core_Client "HOL-Library.Sublist"
begin

text \<open>
  What no operation of the client ever undoes. The client as a step relation: every public
  operation, every direct connection, every spawned task and every change of the outside world is
  a step. A reflexive and transitive relation that each store method respects is respected by
  every sequence of steps; the relation here says that contacts are never removed, their write
  counters and pointer sequence numbers never go back, stored messages never change except in
  their status, and neither do the Lamport clock and the broadcast counter go back.
\<close>

section \<open>Relations that every step respects\<close>

definition keeps :: "('s \<Rightarrow> 's \<Rightarrow> bool) \<Rightarrow> ('s, 'a, 'e) action \<Rightarrow> bool" where
  "keeps R m \<longleftrightarrow> (\<forall>s. R s (snd (m s)))"

lemma keepsI: "(\<And>s. R s (snd (m s))) \<Longrightarrow> keeps R m"
  by (simp add: keeps_def)

lemma keepsD: "keeps R m \<Longrightarrow> R s (snd (m s))"
  by (simp add: keeps_def)

definition keeps_err :: "('s \<Rightarrow> 's \<Rightarrow> bool) \<Rightarrow> ('s, 'a, 'e) action \<Rightarrow> bool" where
  "keeps_err R m \<longleftrightarrow> (\<forall>s e t. m s = (Err e, t) \<longrightarrow> R s t)"

lemma keeps_errD: "keeps_err R m \<Longrightarrow> m s = (Err e, t) \<Longrightarrow> R s t"
  by (simp add: keeps_err_def)

locale step_order =
  fixes R :: "'s \<Rightarrow> 's \<Rightarrow> bool"
  assumes R_refl: "R s s"
    and R_trans: "R s t \<Longrightarrow> R t u \<Longrightarrow> R s u"
begin

lemma keeps_unit: "keeps R (pure a)" "keeps R (fail e)" "keeps R (lift_outcome r)" "keeps R (\<lambda>s. (f s, s))"
  by (simp_all add: keeps_def pure_def fail_def lift_outcome_def R_refl)

lemma keeps_read: "(\<And>s. snd (m s) = s) \<Longrightarrow> keeps R m"
  by (simp add: keeps_def R_refl)

lemma and_then_step:
  assumes "R s (snd (m s))" and "\<And>a s'. m s = (Ok a, s') \<Longrightarrow> R s' (snd (k a s'))"
  shows "R s (snd (and_then m k s))"
proof (cases "m s")
  case (Pair r s')
  with assms(1) have "R s s'" by simp
  with Pair assms(2) show ?thesis
    by (cases r) (auto simp: and_then_def intro: R_trans)
qed

lemma keeps_and_then: "keeps R m \<Longrightarrow> (\<And>a. keeps R (k a)) \<Longrightarrow> keeps R (and_then m k)"
  by (rule keepsI, rule and_then_step) (auto dest: keepsD)

lemma keeps_for_each: "(\<And>x. keeps R (f x)) \<Longrightarrow> keeps R (for_each f xs)"
  by (induction xs) (auto intro: keeps_and_then keeps_unit)

lemma keeps_when_some: "(\<And>x. keeps R (f x)) \<Longrightarrow> keeps R (when_some y f)"
  by (cases y) (auto intro: keeps_unit)

lemma keeps_attempt: "keeps R m \<Longrightarrow> keeps R (attempt m)"
proof (rule keepsI)
  fix s assume "keeps R m"
  from keepsD[OF this, of s] show "R s (snd (attempt m s))"
    by (auto simp: attempt_def split: prod.splits outcome.splits)
qed

lemma keeps_require: "keeps R (require err x)"
  unfolding require_def by (rule keeps_unit)

text \<open>Steps whose request is built from the state they start in.\<close>

lemma keeps_from_state: "(\<And>c. keeps R (f c)) \<Longrightarrow> keeps R (\<lambda>c. f c c)"
  by (auto simp: keeps_def)

lemma keeps_rtranclp:
  assumes "\<And>s t. step s t \<Longrightarrow> R s t" and "step\<^sup>*\<^sup>* s t"
  shows "R s t"
  using assms(2) by (induction rule: rtranclp_induct) (auto intro: R_refl R_trans assms(1))

text \<open>Failing runs only: what holds of every step before the failure holds at the failure.\<close>

lemma keeps_err_and_then:
  assumes "keeps R m" and "\<And>a. keeps_err R (k a)"
  shows "keeps_err R (and_then m k)"
  unfolding keeps_err_def
proof (intro allI impI)
  fix s e t assume run: "and_then m k s = (Err e, t)"
  obtain r s' where m: "m s = (r, s')" by (cases "m s")
  with keepsD[OF assms(1), of s] have "R s s'" by simp
  with run m assms(2) R_trans show "R s t"
    by (cases r) (auto simp: and_then_def keeps_err_def)
qed

lemma keeps_err_end: "keeps_err R m \<Longrightarrow> keeps_err R (and_then m (\<lambda>a. pure (f a)))"
  unfolding keeps_err_def by (auto simp: and_then_def pure_def split: prod.splits outcome.splits)

lemmas keeps_intros = keeps_unit keeps_and_then keeps_for_each keeps_when_some keeps_attempt keeps_require

end

section \<open>What a store never loses\<close>

definition row_le :: "contact_row \<Rightarrow> contact_row \<Rightarrow> bool" where
  "row_le r r' \<longleftrightarrow> c_id r' = c_id r \<and> c_identity_key r' = c_identity_key r
     \<and> c_next_write_n r \<le> c_next_write_n r'
     \<and> as_u64 (c_pointer_seq r) \<le> as_u64 (c_pointer_seq r')"

definition contacts_le :: "contact_row list \<Rightarrow> contact_row list \<Rightarrow> bool" where
  "contacts_le rs rs' \<longleftrightarrow> (\<forall>r \<in> set rs. \<exists>r' \<in> set rs'. row_le r r')"

text \<open>A message without its status, the one column that is ever updated.\<close>

definition fixed_part :: "message_row \<Rightarrow> message_row" where
  "fixed_part r = r\<lparr>m_status := None\<rparr>"

definition broadcast_seq :: "store \<Rightarrow> sqlnum" where
  "broadcast_seq s = (case account s of None \<Rightarrow> Integer 0 | Some a \<Rightarrow> a_pointer_broadcast_seq a)"

definition store_grows :: "store \<Rightarrow> store \<Rightarrow> bool" where
  "store_grows s s' \<longleftrightarrow>
     contacts_le (contacts s) (contacts s')
   \<and> prefix (map fixed_part (messages s)) (map fixed_part (messages s'))
   \<and> local_clock s \<le> local_clock s' \<and> broadcast_seq s \<le> broadcast_seq s'"

definition unique_ids :: "store \<Rightarrow> bool" where
  "unique_ids s \<longleftrightarrow> distinct (map c_id (contacts s))"

definition store_le :: "store \<Rightarrow> store \<Rightarrow> bool" where
  "store_le s s' \<longleftrightarrow> (unique_ids s \<longrightarrow> unique_ids s' \<and> store_grows s s')"

lemma row_le_refl [simp]: "row_le r r"
  by (simp add: row_le_def)

lemma row_le_trans: "row_le a b \<Longrightarrow> row_le b c \<Longrightarrow> row_le a c"
  by (auto simp: row_le_def)

lemma contacts_le_subset: "set rs \<subseteq> set rs' \<Longrightarrow> contacts_le rs rs'"
  using row_le_refl unfolding contacts_le_def by blast

lemma contacts_le_refl [simp]: "contacts_le rs rs"
  by (simp add: contacts_le_subset)

lemma contacts_le_trans: "contacts_le a b \<Longrightarrow> contacts_le b c \<Longrightarrow> contacts_le a c"
  unfolding contacts_le_def by (meson row_le_trans)

lemma store_grows_refl [simp]: "store_grows s s"
  by (simp add: store_grows_def)

lemma store_grows_trans: "store_grows a b \<Longrightarrow> store_grows b c \<Longrightarrow> store_grows a c"
  unfolding store_grows_def by (meson contacts_le_trans prefix_order.trans order_trans)

interpretation st: step_order store_le
  by unfold_locales (auto simp: store_le_def intro: store_grows_trans)

text \<open>Statements on one table.\<close>

lemma contacts_le_update:
  assumes "\<And>r. r \<in> set rs \<Longrightarrow> P r \<Longrightarrow> row_le r (f r)"
  shows "contacts_le rs (update_where P f rs)"
  unfolding contacts_le_def set_update_where
proof (intro ballI bexI)
  fix r assume r: "r \<in> set rs"
  then show "row_le r (if P r then f r else r)" using assms by simp
  from r show "(if P r then f r else r) \<in> (\<lambda>r. if P r then f r else r) ` set rs" by (rule imageI)
qed

lemma contacts_le_append [simp]: "contacts_le rs (rs @ xs)"
  by (simp add: contacts_le_subset)

lemma update_contact_le:
  assumes "\<And>r. r \<in> set (contacts s) \<Longrightarrow> c_id r = cid \<Longrightarrow> row_le r (f r)"
  shows "store_le s (snd (update_contact cid f s))"
proof -
  have "map c_id (update_where (\<lambda>r. c_id r = cid) f (contacts s)) = map c_id (contacts s)"
    using assms by (auto simp: update_where_def row_le_def)
  moreover have "contacts_le (contacts s) (update_where (\<lambda>r. c_id r = cid) f (contacts s))"
    using assms by (rule contacts_le_update)
  ultimately show ?thesis
    by (simp add: store_le_def unique_ids_def store_grows_def update_contact_def broadcast_seq_def)
qed

lemma upsert_contact_le: "keeps store_le (upsert_contact ik ck name)"
proof (rule keepsI)
  fix s :: store
  let ?f = "\<lambda>r. r\<lparr>c_curve25519_key := ck, c_display_name := name\<rparr>"
  have "contacts_le (contacts s) (update_where (\<lambda>r. c_identity_key r = ik) ?f (contacts s))"
    by (rule contacts_le_update) (simp add: row_le_def)
  moreover have "map c_id (update_where (\<lambda>r. c_identity_key r = ik) ?f (contacts s)) = map c_id (contacts s)"
    by (simp add: map_update_where)
  ultimately show "store_le s (snd (upsert_contact ik ck name s))"
    using next_rowid_fresh[of c_id "contacts s"]
    by (auto simp: upsert_contact_def Let_def upsert_def store_le_def unique_ids_def store_grows_def
        broadcast_seq_def split: option.splits)
qed

lemma same_contacts_le:
  assumes "contacts s' = contacts s" and "prefix (map fixed_part (messages s)) (map fixed_part (messages s'))"
    and "local_clock s \<le> local_clock s'" and "broadcast_seq s \<le> broadcast_seq s'"
  shows "store_le s s'"
  using assms by (simp add: store_le_def unique_ids_def store_grows_def)

lemma contact_setters_le:
  "keeps store_le (set_contact_server_addr cid addr)" "keeps store_le (set_contact_transport_key cid k)"
  "keeps store_le (set_contact_pair_secret cid k)" "keeps store_le (set_contact_pending_otk cid otk)"
  unfolding set_contact_server_addr_def set_contact_transport_key_def set_contact_pair_secret_def
    set_contact_pending_otk_def
  by (auto intro!: keepsI update_contact_le simp: row_le_def)

lemma increment_next_write_n_le: "keeps store_le (increment_and_get_next_write_n cid)"
  unfolding increment_and_get_next_write_n_def
  by (intro st.keeps_and_then keepsI update_contact_le) (auto simp: row_le_def sql_succ_ge st.R_refl)

lemma reads_le:
  "keeps store_le list_contacts" "keeps store_le (get_contact cid)" "keeps store_le (load_session_pickle cid)"
  "keeps store_le get_last_synced_blob_id" "keeps store_le load_account_pickle"
  "keeps store_le get_own_server_addr" "keeps store_le (messages_for_contact cid)"
  "keeps store_le get_pointer_broadcast_seq"
  unfolding get_contact_def
  by (rule st.keeps_read; auto simp: list_contacts_def and_then_def load_session_pickle_def
      get_last_synced_blob_id_def load_account_pickle_def get_own_server_addr_def messages_for_contact_def
      get_pointer_broadcast_seq_def split: outcome.splits option.splits)+

lemma fixed_part_status:
  "map fixed_part (update_where P (m_status_update (\<lambda>_. v)) ms) = map fixed_part ms"
  by (rule map_update_where) (simp add: fixed_part_def)

lemma message_writes_le:
  "keeps store_le (insert_message cid msg)" "keeps store_le (set_message_status cid mid stat)"
  "keeps store_le (set_message_status_by_msg_id mid stat)" "keeps store_le (save_session_pickle cid p)"
  by (rule keepsI, rule same_contacts_le;
      simp add: insert_message_def set_message_status_def set_message_status_by_msg_id_def
        save_session_pickle_def broadcast_seq_def fixed_part_status)+

lemma clock_le: "keeps store_le tick_lamport" "keeps store_le (observe_lamport v)"
proof -
  have "x \<le> sql_succ (max x y)" for x y :: sqlnum
    using sql_succ_ge[of "max x y"] by (meson max.cobounded1 order_trans)
  then show "keeps store_le (observe_lamport v)" and "keeps store_le tick_lamport"
    by (auto intro!: keepsI same_contacts_le sql_succ_ge simp: tick_lamport_def observe_lamport_def
        current_def broadcast_seq_def split: option.splits)
qed

lemma account_writes_le:
  "keeps store_le (save_account_pickle p)" "keeps store_le (set_last_synced_blob_id v)"
  "keeps store_le (set_own_server_addr a)" "keeps store_le increment_and_get_pointer_broadcast_seq"
  by (auto intro!: keepsI same_contacts_le sql_succ_ge simp: save_account_pickle_def set_last_synced_blob_id_def
      set_own_server_addr_def increment_and_get_pointer_broadcast_seq_def get_pointer_broadcast_seq_def
      upsert_account_def broadcast_seq_def empty_account_def i64_max_def split: option.splits)

lemmas store_methods_le = upsert_contact_le contact_setters_le increment_next_write_n_le reads_le
  message_writes_le clock_le account_writes_le


section \<open>Relations between clients that delivery respects\<close>

text \<open>
  The steps a delivery is made of change the outside world, the clock and write counters only. A
  relation that allows this is respected by both routes of a delivery.
\<close>

locale client_order = step_order R
  for R :: "('acc, 'addr, 'w) client \<Rightarrow> ('acc, 'addr, 'w) client \<Rightarrow> bool" +
  assumes only_world: "R c (c\<lparr>cl_world := w\<rparr>)"
    and keeps_tick: "keeps R (store_do tick_lamport)"
    and keeps_increment: "keeps R (store_do (increment_and_get_next_write_n cid))"
begin

lemma keeps_outside:
  "keeps R (world_do f)" "keeps R (call_node e a req)" "keeps R (try_direct e a b)"
  by (rule keepsI; auto simp: world_do_def call_node_def try_direct_def only_world Let_def
      split: prod.splits option.splits)+

lemma keeps_replies:
  "keeps R (expect_ok e resp)" "keeps R (envelope_bytes_of e otype ct n lam at mid)"
  "keeps R (encrypt_payload e p ses)"
  unfolding expect_ok_def envelope_bytes_of_def encrypt_payload_def
  by (auto intro!: keeps_intros keeps_outside split: NodeResponse.splits)

lemma keeps_requests:
  "keeps R (client_register_slot e addr h)" "keeps R (schedule_retry e addr mid k b)"
  "keeps R (\<lambda>c. require err (cl_server_addr c) c)"
  "keeps R (\<lambda>c. call_node e a (req c) c)"
  "keeps R (\<lambda>c. and_then (call_node e a (req c)) (expect_ok e) c)"
  unfolding client_register_slot_def[abs_def] schedule_retry_def[abs_def]
  by (rule keeps_from_state; intro keeps_intros keeps_outside keeps_replies)+

lemma keeps_own_addr: "keeps R own_addr"
  by (rule keeps_read) (simp add: own_addr_def split: option.splits)

lemma keeps_ack_blobs: "keeps R (ack_blobs e ids)"
  unfolding ack_blobs_def by (auto intro!: keeps_intros keeps_requests keeps_own_addr)

lemma keeps_poll_failed:
  assumes "\<And>mid. keeps R (store_do (set_message_status_by_msg_id mid MessageStatus.Failed))"
  shows "keeps R (poll_failed e)"
  unfolding poll_failed_def
  by (auto intro!: keeps_intros keeps_requests keeps_own_addr assms split: NodeResponse.splits)

lemma keeps_deliver_to_server:
  "keeps R (deliver_to_server e cid contact addr otype ct lam at mid)"
  unfolding deliver_to_server_def
  by (intro keeps_intros keeps_outside keeps_replies keeps_increment)

lemma keeps_fallback:
  "keeps R (\<lambda>c. case cl_server_addr c of None \<Rightarrow> (Err err, c)
      | Some a \<Rightarrow> and_then (attempt (schedule_retry e a mid tk b))
          (\<lambda>queued. if is_ok queued then pure Sent else fail err) c)"
proof (rule keepsI)
  fix c :: "('acc, 'addr, 'w) client"
  have "keeps R (and_then (attempt (schedule_retry e a mid tk b))
      (\<lambda>queued. if is_ok queued then pure Sent else fail err))" for a
    by (intro keeps_intros keeps_requests) (simp add: keeps_unit)
  then show "R c (snd (case cl_server_addr c of None \<Rightarrow> (Err err, c)
    | Some a \<Rightarrow> and_then (attempt (schedule_retry e a mid tk b))
        (\<lambda>queued. if is_ok queued then pure Sent else fail err) c))"
    by (simp add: R_refl keepsD split: option.splits)
qed

lemma keeps_deliver_direct: "keeps R (deliver_direct e contact otype ct lam at mid)"
  unfolding deliver_direct_def
  by (intro keeps_and_then keeps_unit keeps_require keeps_attempt keeps_outside keeps_replies)
    (auto intro: keeps_unit keeps_fallback split: outcome.splits)

lemmas keeps_delivery = keeps_outside keeps_replies keeps_requests keeps_deliver_to_server
  keeps_deliver_direct keeps_tick keeps_increment keeps_own_addr keeps_ack_blobs

end

section \<open>Every operation of the client respects it\<close>

definition client_le :: "('acc, 'addr, 'w) client \<Rightarrow> ('acc, 'addr, 'w) client \<Rightarrow> bool" where
  "client_le c c' \<longleftrightarrow> store_le (cl_store c) (cl_store c') \<and> cl_identity c' = cl_identity c"

lemma store_do_le: "keeps store_le m \<Longrightarrow> keeps client_le (store_do m)"
  by (rule keepsI) (auto simp: store_do_def client_le_def Let_def case_prod_beta dest: keepsD)

interpretation cl: client_order client_le
  by unfold_locales
    (auto simp: client_le_def intro: st.R_refl st.R_trans store_do_le store_methods_le)

named_theorems client_keeps \<open>operations that respect the order on clients\<close>

lemma store_dos_le [client_keeps]:
  "keeps client_le (store_do (upsert_contact ik ck name))"
  "keeps client_le (store_do (set_contact_server_addr cid addr))"
  "keeps client_le (store_do (set_contact_transport_key cid k))"
  "keeps client_le (store_do (set_contact_pair_secret cid k))"
  "keeps client_le (store_do (set_contact_pending_otk cid otk))"
  "keeps client_le (store_do (increment_and_get_next_write_n cid))"
  "keeps client_le (store_do list_contacts)" "keeps client_le (store_do (get_contact cid))"
  "keeps client_le (store_do (load_session_pickle cid))" "keeps client_le (store_do get_last_synced_blob_id)"
  "keeps client_le (store_do (insert_message cid msg))" "keeps client_le (store_do (set_message_status cid mid stat))"
  "keeps client_le (store_do (set_message_status_by_msg_id mid stat))"
  "keeps client_le (store_do (save_session_pickle cid p))"
  "keeps client_le (store_do tick_lamport)" "keeps client_le (store_do (observe_lamport v))"
  "keeps client_le (store_do (save_account_pickle p))" "keeps client_le (store_do (set_last_synced_blob_id v))"
  "keeps client_le (store_do (set_own_server_addr a))"
  "keeps client_le (store_do increment_and_get_pointer_broadcast_seq)"
  by (rule store_do_le store_methods_le)+

lemma spawn_task_le [client_keeps]: "keeps client_le (spawn_task t)"
  by (rule keepsI) (simp add: spawn_task_def client_le_def st.R_refl)

lemma client_get_contact_le [client_keeps]: "keeps client_le (client_get_contact cid)"
  unfolding client_get_contact_def by (intro cl.keeps_intros client_keeps)

lemmas delivery_steps_le [client_keeps] = cl.keeps_delivery

lemma account_only_le: "client_le c (c\<lparr>cl_account := a\<rparr>)"
  by (simp add: client_le_def st.R_refl)

lemma set_account_le:
  assumes "keeps client_le m"
  shows "client_le c (snd (m (c\<lparr>cl_account := a\<rparr>)))"
  using account_only_le keepsD[OF assms] by (rule cl.R_trans)

lemma generate_one_time_key_le [client_keeps]: "keeps client_le (generate_one_time_key e)"
  unfolding generate_one_time_key_def
  by (intro cl.keeps_and_then client_keeps keepsI)
    (auto simp: generate_one_time_keys_def Let_def intro!: set_account_le cl.keeps_intros client_keeps)

lemma register_slots_le [client_keeps]: "keeps client_le (register_slots e a secret)"
  unfolding register_slots_def by (intro cl.keeps_intros client_keeps)

lemma own_server_le [client_keeps]:
  "keeps client_le (\<lambda>c. when_some (cl_server_addr c) (\<lambda>a. register_slots e a secret) c)"
  "keeps client_le (\<lambda>c. (Ok x, c\<lparr>cl_server_addr := addr\<rparr>))"
  by (rule cl.keeps_from_state, intro cl.keeps_intros client_keeps)
    (rule keepsI, simp add: client_le_def st.R_refl)

lemma add_contact_le [client_keeps]: "keeps client_le (add_contact e ik ck otk tk name addr secret)"
  unfolding add_contact_def by (intro cl.keeps_intros client_keeps)

lemma add_contact_from_payload_le [client_keeps]:
  "keeps client_le (add_contact_from_payload e their my_nonce name)"
  unfolding add_contact_from_payload_def by (intro cl.keeps_intros client_keeps)

lemma pairing_payload_le [client_keeps]: "keeps client_le (pairing_payload e)"
  unfolding pairing_payload_def
  by (intro cl.keeps_and_then client_keeps keepsI) (auto simp: cl.R_refl split: option.splits)

lemma server_addr_ops_le [client_keeps]:
  "keeps client_le (client_set_own_server_addr e addr)" "keeps client_le clear_own_server_addr"
  unfolding client_set_own_server_addr_def clear_own_server_addr_def
  by (intro cl.keeps_intros client_keeps)+

subsection \<open>Sending\<close>

lemma save_session_le [client_keeps]: "keeps client_le (save_session e cid ses)"
  unfolding save_session_def by (intro cl.keeps_intros client_keeps)

lemma open_session_le [client_keeps]: "keeps client_le (open_session e cid contact)"
  unfolding open_session_def
  by (intro cl.keeps_and_then client_keeps) (auto intro!: cl.keeps_intros client_keeps split: option.splits)

lemma deliver_le [client_keeps]: "keeps client_le (deliver e cid payload)"
  unfolding deliver_def deliver_in_session_def
  by (auto intro!: cl.keeps_intros client_keeps split: option.splits)

lemma send_le [client_keeps]: "keeps client_le (send e cid text)"
  unfolding send_def by (auto intro!: cl.keeps_intros client_keeps)

lemma send_receipt_le [client_keeps]: "keeps client_le (send_receipt e cid mid)"
  unfolding send_receipt_def by (intro cl.keeps_intros client_keeps)

lemma broadcast_le [client_keeps]: "keeps client_le (broadcast_pointer_update e)"
proof -
  have "keeps client_le (\<lambda>c. case cl_server_addr c of None \<Rightarrow> (Ok None, c)
      | Some addr \<Rightarrow> (case enc (env_addr e) addr of Inl err \<Rightarrow> (Panic, c) | Inr bs \<Rightarrow> (Ok (Some bs), c)))"
    by (rule cl.keeps_read) (simp split: option.splits sum.splits)
  then show ?thesis
    unfolding broadcast_pointer_update_def
    by (auto intro!: cl.keeps_intros client_keeps split: outcome.splits)
qed

lemma run_task_le [client_keeps]: "keeps client_le (run_task e t)"
  by (cases t) (auto intro: client_keeps)


subsection \<open>Receiving\<close>

lemma get_contact_row:
  assumes "get_contact cid s = (Ok (Some contact), s')"
  obtains r where "r \<in> set (contacts s)" and "row_to_contact r = Ok contact" and "c_id r = cid" and "s' = s"
proof -
  from assms obtain cs where cs: "list_contacts s = (Ok cs, s')" and f: "find (\<lambda>c. cr_id c = cid) cs = Some contact"
    by (auto simp: get_contact_def and_then_Ok_iff)
  from cs have "map row_to_contact (sort_key c_id (contacts s)) = map Ok cs" and s': "s' = s"
    by (auto simp: list_contacts_def collect_rows_Ok_iff)
  moreover from f have contact: "contact \<in> set cs" "cr_id contact = cid"
    by (auto simp: find_Some_iff in_set_conv_nth)
  ultimately have "Ok contact \<in> row_to_contact ` set (contacts s)"
    by (metis (no_types, lifting) image_eqI list.set_map set_sort)
  then obtain r where r: "r \<in> set (contacts s)" "row_to_contact r = Ok contact" by auto
  then have "c_id r = cid" using contact(2) by (auto simp: row_to_contact_def bind_outcome_Ok_iff)
  with r s' that show ?thesis by blast
qed

lemma row_to_contact_seq: "row_to_contact r = Ok contact \<Longrightarrow> pointer_seq contact = as_u64 (c_pointer_seq r)"
  by (auto simp: row_to_contact_def bind_outcome_Ok_iff)

lemma client_get_contact_OkE:
  assumes "client_get_contact cid c = (Ok contact, c')"
  obtains r where "r \<in> set (contacts (cl_store c))" and "row_to_contact r = Ok contact" and "c_id r = cid"
    and "c' = c"
proof -
  from assms obtain s' where "get_contact cid (cl_store c) = (Ok (Some contact), s')" and c': "c' = c\<lparr>cl_store := s'\<rparr>"
    by (auto simp: client_get_contact_def and_then_Ok_iff store_do_def require_def lift_outcome_def Let_def
        split: prod.splits)
  then show ?thesis using that by (elim get_contact_row) auto
qed

text \<open>An accepted update moves the sequence number forward, which is where the check is needed.\<close>

lemma pointer_update_le:
  assumes "unique_ids s" and "r \<in> set (contacts s)" and "c_id r = cid" and "as_u64 (c_pointer_seq r) < seq"
  shows "store_le s (snd (set_contact_pointer_update cid addr ua seq s))"
proof -
  have "r' = r" if "r' \<in> set (contacts s)" "c_id r' = cid" for r'
    using that assms by (auto simp: unique_ids_def distinct_map inj_on_def)
  with assms(4) show ?thesis
    unfolding set_contact_pointer_update_def by (intro update_contact_le) (auto simp: row_le_def)
qed

lemma pointer_branch_le:
  fixes e :: "('acc, 'ses, 'r, 'addr, 'w) env"
  shows "keeps (client_le :: ('acc, 'addr, 'w) client \<Rightarrow> _) (and_then (client_get_contact cid) (\<lambda>contact.
     and_then (lift_outcome (pointer_update_is_valid (env_ed e) (env_pointer e)
         (identity_key contact) (pointer_seq contact) addr ua seq sig)) (\<lambda>valid.
     and_then (if valid then store_do (set_contact_pointer_update cid addr ua seq) else pure ())
       (\<lambda>_. pure AttrPointerUpdate))))"
proof (rule keepsI, rule cl.and_then_step)
  fix c :: "('acc, 'addr, 'w) client"
  show "client_le c (snd (client_get_contact cid c))" by (rule keepsD[OF client_get_contact_le])
next
  fix c c' :: "('acc, 'addr, 'w) client" and contact
  assume "client_get_contact cid c = (Ok contact, c')"
  then obtain r where r: "r \<in> set (contacts (cl_store c))" "row_to_contact r = Ok contact" "c_id r = cid"
    and c': "c' = c" by (rule client_get_contact_OkE)
  have upd: "client_le c' (snd (store_do (set_contact_pointer_update cid addr ua seq) c'))"
    if "pointer_seq contact < seq"
  proof -
    have "store_le (cl_store c) (snd (set_contact_pointer_update cid addr ua seq (cl_store c)))"
    proof (cases "unique_ids (cl_store c)")
      case True
      from pointer_update_le[OF True r(1,3)] that show ?thesis by (simp add: row_to_contact_seq[OF r(2)])
    qed (simp add: store_le_def)
    then show ?thesis by (simp add: store_do_def c' client_le_def Let_def case_prod_beta)
  qed
  show "client_le c' (snd (and_then (lift_outcome (pointer_update_is_valid (env_ed e) (env_pointer e)
         (identity_key contact) (pointer_seq contact) addr ua seq sig)) (\<lambda>valid.
     and_then (if valid then store_do (set_contact_pointer_update cid addr ua seq) else pure ())
       (\<lambda>_. pure AttrPointerUpdate)) c'))"
  proof (rule cl.and_then_step)
    fix valid c'' assume "lift_outcome (pointer_update_is_valid (env_ed e) (env_pointer e)
         (identity_key contact) (pointer_seq contact) addr ua seq sig) c' = (Ok valid, c'')"
    then have "c'' = c'" and "valid \<Longrightarrow> pointer_seq contact < seq"
      by (auto simp: lift_outcome_def pointer_update_is_valid_def bind_outcome_Ok_iff)
    with upd show "client_le c'' (snd (and_then (if valid then store_do (set_contact_pointer_update cid addr ua seq)
        else pure ()) (\<lambda>_. pure AttrPointerUpdate) c''))"
      by (intro cl.and_then_step) (auto simp: pure_def cl.R_refl)
  qed (simp add: lift_outcome_def cl.R_refl)
qed

lemma handle_decrypted_le [client_keeps]: "keeps client_le (handle_decrypted e cid envelope plaintext)"
  unfolding handle_decrypted_def
  by (auto intro!: cl.keeps_intros client_keeps pointer_branch_le split: option.splits PlaintextPayload.splits)

lemma try_contact_le [client_keeps]: "keeps client_le (try_contact e envelope contact)"
proof -
  have with_session: "keeps client_le (try_session e envelope cid ses)" for cid ses
    unfolding try_session_def
    by (auto intro!: cl.keeps_intros client_keeps split: prod.splits outcome.splits)
  have first: "keeps client_le (try_first_message e envelope contact)"
    by (rule keepsI)
      (auto intro!: set_account_le cl.keeps_intros client_keeps simp: account_only_le try_first_message_def
        split: prod.splits outcome.splits)
  show ?thesis
    unfolding try_contact_def
    by (auto intro!: cl.keeps_intros client_keeps with_session first split: option.splits)
qed

lemma attribute_among_le [client_keeps]: "keeps client_le (attribute_among e envelope cs)"
  by (induction cs) (auto intro!: cl.keeps_intros client_keeps split: option.splits)

lemma attribute_and_store_le [client_keeps]: "keeps client_le (attribute_and_store e envelope)"
  unfolding attribute_and_store_def by (intro cl.keeps_intros client_keeps)

lemma process_blobs_le [client_keeps]: "keeps client_le (process_blobs e new_blobs acc)"
  by (induction e new_blobs acc rule: process_blobs.induct)
    (auto intro!: cl.keeps_intros client_keeps simp: Let_def split: outcome.splits)

lemma sync_le [client_keeps]: "keeps client_le (sync e)"
  unfolding sync_def
  by (auto intro!: cl.keeps_intros client_keeps cl.keeps_poll_failed split: NodeResponse.splits)

lemma direct_ack_le [client_keeps]: "keeps client_le (direct_ack e bs)"
  unfolding direct_ack_def
  by (auto intro!: cl.keeps_intros client_keeps split: outcome.splits)

interpretation same: step_order "(=)"
  by unfold_locales simp_all

lemma assemble_reads: "keeps (=) assemble"
proof -
  have reads: "keeps (=) (from_store load_account_pickle)" "keeps (=) (from_store get_own_server_addr)"
    "keeps (=) (from_store get_pointer_broadcast_seq)" "keeps (=) (from_store list_contacts)"
    "keeps (=) (from_store (load_session_pickle cid))" "keeps (=) (from_store (messages_for_contact cid))" for cid
    by (rule same.keeps_read; simp add: load_account_pickle_def get_own_server_addr_def
        get_pointer_broadcast_seq_def list_contacts_def load_session_pickle_def messages_for_contact_def
        split: option.splits)+
  have "keeps (=) (assemble_contacts cs)" for cs
    by (induction cs) (auto intro!: same.keeps_intros reads)
  with reads show ?thesis
    unfolding assemble_def by (auto intro!: same.keeps_intros)
qed

lemma encrypted_bundle_le [client_keeps]: "keeps client_le (encrypted_bundle e)"
proof -
  have "keeps client_le (\<lambda>c. (let (r, s') = assemble (cl_store c) in (r, c\<lparr>cl_store := s'\<rparr>)))"
    by (rule cl.keeps_read) (use assemble_reads in \<open>auto simp: keeps_def Let_def case_prod_beta\<close>)
  then show ?thesis
    unfolding encrypted_bundle_def by (auto intro!: cl.keeps_intros client_keeps)
qed

lemma backup_ops_le [client_keeps]: "keeps client_le (export_backup e)" "keeps client_le (push_backup e)"
  unfolding export_backup_def push_backup_def by (auto intro!: cl.keeps_intros client_keeps)

section \<open>The client as a step relation\<close>

text \<open>
  Operations are taken one after the other, each from its beginning to its end; tasks the client has
  spawned run in any order, and the outside world may change between any two steps. In the program
  only deliveries exclude each other (\<^verbatim>\<open>send_lock\<close>, in \<^verbatim>\<open>Core_Concurrent\<close>): the tokio
  runtime has several threads, and \<^verbatim>\<open>attribute_and_store\<close> and \<^verbatim>\<open>handle_decrypted\<close> read a
  contact and write it back in separate statements under no lock, so two of them that overlap are
  outside this relation. (Each announcement is checked against the sequence number read before; of
  two announcements handled at the same moment the older may be written last.)
\<close>

inductive client_step ::
  "('acc, 'ses, 'r, 'addr, 'w) env \<Rightarrow> ('acc, 'addr, 'w) client \<Rightarrow> ('acc, 'addr, 'w) client \<Rightarrow> bool"
  for e where
  step_send: "client_step e c (snd (send e cid text c))"
| step_sync: "client_step e c (snd (sync e c))"
| step_direct: "direct_accept e bs (Some c) = (r, Some c') \<Longrightarrow> client_step e c c'"
| step_task: "cl_spawned c = before @ t # after \<Longrightarrow>
    client_step e c (snd (run_task e t (c\<lparr>cl_spawned := before @ after\<rparr>)))"
| step_payload: "client_step e c (snd (pairing_payload e c))"
| step_one_time_key: "client_step e c (snd (generate_one_time_key e c))"
| step_add: "client_step e c (snd (add_contact e ik ck otk tk name addr secret c))"
| step_add_payload: "client_step e c (snd (add_contact_from_payload e their my_nonce name c))"
| step_set_server: "client_step e c (snd (client_set_own_server_addr e a c))"
| step_clear_server: "client_step e c (snd (clear_own_server_addr c))"
| step_push: "client_step e c (snd (push_backup e c))"
| step_export: "client_step e c (snd (export_backup e c))"
| step_world: "client_step e c (c\<lparr>cl_world := w\<rparr>)"

lemma direct_accept_le:
  assumes "direct_accept e bs (Some c) = (r, Some c')"
  shows "client_le c c'"
proof (cases "length bs > MAX_MESSAGE_SIZE")
  case True
  with assms show ?thesis by (simp add: direct_accept_def fail_def cl.R_refl)
next
  case False
  with assms have "c' = snd (direct_ack e bs c)"
    by (auto simp: direct_accept_def and_then_def lift_outcome_def Let_def split: prod.splits outcome.splits sum.splits)
  then show ?thesis using keepsD[OF direct_ack_le] by metis
qed

lemma other_fields_le:
  "client_le c (c\<lparr>cl_world := w\<rparr>)" "client_le c (c\<lparr>cl_spawned := ts\<rparr>)"
  by (simp_all add: client_le_def st.R_refl)

lemma client_step_le: "client_step e c c' \<Longrightarrow> client_le c c'"
proof (induction rule: client_step.induct)
  case (step_task c before t after)
  show ?case using other_fields_le(2) keepsD[OF run_task_le] by (rule cl.R_trans)
qed (auto intro: keepsD client_keeps direct_accept_le other_fields_le)

section \<open>Properties\<close>

text \<open>
  C13: nothing the client has is undone. Whatever sequence of operations, incoming connections
  and background tasks runs one after the other, successful or not: no contact disappears or changes its identity
  key, no write counter and no pointer sequence number goes back (so an address announcement, once
  superseded, is never applied again and a write authorisation is never used twice), every stored
  message keeps its place, sender, text and time, and the Lamport clock and the broadcast counter
  never go back.
\<close>

theorem client_never_goes_back:
  assumes "(client_step e)\<^sup>*\<^sup>* c c'" and "unique_ids (cl_store c)"
  shows "unique_ids (cl_store c')
    \<and> (\<forall>r \<in> set (contacts (cl_store c)). \<exists>r' \<in> set (contacts (cl_store c')).
         c_id r' = c_id r \<and> c_identity_key r' = c_identity_key r
       \<and> c_next_write_n r \<le> c_next_write_n r'
       \<and> as_u64 (c_pointer_seq r) \<le> as_u64 (c_pointer_seq r'))
    \<and> prefix (map fixed_part (messages (cl_store c))) (map fixed_part (messages (cl_store c')))
    \<and> local_clock (cl_store c) \<le> local_clock (cl_store c')
    \<and> broadcast_seq (cl_store c) \<le> broadcast_seq (cl_store c')"
proof -
  have "client_le c c'" using client_step_le assms(1) by (rule cl.keeps_rtranclp)
  with assms(2) show ?thesis
    by (simp add: client_le_def store_le_def store_grows_def contacts_le_def row_le_def)
qed

theorem client_never_goes_back_witness:
  "(let c = sample_client sample_store None (); c' = snd (send (sample_env dead_network) 1 [7] c) in
     unique_ids (cl_store c) \<and> (client_step (sample_env dead_network))\<^sup>*\<^sup>* c c'
     \<and> local_clock (cl_store c) \<le> local_clock (cl_store c'))"
proof -
  let ?c = "sample_client sample_store None ()"
  let ?c' = "snd (send (sample_env dead_network) 1 [7] ?c)"
  have step: "(client_step (sample_env dead_network))\<^sup>*\<^sup>* ?c ?c'"
    by (rule r_into_rtranclp) (rule client_step.step_send)
  have u: "unique_ids (cl_store ?c)" using sample_store_wf by (simp add: unique_ids_def store_wf_def)
  from client_never_goes_back[OF step u] step u show ?thesis by (simp add: Let_def)
qed

end
