(* ===== verification/Core_Delivery.thy ===== *)
theory Core_Delivery
  imports Core_Progress
begin

text \<open>
  What sending and receiving do to the store of one client: address announcements, sent and
  received messages, the synchronisation watermark, and the one-time key that a failed first
  delivery loses.
\<close>

section \<open>Address announcements\<close>

definition announcement_accepted ::
  "ed25519 \<Rightarrow> contact_row \<Rightarrow> bytes \<Rightarrow> u64 \<Rightarrow> bytes \<Rightarrow> bool" where
  "announcement_accepted ed r m seq sig \<longleftrightarrow>
     ed_key_valid ed (c_identity_key r) \<and> length sig = 64
   \<and> ed_verify_strict ed (c_identity_key r) m sig \<and> as_u64 (c_pointer_seq r) < seq"

lemma pointer_update_is_valid_iff:
  assumes "enc (env_pointer e) (addr, ua, seq) = Inr m"
  shows "pointer_update_is_valid (env_ed e) (env_pointer e) (identity_key (contact_of r))
      (pointer_seq (contact_of r)) addr ua seq sig = Ok (announcement_accepted (env_ed e) r m seq sig)"
  using assms
  by (auto simp: pointer_update_is_valid_def verify_pointer_update_def pointer_update_signed_bytes_def
      announcement_accepted_def contact_of_def to_array_def)

lemma client_get_contact_ok:
  assumes "store_wf (cl_store c)" and "lookup_row c_id cid (contacts (cl_store c)) = Some r"
  shows "client_get_contact cid c = (Ok (contact_of r), c)"
  using assms by (simp add: client_get_contact_def and_then_def store_do_def get_contact_ok require_def lift_outcome_def)

lemma handle_announcement:
  assumes "store_wf (cl_store c)" and "lookup_row c_id cid (contacts (cl_store c)) = Some r"
    and "payload_deserialize (env_payload e) plaintext = Some (MailboxPointerUpdate addr ua seq sig)"
    and "enc (env_pointer e) (addr, ua, seq) = Inr m"
  shows "handle_decrypted e cid envelope plaintext c = (Ok AttrPointerUpdate,
    if announcement_accepted (env_ed e) r m seq sig
    then c\<lparr>cl_store := snd (set_contact_pointer_update cid addr ua seq (cl_store c))\<rparr> else c)"
  using assms(3)
  by (simp add: handle_decrypted_def and_then_def client_get_contact_ok[OF assms(1,2)] lift_outcome_def
      pointer_update_is_valid_iff[where r = r, OF assms(4)] store_do_def pure_def
      set_contact_pointer_update_def update_contact_def)

text \<open>
  C17: an address announcement is applied exactly when it should be. It is when the signature
  verifies under the identity key stored for the sender and its sequence number is larger than
  that of the last one applied; then the sender's record has the announced address and no other
  contact changes. Otherwise nothing changes. Receiving the same announcement again never changes
  anything, and what the key's owner signs with a larger number is always applied.
\<close>

theorem announcement_applied_iff_newer:
  assumes "store_wf (cl_store c)" and "lookup_row c_id cid (contacts (cl_store c)) = Some r"
    and "payload_deserialize (env_payload e) plaintext = Some (MailboxPointerUpdate addr ua seq sig)"
    and "enc (env_pointer e) (addr, ua, seq) = Inr m"
  shows "\<exists>c'. handle_decrypted e cid envelope plaintext c = (Ok AttrPointerUpdate, c')
    \<and> (if announcement_accepted (env_ed e) r m seq sig
       then fst (get_contact cid (cl_store c')) = Ok (Some ((contact_of r)\<lparr>server_addr := addr,
              pointer_updated_at := ua, pointer_seq := seq\<rparr>))
          \<and> (\<forall>other. other \<noteq> cid \<longrightarrow> fst (get_contact other (cl_store c')) = fst (get_contact other (cl_store c)))
       else c' = c)
    \<and> handle_decrypted e cid envelope' plaintext c' = (Ok AttrPointerUpdate, c')
    \<and> (ed25519_documented (env_ed e) \<longrightarrow> c_identity_key r = ed_public (env_ed e) sk
         \<longrightarrow> sign_pointer_update (env_ed e) (env_pointer e) sk addr ua seq = Ok sig
         \<longrightarrow> as_u64 (c_pointer_seq r) < seq \<longrightarrow> announcement_accepted (env_ed e) r m seq sig)"
proof -
  let ?upd = "snd (set_contact_pointer_update cid addr ua seq (cl_store c))"
  let ?f = "\<lambda>r. r\<lparr>c_server_addr := addr, c_pointer_updated_at := as_i64 ua, c_pointer_seq := as_i64 seq\<rparr>"
  have wf': "store_wf ?upd" using assms(1) by auto
  have row': "lookup_row c_id cid (contacts ?upd) = Some (?f r)"
    using assms(2) by (simp add: set_contact_pointer_update_def update_contact_def lookup_row_update_where)
  have seen: "\<not> announcement_accepted (env_ed e) (?f r) m seq sig" by (simp add: announcement_accepted_def)
  have honest: "announcement_accepted (env_ed e) r m seq sig"
    if "ed25519_documented (env_ed e)" "c_identity_key r = ed_public (env_ed e) sk"
      "sign_pointer_update (env_ed e) (env_pointer e) sk addr ua seq = Ok sig" "as_u64 (c_pointer_seq r) < seq"
    using signed_update_verifies[OF that(1,3)] that(2,4) assms(4)
    by (auto simp: announcement_accepted_def verify_pointer_update_def pointer_update_signed_bytes_def
        split: if_splits)
  have reads: "fst (get_contact cid ?upd) = Ok (Some ((contact_of r)\<lparr>server_addr := addr,
        pointer_updated_at := ua, pointer_seq := seq\<rparr>))"
      "\<forall>other. other \<noteq> cid \<longrightarrow> fst (get_contact other ?upd) = fst (get_contact other (cl_store c))"
    using get_contact_after_update[OF assms(1), of cid ?f] wf' assms(2)
    by (simp_all add: set_contact_pointer_update_def contact_of_setters)
  show ?thesis
  proof (cases "announcement_accepted (env_ed e) r m seq sig")
    case True
    with handle_announcement[OF assms] handle_announcement[of "c\<lparr>cl_store := ?upd\<rparr>", OF _ _ assms(3,4)]
      wf' row' seen reads honest show ?thesis by simp
  next
    case False
    with handle_announcement[OF assms] honest show ?thesis by auto
  qed
qed

definition dead_env :: "(unit, unit, unit, nat, unit) env" where
  "dead_env = sample_env dead_network"

theorem announcement_applied_iff_newer_witness:
  "\<exists>c'. handle_decrypted dead_env 1 sample_envelope [2] (sample_client sample_store None ())
        = (Ok AttrPointerUpdate, c')
     \<and> fst (get_contact 1 (cl_store c')) = Ok (Some (sample_contact\<lparr>server_addr := None,
          pointer_updated_at := 0, pointer_seq := 7\<rparr>))"
proof -
  let ?c = "sample_client sample_store None ()"
  have wf: "store_wf (cl_store ?c)" using sample_store_wf by simp
  from sample_store_contact obtain r where row: "lookup_row c_id 1 (contacts (cl_store ?c)) = Some r"
    and r: "contact_of r = sample_contact"
    by (auto simp: get_contact_ok[OF sample_store_wf])
  have p: "payload_deserialize (env_payload dead_env) [2] = Some (MailboxPointerUpdate None 0 7 (replicate 64 1))"
    by (simp add: payload_deserialize_def sample_payload_codec_def dead_env_def)
  have enc: "enc (env_pointer dead_env) (None, 0, 7) = Inr []"
    by (simp add: sample_env_def dead_env_def)
  have "pointer_seq (contact_of r) = as_u64 (c_pointer_seq r)" by (simp add: contact_of_def)
  then have "announcement_accepted (env_ed dead_env) r [] 7 (replicate 64 1)"
    by (simp add: announcement_accepted_def sample_env_def dead_env_def r sample_contact_def)
  with announcement_applied_iff_newer[OF wf row p enc, of sample_envelope] show ?thesis
    unfolding r by auto
qed

section \<open>A failed first delivery\<close>

text \<open>Sessions and pending keys, which delivering over the network does not touch.\<close>

definition same_keys :: "store \<Rightarrow> store \<Rightarrow> bool" where
  "same_keys s s' \<longleftrightarrow> sessions s' = sessions s
     \<and> map (\<lambda>r. (c_id r, c_pending_otk r)) (contacts s') = map (\<lambda>r. (c_id r, c_pending_otk r)) (contacts s)"

definition client_same_keys :: "('acc, 'addr, 'w) client \<Rightarrow> ('acc, 'addr, 'w) client \<Rightarrow> bool" where
  "client_same_keys c c' \<longleftrightarrow> same_keys (cl_store c) (cl_store c')"

interpretation sk: client_order client_same_keys
  by unfold_locales
    (auto intro!: keepsI simp: client_same_keys_def same_keys_def store_do_def tick_lamport_def current_def
      increment_and_get_next_write_n_def and_then_def update_contact_def Let_def map_update_where
      split: option.splits)

text \<open>Nothing can be encrypted for the contact: there is no session and no one-time key.\<close>

definition stranded :: "i64 \<Rightarrow> store \<Rightarrow> bool" where
  "stranded cid s \<longleftrightarrow> lookup_row s_contact_id cid (sessions s) = None
     \<and> (\<forall>r \<in> set (contacts s). c_id r = cid \<longrightarrow> c_pending_otk r = None)"

lemma stranded_same_keys:
  assumes "same_keys s s'" and "stranded cid s"
  shows "stranded cid s'"
proof -
  have "c_pending_otk r' = None" if "r' \<in> set (contacts s')" "c_id r' = cid" for r'
  proof -
    have "(c_id r', c_pending_otk r') \<in> set (map (\<lambda>r. (c_id r, c_pending_otk r)) (contacts s))"
      using that(1) assms(1) by (metis (no_types, lifting) image_eqI list.set_map same_keys_def)
    then show ?thesis using that(2) assms(2) by (auto simp: stranded_def)
  qed
  with assms show ?thesis by (simp add: stranded_def same_keys_def)
qed

lemma load_session_none:
  "lookup_row s_contact_id cid (sessions (cl_store c)) = None
    \<Longrightarrow> store_do (load_session_pickle cid) c = (Ok None, c)"
  by (simp add: store_do_def load_session_pickle_def)

lemma stranded_open_session:
  assumes "lookup_row s_contact_id cid (sessions (cl_store c)) = None"
    and "open_session e cid contact c = (Ok ses, c')"
  shows "stranded cid (cl_store c')"
proof -
  from assms(2) obtain r w where
    "and_then (store_do (set_contact_pending_otk cid None)) (\<lambda>_. pure ses) (c\<lparr>cl_world := w\<rparr>) = (Ok ses, c')"
    unfolding open_session_def
    by (simp add: and_then_Ok_iff[of _ _ c] load_session_none[OF assms(1)])
      (auto simp: and_then_Ok_iff require_def lift_outcome_def world_do_def pure_def Let_def split: prod.splits)
  then have "cl_store c' = cl_store (snd (and_then (store_do (set_contact_pending_otk cid None)) (\<lambda>_. pure ses)
      (c\<lparr>cl_world := w\<rparr>)))" by simp
  also have "\<dots> = snd (set_contact_pending_otk cid None (cl_store c))"
    by (simp add: and_then_def store_do_def set_contact_pending_otk_def update_contact_def pure_def)
  finally have c': "cl_store c' = snd (set_contact_pending_otk cid None (cl_store c))" .
  have "\<forall>r \<in> set (update_where (\<lambda>r. c_id r = cid) (c_pending_otk_update (\<lambda>_. None)) rows).
      c_id r = cid \<longrightarrow> c_pending_otk r = None" for rows
    by (induction rows) simp_all
  with assms(1) show ?thesis
    by (simp add: stranded_def c' set_contact_pending_otk_def update_contact_def)
qed

lemma collect_rows_no_panic: "(\<And>r. f r \<noteq> Panic) \<Longrightarrow> collect_rows f rs \<noteq> Panic"
proof (induction rs)
  case (Cons r rs)
  then show ?case by (cases "f r"; cases "collect_rows f rs") auto
qed simp

lemma row_to_contact_no_panic: "row_to_contact r \<noteq> Panic"
  by (cases "get_i64 (c_next_write_n r)"; cases "to_array 32 (c_identity_key r)";
      cases "to_array 32 (c_curve25519_key r)") (simp_all add: row_to_contact_def del: to_array_Some_iff)

lemma client_get_contact_cases:
  obtains (found) contact where "client_get_contact cid c = (Ok contact, c)"
  | (missing) err where "client_get_contact cid c = (Err err, c)"
proof -
  have "collect_rows row_to_contact (sort_key c_id (contacts (cl_store c))) \<noteq> Panic"
    by (rule collect_rows_no_panic) (rule row_to_contact_no_panic)
  then have "\<exists>r. client_get_contact cid c = (r, c) \<and> r \<noteq> Panic"
    by (cases "collect_rows row_to_contact (sort_key c_id (contacts (cl_store c)))")
      (auto simp: client_get_contact_def and_then_def store_do_def get_contact_def list_contacts_def
        require_def lift_outcome_def ok_or_def split: option.splits)
  then show ?thesis using that by (metis outcome.exhaust)
qed

lemma stranded_deliver:
  assumes "stranded cid (cl_store c)"
  shows "\<exists>err. deliver e cid p c = (Err err, c)"
proof (cases rule: client_get_contact_cases[of cid c])
  case (found contact)
  then obtain row where row: "row \<in> set (contacts (cl_store c))" "row_to_contact row = Ok contact" "c_id row = cid"
    by (auto elim: client_get_contact_OkE)
  then have "pending_otk contact = None"
    using assms by (auto simp: stranded_def row_to_contact_def bind_outcome_Ok_iff)
  moreover have "store_do (load_session_pickle cid) c = (Ok None, c)"
    using assms by (intro load_session_none) (simp add: stranded_def)
  ultimately have "open_session e cid contact c = (Err NoSessionAvailable, c)"
    by (simp add: open_session_def and_then_def require_def lift_outcome_def)
  with found show ?thesis by (simp add: deliver_def and_then_def)
next
  case (missing err)
  then show ?thesis by (simp add: deliver_def and_then_def)
qed

lemma save_session_err_same_keys: "keeps_err client_same_keys (save_session e cid ses)"
  by (auto simp: keeps_err_def save_session_def and_then_def lift_outcome_def store_do_def
      save_session_pickle_def client_same_keys_def same_keys_def split: outcome.splits if_splits)

lemma deliver_in_session_err_same_keys: "keeps_err client_same_keys (deliver_in_session e cid contact p ses)"
  unfolding deliver_in_session_def
  by (auto intro!: sk.keeps_err_and_then sk.keeps_delivery sk.keeps_err_end save_session_err_same_keys
      split: option.splits)

text \<open>A store with one contact that has been paired with and not written to.\<close>

definition paired_row :: "bytes option \<Rightarrow> contact_row" where
  "paired_row addr = \<lparr>c_id = 1, c_identity_key = replicate 32 1, c_curve25519_key = replicate 32 2,
     c_display_name = None, c_server_addr = addr, c_pair_secret = Some (replicate 32 4),
     c_next_write_n = Integer 0, c_pending_otk = Some (replicate 32 6), c_transport_key = Some (replicate 32 5),
     c_pointer_updated_at = 0, c_pointer_seq = 0\<rparr>"

definition paired_store :: "bytes option \<Rightarrow> store" where
  "paired_store addr = (empty_store True)\<lparr>contacts := [paired_row addr]\<rparr>"

lemma paired_store_wf: "store_wf (paired_store addr)"
  by (simp add: paired_store_def store_wf_def empty_store_def contact_ok_def paired_row_def i64_max_def)

lemma paired_store_simps [simp]:
  "contacts (paired_store addr) = [paired_row addr]" "sessions (paired_store addr) = []"
  "messages (paired_store addr) = []" "local_clock (paired_store addr) = Integer 0"
  "foreign_keys (paired_store addr) = True" "account (paired_store addr) = None"
  by (simp_all add: paired_store_def empty_store_def)

lemma paired_contact:
  assumes "cl_store c = paired_store addr"
  shows "client_get_contact 1 c = (Ok (contact_of (paired_row addr)), c)"
  by (rule client_get_contact_ok) (simp_all add: assms paired_store_wf, simp add: paired_row_def)

lemma paired_record [simp]:
  "pending_otk (contact_of (paired_row addr)) = Some (replicate 32 6)"
  "server_addr (contact_of (paired_row addr)) = addr"
  "contact_transport_key (contact_of (paired_row addr)) = Some (replicate 32 5)"
  "pair_secret (contact_of (paired_row addr)) = Some (replicate 32 4)"
  by (simp_all add: contact_of_def paired_row_def)

lemmas run_simps = and_then_def store_do_def world_do_def require_def lift_outcome_def pure_def fail_def
  attempt_def Let_def

text \<open>Environments that agree with the sample one on everything but networks and serialisers.\<close>

definition sample_like :: "(unit, unit, unit, nat, 'w) env \<Rightarrow> bool" where
  "sample_like e \<longleftrightarrow> env_olm e = sample_olm \<and> env_payload e = sample_payload_codec
     \<and> env_olm_random e = Pair () \<and> env_random e = (\<lambda>n. Pair (replicate n 9)) \<and> env_now e = Pair 5
     \<and> (\<forall>a b w. env_times_out e a b w = None) \<and> (\<forall>k. env_endpoint_addr e k = Inr (length k))"

lemma sample_env_like [simp]: "sample_like (sample_env net)"
  by (simp add: sample_like_def sample_env_def fun_eq_iff)

lemma paired_open_session:
  assumes "sample_like e"
  shows "open_session e 1 (contact_of (paired_row addr)) (sample_client (paired_store addr) own w) =
    (Ok (), sample_client (snd (set_contact_pending_otk 1 None (paired_store addr))) own w)"
  using assms
  by (simp add: sample_like_def open_session_def run_simps load_session_pickle_def create_outbound_session_def sample_olm_def
      set_contact_pending_otk_def update_contact_def sample_client_def)

lemma sample_encrypt:
  assumes "sample_like e"
  shows "encrypt_payload e (Chat t) () (sample_client s own w) = (Ok ((), 1, 0 # t), sample_client s own w)"
  using assms
  by (simp add: sample_like_def encrypt_payload_def run_simps payload_serialize_def sample_payload_codec_def session_encrypt_def
      sample_olm_def sample_client_def)

lemma sample_world_do:
  assumes "sample_like e"
  shows "world_do (env_random e n) c = (Ok (replicate n 9), c)" "world_do (env_now e) c = (Ok 5, c)"
  using assms by (simp_all add: sample_like_def world_do_def)

lemma sample_tick:
  assumes "local_clock s = Integer 0"
  shows "store_do tick_lamport (sample_client s own w) = (Ok 1, sample_client (s\<lparr>local_clock := Integer 1\<rparr>) own w)"
  using assms by (simp add: store_do_def tick_lamport_def current_def i64_max_def sample_client_def as_u64_def)

lemma sample_envelope_bytes:
  assumes "length ct \<le> 4092"
  obtains b where "envelope_bytes_of (sample_env net) otype ct n lam at mid c = (Ok b, c)" and "pad ct = Ok b"
proof -
  from assms pad_Ok_iff obtain b where "pad ct = Ok b" by blast
  then show ?thesis
    using that by (simp add: envelope_bytes_of_def lift_outcome_def to_padded_bytes_def Envelope_new_def
        sample_envelope_codec_def)
qed

lemma dead_direct:
  assumes "contact_transport_key contact = Some k" and "cl_server_addr c = None" and "length ct \<le> 4092"
  shows "deliver_direct (sample_env dead_network) contact otype ct lam at mid c
    = (Err (TransportErr (Connect [])), c)"
proof -
  obtain b where b: "envelope_bytes_of (sample_env dead_network) otype ct 0 lam at mid c = (Ok b, c)"
    by (rule sample_envelope_bytes[OF assms(3)])
  have "attempt (try_direct (sample_env dead_network) (length k) b) c
      = (Ok (Err (TransportErr (Connect []))) :: (_, CoreError) outcome, c)"
    by (simp add: attempt_def try_direct_def call_direct_def and_then_def dead_network_def)
  with b assms(1,2) show ?thesis
    by (simp add: deliver_direct_def and_then_def require_def lift_outcome_def)
qed

lemma dead_delivery:
  "\<exists>c'. deliver dead_env 1 (Chat [7]) (sample_client (paired_store None) None ()) = (Err (TransportErr (Connect [])), c')"
proof -
  let ?s = "snd (set_contact_pending_otk 1 None (paired_store None))"
  have clock: "local_clock ?s = Integer 0" by (simp add: set_contact_pending_otk_def update_contact_def)
  have "deliver_in_session dead_env 1 (contact_of (paired_row None)) (Chat [7]) () (sample_client ?s None ())
      = (Err (TransportErr (Connect [])), sample_client (?s\<lparr>local_clock := Integer 1\<rparr>) None ())"
    unfolding dead_env_def deliver_in_session_def
    by (simp add: and_then_def sample_encrypt sample_world_do sample_tick[OF clock] dead_direct)
  then show ?thesis
    by (simp add: deliver_def and_then_def paired_contact dead_env_def paired_open_session)
qed

section \<open>Sent messages\<close>

definition same_messages :: "('acc, 'addr, 'w) client \<Rightarrow> ('acc, 'addr, 'w) client \<Rightarrow> bool" where
  "same_messages c c' \<longleftrightarrow> messages (cl_store c') = messages (cl_store c)"

interpretation sm: client_order same_messages
  by unfold_locales
    (auto intro!: keepsI simp: same_messages_def store_do_def tick_lamport_def current_def
      increment_and_get_next_write_n_def and_then_def update_contact_def Let_def split: option.splits)

lemma store_do_same_messages:
  "keeps same_messages (store_do (get_contact cid))" "keeps same_messages (store_do (load_session_pickle cid))"
  "keeps same_messages (store_do (set_contact_pending_otk cid k))"
  "keeps same_messages (store_do (save_session_pickle cid p))"
  by (rule keepsI; simp add: same_messages_def store_do_def get_contact_def and_then_def list_contacts_def
      load_session_pickle_def set_contact_pending_otk_def update_contact_def save_session_pickle_def
      split: outcome.splits)+

lemma deliver_same_messages: "keeps same_messages (deliver e cid payload)"
proof -
  have "keeps same_messages (open_session e cid contact)" for contact
    unfolding open_session_def
    by (auto intro!: sm.keeps_intros sm.keeps_delivery store_do_same_messages split: option.splits)
  then show ?thesis
    unfolding deliver_def deliver_in_session_def client_get_contact_def save_session_def
    by (auto intro!: sm.keeps_intros sm.keeps_delivery store_do_same_messages split: option.splits)
qed

text \<open>
  How an encrypted message is handed over, from \<open>c\<close> to \<open>c'\<close>, and what its status is then: to the
  contact's server, which has accepted it; to the contact; or to the own server, after the contact
  could not be reached. What is handed over is the padded envelope with the given id, Lamport time and
  time.
\<close>

definition to_their_server ::
  "('acc, 'ses, 'r, 'addr, 'w) env \<Rightarrow> i64 \<Rightarrow> ContactRecord \<Rightarrow> bytes \<Rightarrow> (u64 \<Rightarrow> Envelope)
    \<Rightarrow> ('acc, 'addr, 'w) client \<Rightarrow> ('acc, 'addr, 'w) client \<Rightarrow> bool" where
  "to_their_server e cid contact ab letter c c' \<longleftrightarrow> (\<exists>addr secret n auth blob c1.
     dec (env_addr e) ab = Inr addr \<and> pair_secret contact = Some secret
   \<and> store_do (increment_and_get_next_write_n cid) c = (Ok n, c1)
   \<and> derive_auth (env_hkdf e) secret n = Ok auth \<and> to_padded_bytes (env_envelope e) (letter n) = Ok blob
   \<and> call_node e addr (Write auth blob) c1 = (Ok RespOk, c'))"

definition to_them ::
  "('acc, 'ses, 'r, 'addr, 'w) env \<Rightarrow> ContactRecord \<Rightarrow> Envelope
    \<Rightarrow> ('acc, 'addr, 'w) client \<Rightarrow> ('acc, 'addr, 'w) client \<Rightarrow> bool" where
  "to_them e contact letter c c' \<longleftrightarrow> (\<exists>tk peer blob. contact_transport_key contact = Some tk
   \<and> env_endpoint_addr e tk = Inr peer \<and> to_padded_bytes (env_envelope e) letter = Ok blob
   \<and> try_direct e peer blob c = (Ok (), c'))"

definition to_own_server ::
  "('acc, 'ses, 'r, 'addr, 'w) env \<Rightarrow> ContactRecord \<Rightarrow> Envelope
    \<Rightarrow> ('acc, 'addr, 'w) client \<Rightarrow> ('acc, 'addr, 'w) client \<Rightarrow> bool" where
  "to_own_server e contact letter c c' \<longleftrightarrow> (\<exists>tk peer blob err c1 own. contact_transport_key contact = Some tk
   \<and> env_endpoint_addr e tk = Inr peer \<and> to_padded_bytes (env_envelope e) letter = Ok blob
   \<and> try_direct e peer blob c = (Err err, c1) \<and> cl_server_addr c1 = Some own
   \<and> schedule_retry e own (env_msg_id letter) tk blob c1 = (Ok (), c'))"

definition handed_over ::
  "('acc, 'ses, 'r, 'addr, 'w) env \<Rightarrow> i64 \<Rightarrow> ContactRecord \<Rightarrow> (u64 \<Rightarrow> Envelope) \<Rightarrow> MessageStatus
    \<Rightarrow> ('acc, 'addr, 'w) client \<Rightarrow> ('acc, 'addr, 'w) client \<Rightarrow> bool" where
  "handed_over e cid contact letter stat c c' = (case server_addr contact of
       Some ab \<Rightarrow> stat = Sent \<and> to_their_server e cid contact ab letter c c'
     | None \<Rightarrow> stat = Delivered \<and> to_them e contact (letter 0) c c'
         \<or> stat = Sent \<and> to_own_server e contact (letter 0) c c')"

lemma small_steps_Ok_iff:
  "require err x c = (Ok a, c') \<longleftrightarrow> x = Some a \<and> c' = c"
  "lift_outcome r c = (Ok b, c') \<longleftrightarrow> r = Ok b \<and> c' = c"
  "expect_ok e resp c = (Ok u, c') \<longleftrightarrow> resp = RespOk \<and> c' = c"
  by (auto simp: require_def lift_outcome_def expect_ok_def pure_def fail_def ok_or_def
      split: option.splits NodeResponse.splits)

lemma deliver_to_server_hands_over:
  assumes "deliver_to_server e cid contact ab otype ct lam at mid c = (Ok stat, c')"
  shows "stat = Sent \<and> to_their_server e cid contact ab (\<lambda>n. Envelope_new otype ct n lam at mid) c c'"
  using assms unfolding to_their_server_def
  by (auto simp: deliver_to_server_def and_then_Ok_iff pure_def small_steps_Ok_iff envelope_bytes_of_def)

lemma try_direct_no_panic_end:
  assumes "attempt (try_direct e peer blob) c = (Ok res, c1)"
  shows "try_direct e peer blob c = (res, c1) \<and> res \<noteq> Panic"
  using assms by (cases "try_direct e peer blob c"; cases "fst (try_direct e peer blob c)") (auto simp: attempt_def)

lemma deliver_direct_hands_over:
  assumes "deliver_direct e contact otype ct lam at mid c = (Ok stat, c')"
  shows "stat = Delivered \<and> to_them e contact (Envelope_new otype ct 0 lam at mid) c c'
       \<or> stat = Sent \<and> to_own_server e contact (Envelope_new otype ct 0 lam at mid) c c'"
proof -
  let ?v = "Envelope_new otype ct 0 lam at mid"
  from assms obtain tk peer blob and res :: "(unit, CoreError) outcome" and c1 where
    route: "contact_transport_key contact = Some tk" "env_endpoint_addr e tk = Inr peer"
      "to_padded_bytes (env_envelope e) ?v = Ok blob" and tried: "attempt (try_direct e peer blob) c = (Ok res :: (_, CoreError) outcome, c1)"
    and rest: "(case res of Err direct_err \<Rightarrow> (\<lambda>c. case cl_server_addr c of
            None \<Rightarrow> (Err direct_err, c)
          | Some my_addr \<Rightarrow> and_then (attempt (schedule_retry e my_addr mid tk blob)) (\<lambda>queued.
              if is_ok queued then pure Sent else fail direct_err) c)
      | _ \<Rightarrow> pure Delivered) c1 = (Ok stat, c')"
    by (simp add: deliver_direct_def and_then_Ok_iff small_steps_Ok_iff envelope_bytes_of_def) blast
  note reached = try_direct_no_panic_end[OF tried]
  show ?thesis
  proof (cases res)
    case (Ok u)
    with rest reached route show ?thesis by (auto simp: to_them_def pure_def)
  next
    case (Err err)
    with rest obtain own queued c2 where own: "cl_server_addr c1 = Some own"
      and q: "attempt (schedule_retry e own mid tk blob) c1 = (Ok queued :: (_, CoreError) outcome, c2)"
      and st: "(if is_ok queued then pure Sent else fail err) c2 = (Ok stat, c')"
      by (auto simp: and_then_Ok_iff split: option.splits)
    from st have "is_ok queued" "stat = Sent" "c' = c2" by (auto simp: pure_def fail_def split: if_splits)
    with q have "schedule_retry e own mid tk blob c1 = (Ok (), c')"
      by (cases "schedule_retry e own mid tk blob c1"; cases queued) (auto simp: attempt_def split: outcome.splits)
    moreover have "env_msg_id ?v = mid" by (simp add: Envelope_new_def)
    ultimately show ?thesis using Err own route reached \<open>stat = Sent\<close> by (auto simp: to_own_server_def)
  qed (use reached in simp)
qed

lemma encrypt_payload_OkE:
  assumes "encrypt_payload e payload ses c = (Ok (ses', otype, ct), c')"
  obtains r pt where "payload_serialize (env_payload e) payload = Ok pt"
    and "session_encrypt (env_olm e) r pt ses = (Ok (otype, ct), ses')"
proof -
  from assms obtain pt r where pt: "payload_serialize (env_payload e) payload = Ok pt"
    and r: "(case session_encrypt (env_olm e) r pt ses of (Ok (otype, ct), ses') \<Rightarrow> Ok (ses', otype, ct)
       | (Err err, ses') \<Rightarrow> Err (Crypto err) | (Panic, ses') \<Rightarrow> Panic) = Ok (ses', otype, ct)"
    by (auto simp: encrypt_payload_def and_then_Ok_iff lift_outcome_def)
  show ?thesis
  proof (cases "session_encrypt (env_olm e) r pt ses")
    case (Pair x s)
    with r pt that show ?thesis by (cases x) auto
  qed
qed

lemma deliver_hands_over:
  assumes "deliver e cid payload c = (Ok (mid, lam, at, stat), c')"
  obtains contact ses c1 r pt otype ct ses' c2 c3 row where "client_get_contact cid c = (Ok contact, c)"
    and "open_session e cid contact c = (Ok ses, c1)" and "payload_serialize (env_payload e) payload = Ok pt"
    and "session_encrypt (env_olm e) r pt ses = (Ok (otype, ct), ses')"
    and "handed_over e cid contact (\<lambda>n. Envelope_new otype ct n lam at mid) stat c2 c3"
    and "lookup_row s_contact_id cid (sessions (cl_store c')) = Some row"
    and "session_pickle (env_olm e) ses' = Ok (s_pickle row)"
proof -
  from assms obtain contact c0 ses c1 where g: "client_get_contact cid c = (Ok contact, c0)"
    and opened: "open_session e cid contact c0 = (Ok ses, c1)"
    and d: "deliver_in_session e cid contact payload ses c1 = (Ok (mid, lam, at, stat), c')"
    by (auto simp: deliver_def and_then_Ok_iff)
  from g have c0: "c0 = c" by (auto elim: client_get_contact_OkE)
  from d obtain ses' otype ct ca c2 c3 where enc: "encrypt_payload e payload ses c1 = (Ok (ses', otype, ct), ca)"
    and route: "(case server_addr contact of
          Some addr_bytes \<Rightarrow> deliver_to_server e cid contact addr_bytes otype ct lam at mid
        | None \<Rightarrow> deliver_direct e contact otype ct lam at mid) c2 = (Ok stat, c3)"
    and save: "save_session e cid ses' c3 = (Ok (), c')"
    unfolding deliver_in_session_def by (auto simp: and_then_Ok_iff pure_def)
  from enc obtain r pt where "payload_serialize (env_payload e) payload = Ok pt"
    "session_encrypt (env_olm e) r pt ses = (Ok (otype, ct), ses')"
    by (rule encrypt_payload_OkE)
  moreover have "handed_over e cid contact (\<lambda>n. Envelope_new otype ct n lam at mid) stat c2 c3"
    using route deliver_to_server_hands_over deliver_direct_hands_over
    by (cases "server_addr contact") (fastforce simp: handed_over_def)+
  moreover from save have "\<exists>row. lookup_row s_contact_id cid (sessions (cl_store c')) = Some row
      \<and> session_pickle (env_olm e) ses' = Ok (s_pickle row)"
    by (cases "session_pickle (env_olm e) ses'") (auto simp: save_session_def and_then_Ok_iff lift_outcome_def store_do_def save_session_pickle_def Let_def
        lookup_row_upsert split: if_splits option.splits)
  ultimately show ?thesis using that g opened c0 by blast
qed

text \<open>
  C25: a message is stored exactly when, and as, it was handed over. When \<^verbatim>\<open>send\<close> succeeds,
  the text was encrypted in the session with the contact, and an envelope with it, an id, a Lamport
  time and a time went to the contact's server, which accepted it, to the contact, or, after the
  contact could not be reached, to the own server; one outgoing message with the text and with that
  id, Lamport time and time is appended to the history, with the status \<^verbatim>\<open>delivered\<close> in the second
  case and \<^verbatim>\<open>sent\<close> in the others; and the session that encrypted it is on file. Otherwise
  the history is unchanged.
\<close>

theorem send_stores_what_was_handed_over:
  "case send e cid text c of
     (Ok _, c') \<Rightarrow> (\<exists>contact ses c1 r pt otype ct ses' c2 c3 row mid lam at stat.
         client_get_contact cid c = (Ok contact, c) \<and> open_session e cid contact c = (Ok ses, c1)
         \<and> payload_serialize (env_payload e) (Chat text) = Ok pt
         \<and> session_encrypt (env_olm e) r pt ses = (Ok (otype, ct), ses')
         \<and> handed_over e cid contact (\<lambda>n. Envelope_new otype ct n lam at mid) stat c2 c3
         \<and> lookup_row s_contact_id cid (sessions (cl_store c')) = Some row
         \<and> session_pickle (env_olm e) ses' = Ok (s_pickle row)
         \<and> messages (cl_store c') = messages (cl_store c) @
             [\<lparr>m_contact_id = cid, m_msg_id = mid, m_direction = ''outgoing'', m_lamport = as_i64 lam,
               m_sent_at = as_i64 at, m_plaintext = text, m_status = Some (status_as_str stat)\<rparr>])
   | (_, c') \<Rightarrow> messages (cl_store c') = messages (cl_store c)"
proof (cases "deliver e cid (Chat text) c")
  case (Pair r c1)
  have same: "messages (cl_store c1) = messages (cl_store c)"
    using keepsD[OF deliver_same_messages, of c] Pair by (metis same_messages_def snd_conv)
  show ?thesis
  proof (cases r)
    case (Ok a)
    obtain mid lam at stat where a: "a = (mid, lam, at, stat)" by (cases a)
    let ?m = "\<lparr>nm_msg_id = mid, nm_direction = Outgoing, nm_lamport = lam, nm_sent_at = at, nm_plaintext = text,
      nm_status = Some stat\<rparr>"
    have sent: "send e cid text c = store_do (insert_message cid ?m) c1" using Pair Ok a by (simp add: send_def and_then_def)
    show ?thesis
    proof (cases "store_do (insert_message cid ?m) c1")
      case st: (Pair x c')
      show ?thesis
      proof (cases x)
        case (Ok u)
        with st have ins: "sessions (cl_store c') = sessions (cl_store c1)"
          "messages (cl_store c') = messages (cl_store c1) @ [\<lparr>m_contact_id = cid, m_msg_id = mid,
             m_direction = ''outgoing'', m_lamport = as_i64 lam, m_sent_at = as_i64 at, m_plaintext = text,
             m_status = Some (status_as_str stat)\<rparr>]"
          by (auto simp: store_do_def insert_message_def split: if_splits)
        have "deliver e cid (Chat text) c = (Ok (mid, lam, at, stat), c1)" using Pair \<open>r = Ok a\<close> a by simp
        then show ?thesis unfolding sent st Ok prod.case outcome.case ins same
          by (rule deliver_hands_over) (intro exI conjI, assumption+, rule refl)
      qed (use st sent same in \<open>auto simp: store_do_def insert_message_def split: if_splits\<close>)
    qed
  qed (simp_all add: send_def and_then_def Pair same)
qed

section \<open>Received messages\<close>

text \<open>The history has grown by \<open>n\<close> incoming messages; the status of older ones may have changed.\<close>

definition received :: "nat \<Rightarrow> ('acc, 'addr, 'w) client \<Rightarrow> ('acc, 'addr, 'w) client \<Rightarrow> bool" where
  "received n c c' \<longleftrightarrow> (\<exists>new. length new = n \<and> (\<forall>m \<in> set new. m_direction m = ''incoming'')
     \<and> map fixed_part (messages (cl_store c')) = map fixed_part (messages (cl_store c)) @ new)"

lemma received_trans:
  assumes "received m a b" and "received n b c"
  shows "received (m + n) a c"
proof -
  from assms obtain x y where "length x = m" "\<forall>r \<in> set x. m_direction r = ''incoming''"
    "map fixed_part (messages (cl_store b)) = map fixed_part (messages (cl_store a)) @ x"
    "length y = n" "\<forall>r \<in> set y. m_direction r = ''incoming''"
    "map fixed_part (messages (cl_store c)) = map fixed_part (messages (cl_store b)) @ y"
    unfolding received_def by blast
  then show ?thesis unfolding received_def by (intro exI[of _ "x @ y"]) auto
qed

lemma received_frame: "received 0 a b \<Longrightarrow> received n b c \<Longrightarrow> received 0 c d \<Longrightarrow> received n a d"
  using received_trans[of 0 a b n c] received_trans[of n a c 0 d] by simp

lemma received_0: "received 0 c c' \<longleftrightarrow> map fixed_part (messages (cl_store c')) = map fixed_part (messages (cl_store c))"
  by (simp add: received_def)

interpretation rc: client_order "received 0"
  by unfold_locales
    (auto intro!: keepsI simp: received_0 store_do_def tick_lamport_def current_def
      increment_and_get_next_write_n_def and_then_def update_contact_def Let_def split: option.splits)

lemma received_store_do:
  "keeps (received 0) (store_do list_contacts)" "keeps (received 0) (store_do (get_contact cid))"
  "keeps (received 0) (store_do (load_session_pickle cid))" "keeps (received 0) (store_do (save_account_pickle p))"
  "keeps (received 0) (store_do (save_session_pickle cid p))" "keeps (received 0) (store_do (observe_lamport v))"
  "keeps (received 0) (store_do (set_message_status cid mid stat))"
  "keeps (received 0) (store_do (set_message_status_by_msg_id mid stat))"
  "keeps (received 0) (store_do (set_contact_pointer_update cid a u n))"
  "keeps (received 0) (store_do (set_last_synced_blob_id v))" "keeps (received 0) (store_do get_last_synced_blob_id)"
  "keeps (received 0) (spawn_task t)"
  by (rule keepsI; simp add: received_0 store_do_def list_contacts_def get_contact_def and_then_def
      load_session_pickle_def save_account_pickle_def upsert_account_def save_session_pickle_def
      observe_lamport_def current_def set_message_status_def set_message_status_by_msg_id_def
      set_contact_pointer_update_def update_contact_def set_last_synced_blob_id_def get_last_synced_blob_id_def
      spawn_task_def fixed_part_status
      split: outcome.splits option.splits prod.splits)+

lemma received_Ok: "keeps (received 0) m \<Longrightarrow> m c = (r, c') \<Longrightarrow> received 0 c c'"
  by (metis keepsD snd_conv)

text \<open>How many messages handling one envelope adds.\<close>

definition chats :: "Attribution \<Rightarrow> nat" where
  "chats a = (if a = AttrChat then 1 else 0)"

lemma received_insert:
  assumes "store_do (insert_message cid msg) c = (Ok (), c')" and "nm_direction msg = Incoming"
  shows "received 1 c c'"
  using assms unfolding received_def
  by (intro exI[of _ "[fixed_part (last (messages (cl_store c')))]"])
    (auto simp: store_do_def insert_message_def fixed_part_def Let_def split: if_splits)

lemma handle_decrypted_received:
  assumes "handle_decrypted e cid envelope plaintext c = (Ok a, c')"
  shows "received (chats a) c c'"
proof (cases "payload_deserialize (env_payload e) plaintext")
  case None
  with assms show ?thesis by (auto simp: handle_decrypted_def pure_def chats_def rc.R_refl)
next
  case (Some payload)
  show ?thesis
  proof (cases payload)
    case (Chat t)
    with assms Some obtain lam c1 c2 where
      "store_do (observe_lamport (env_lamport envelope)) c = (Ok lam, c1)"
      and ins: "store_do (insert_message cid \<lparr>nm_msg_id = env_msg_id envelope, nm_direction = Incoming,
          nm_lamport = lam, nm_sent_at = env_sent_at envelope, nm_plaintext = t, nm_status = None\<rparr>) c1 = (Ok (), c2)"
      and sp: "spawn_task (SendReceipt cid (env_msg_id envelope)) c2 = (Ok (), c')" and a: "a = AttrChat"
      by (auto simp: handle_decrypted_def and_then_Ok_iff pure_def)
    then have "received 0 c c1" by (intro received_Ok[OF received_store_do(6)])
    moreover have "received 1 c1 c2" using ins by (rule received_insert) simp
    moreover have "received 0 c2 c'" using sp by (rule received_Ok[OF received_store_do(12)])
    ultimately have "received (0 + 1 + 0) c c'" by (intro received_trans)
    then show ?thesis by (simp add: a chats_def)
  next
    case (Receipt mid)
    with assms Some have "store_do (set_message_status cid mid Delivered) c = (Ok (), c')" and "a = AttrReceipt"
      by (auto simp: handle_decrypted_def and_then_Ok_iff pure_def)
    then show ?thesis using received_Ok[OF received_store_do(7)] by (simp add: chats_def)
  next
    case (MailboxPointerUpdate addr ua seq sig)
    have "keeps (received 0) (handle_decrypted e cid envelope plaintext)"
      unfolding handle_decrypted_def client_get_contact_def
      by (simp add: Some MailboxPointerUpdate)
        (auto intro!: rc.keeps_intros received_store_do)
    then have "received 0 c c'" using assms by (rule received_Ok)
    moreover have "a = AttrPointerUpdate"
      using assms by (auto simp: handle_decrypted_def Some MailboxPointerUpdate and_then_Ok_iff pure_def)
    ultimately show ?thesis by (simp add: chats_def)
  qed
qed

lemma save_session_received: "keeps (received 0) (save_session e cid ses)"
  unfolding save_session_def by (intro rc.keeps_intros received_store_do)

lemma received_then:
  assumes "and_then m k c = (Ok b, c')" and "keeps (received 0) m"
    and "\<And>a c1. k a c1 = (Ok b, c') \<Longrightarrow> received n c1 c'"
  shows "received n c c'"
proof -
  from assms(1) obtain a c1 where m: "m c = (Ok a, c1)" and k: "k a c1 = (Ok b, c')" by (auto elim: and_then_OkE)
  from received_trans[OF received_Ok[OF assms(2) m] assms(3)[OF k]] show ?thesis by simp
qed

definition chats_in :: "Attribution option \<Rightarrow> nat" where
  "chats_in r = (case r of None \<Rightarrow> 0 | Some a \<Rightarrow> chats a)"

lemma handled_received:
  assumes "and_then (handle_decrypted e cid envelope plaintext) (\<lambda>a. pure (Some a)) c = (Ok r, c')"
  shows "received (chats_in r) c c'"
  using assms handle_decrypted_received[of e cid envelope plaintext c]
  by (auto simp: and_then_Ok_iff pure_def chats_in_def)

lemma try_session_received:
  assumes "try_session e envelope cid ses c = (Ok r, c')"
  shows "received (chats_in r) c c'"
proof (cases "session_decrypt (env_olm e) (olm_type envelope) (ciphertext envelope) ses")
  case (Pair d ses')
  show ?thesis
  proof (cases d)
    case (Ok plaintext)
    from assms have "and_then (save_session e cid ses') (\<lambda>_.
        and_then (handle_decrypted e cid envelope plaintext) (\<lambda>a. pure (Some a))) c = (Ok r, c')"
      by (simp add: try_session_def Pair Ok)
    then show ?thesis using save_session_received handled_received by (rule received_then)
  qed (use assms in \<open>auto simp: try_session_def Pair pure_def lift_outcome_def chats_in_def rc.R_refl\<close>)
qed

lemma try_first_message_received:
  assumes "try_first_message e envelope contact c = (Ok r, c')"
  shows "received (chats_in r) c c'"
proof (cases "accept_incoming (env_olm e) (curve25519_key contact) (olm_type envelope)
    (ciphertext envelope) (cl_account c)")
  case (Pair d acc')
  have acc: "received 0 c (c\<lparr>cl_account := acc'\<rparr>)" by (simp add: received_0)
  show ?thesis
  proof (cases d)
    case (Ok a)
    obtain ses plaintext where a: "a = (ses, plaintext)" by (cases a)
    from assms have "and_then (lift_outcome (map_err Crypto (account_pickle (env_olm e) acc'))) (\<lambda>pickle.
          and_then (store_do (save_account_pickle pickle)) (\<lambda>_.
          and_then (save_session e (cr_id contact) ses) (\<lambda>_.
          and_then (handle_decrypted e (cr_id contact) envelope plaintext) (\<lambda>a. pure (Some a)))))
        (c\<lparr>cl_account := acc'\<rparr>) = (Ok r, c')" by (simp add: try_first_message_def Pair Ok a)
    then have "received (chats_in r) (c\<lparr>cl_account := acc'\<rparr>) c'"
      by (rule received_then, intro rc.keeps_intros)
        (erule received_then, rule received_store_do, erule received_then, rule save_session_received,
          erule handled_received)
    with received_trans[OF acc] show ?thesis by simp
  qed (use assms acc in \<open>auto simp: try_first_message_def Pair chats_in_def\<close>)
qed

lemma try_contact_received:
  assumes "try_contact e envelope contact c = (Ok r, c')"
  shows "received (chats_in r) c c'"
  using assms unfolding try_contact_def
proof (rule received_then)
  show "keeps (received 0) (store_do (load_session_pickle (cr_id contact)))" by (rule received_store_do)
  fix maybe c1
  assume rest: "(case maybe of
         Some pickle \<Rightarrow> and_then (lift_outcome (map_err Crypto (session_from_pickle (env_olm e) pickle)))
             (try_session e envelope (cr_id contact))
       | None \<Rightarrow> try_first_message e envelope contact) c1 = (Ok r, c')"
  show "received (chats_in r) c1 c'"
  proof (cases maybe)
    case (Some pickle)
    with rest show ?thesis by (auto simp: and_then_Ok_iff lift_outcome_def intro: try_session_received)
  qed (use rest in \<open>simp add: try_first_message_received\<close>)
qed

lemma attribute_among_received:
  "attribute_among e envelope cs c = (Ok a, c') \<Longrightarrow> received (chats a) c c'"
proof (induction cs arbitrary: c)
  case Nil
  then show ?case by (auto simp: pure_def chats_def rc.R_refl)
next
  case (Cons contact cs)
  then obtain r c1 where t: "try_contact e envelope contact c = (Ok r, c1)"
    and rest: "(case r of Some a \<Rightarrow> pure a | None \<Rightarrow> attribute_among e envelope cs) c1 = (Ok a, c')"
    by (auto simp: and_then_Ok_iff)
  note tried = try_contact_received[OF t]
  show ?case
  proof (cases r)
    case None
    with rest Cons.IH have "received (chats a) c1 c'" by simp
    with tried None received_trans[of 0 c c1] show ?thesis by (simp add: chats_in_def)
  next
    case (Some a')
    with rest tried show ?thesis by (simp add: pure_def chats_in_def)
  qed
qed

lemma attribute_and_store_received:
  assumes "attribute_and_store e envelope c = (Ok a, c')"
  shows "received (chats a) c c'"
  using assms unfolding attribute_and_store_def
  by (rule received_then) (auto intro: received_store_do attribute_among_received)

lemma process_blobs_received:
  assumes "process_blobs e bs (processed, high, ids) c = (Ok (processed', high', ids'), c')"
  shows "processed \<le> processed' \<and> processed' - processed \<le> length bs
    \<and> high' = fold max (map blob_id bs) high \<and> received (processed' - processed) c c'"
  using assms
proof (induction bs arbitrary: processed high ids c)
  case Nil
  then show ?case by (auto simp: pure_def rc.R_refl)
next
  case (Cons b bs)
  show ?case
  proof (cases "from_padded_bytes (env_envelope e) (blob_data b)")
    case (Ok envelope)
    from Cons.prems obtain a c1 where a: "attribute_and_store e envelope c = (Ok a, c1)"
      and rest: "process_blobs e bs ((if a = AttrChat then processed + 1 else processed), max high (blob_id b),
        ids @ [blob_id b]) c1 = (Ok (processed', high', ids'), c')"
      by (auto simp: Ok Let_def and_then_Ok_iff)
    have "(if a = AttrChat then processed + 1 else processed) = processed + chats a" by (simp add: chats_def)
    with Cons.IH[OF rest] have ih: "processed + chats a \<le> processed'"
      "processed' - (processed + chats a) \<le> length bs"
      "high' = fold max (map blob_id bs) (max high (blob_id b))"
      "received (processed' - (processed + chats a)) c1 c'" by auto
    from received_trans[OF attribute_and_store_received[OF a] ih(4)] ih(1)
    have "received (processed' - processed) c c'" by simp
    moreover have "chats a \<le> 1" by (simp add: chats_def)
    ultimately show ?thesis using ih by (simp add: max.commute)
  qed (use Cons.prems Cons.IH in \<open>fastforce simp: Let_def max.commute\<close>)+
qed

subsection \<open>The watermark\<close>

definition watermark :: "store \<Rightarrow> u64" where
  "watermark s = as_u64 (case account s of None \<Rightarrow> 0 | Some a \<Rightarrow> a_last_synced_blob_id a)"

definition same_watermark :: "('acc, 'addr, 'w) client \<Rightarrow> ('acc, 'addr, 'w) client \<Rightarrow> bool" where
  "same_watermark c c' \<longleftrightarrow> watermark (cl_store c') = watermark (cl_store c)"

interpretation wm: client_order same_watermark
  by unfold_locales
    (auto intro!: keepsI simp: same_watermark_def watermark_def store_do_def tick_lamport_def current_def
      increment_and_get_next_write_n_def and_then_def update_contact_def Let_def split: option.splits)

lemma new_blobs_max:
  fixes w :: u64
  shows "fold max (map blob_id (sort_key blob_id (filter (\<lambda>b. w < blob_id b) bs))) w
    = Max (insert w (blob_id ` set bs))"
proof -
  let ?new = "map blob_id (sort_key blob_id (filter (\<lambda>b. w < blob_id b) bs))"
  have "fold max ?new w = Max (insert w (set ?new))" using Max.set_eq_fold[of w ?new] by simp
  also have "\<dots> = Max (insert w (blob_id ` set bs))"
  proof (rule antisym)
    show "Max (insert w (set ?new)) \<le> Max (insert w (blob_id ` set bs))" by (rule Max_mono) auto
    show "Max (insert w (blob_id ` set bs)) \<le> Max (insert w (set ?new))"
    proof (rule Max.boundedI)
      fix i assume "i \<in> insert w (blob_id ` set bs)"
      then have "i \<in> insert w (set ?new) \<or> i \<le> w" by (auto simp: not_less)
      then show "i \<le> Max (insert w (set ?new))" by (auto intro: Max_ge order_trans[of i w])
    qed auto
  qed
  finally show ?thesis .
qed

lemma status_same_watermark: "keeps same_watermark (store_do (set_message_status_by_msg_id mid stat))"
  by (rule keepsI) (simp add: same_watermark_def watermark_def store_do_def set_message_status_by_msg_id_def)

lemma pure_Ok_iff: "pure a c = (Ok b, c') \<longleftrightarrow> b = a \<and> c' = c"
  by (auto simp: pure_def)

lemma blobs_Ok_iff:
  "(case response of Blobs bs \<Rightarrow> pure bs | other \<Rightarrow> fail (err other)) c = (Ok bs, c') \<longleftrightarrow> response = Blobs bs \<and> c' = c"
  by (cases response) (auto simp: pure_def fail_def)

lemma sync_end_received:
  assumes "ack_blobs e ids c = (Ok (), c1)" and "store_do (set_last_synced_blob_id high) c1 = (Ok (), c2)"
    and "poll_failed e c2 = (Ok (), c')"
  shows "received 0 c c'"
  using received_Ok[OF rc.keeps_ack_blobs assms(1)] received_Ok[OF received_store_do(10) assms(2)]
    received_Ok[OF rc.keeps_poll_failed[OF received_store_do(8)] assms(3)]
  by (blast intro: rc.R_trans)

lemma sync_OkE:
  assumes "sync e c = (Ok n, c')"
  obtains addr bs c1 w c2 high ids c3 c4 c5
    where "cl_server_addr c = Some addr"
      and "call_node e addr (Fetch (mailbox_key (cl_identity c))) c = (Ok (Blobs bs), c1)"
      and "store_do get_last_synced_blob_id c1 = (Ok w, c2)"
      and "process_blobs e (sort_key blob_id (filter (\<lambda>b. w < blob_id b) bs)) (0, w, []) c2
        = (Ok (n, high, ids), c3)"
      and "ack_blobs e ids c3 = (Ok (), c4)"
      and "store_do (set_last_synced_blob_id high) c4 = (Ok (), c5)"
      and "poll_failed e c5 = (Ok (), c')"
  using assms that unfolding sync_def
  by (auto simp: and_then_Ok_iff require_def lift_outcome_def pure_Ok_iff blobs_Ok_iff)

text \<open>
  C9: a synchronisation receives every new blob once. When \<^verbatim>\<open>sync\<close> returns \<open>n\<close>, exactly
  \<open>n\<close> incoming messages were appended to the history, the others kept their place and content,
  at most one per fetched blob above the watermark; and the watermark is then the largest blob id
  seen, so blobs that the server reports again are not looked at again.
\<close>

theorem sync_receives_each_blob_once:
  assumes "sync e c = (Ok n, c')"
  shows "\<exists>addr bs c1. cl_server_addr c = Some addr
    \<and> call_node e addr (Fetch (mailbox_key (cl_identity c))) c = (Ok (Blobs bs), c1)
    \<and> received n c c' \<and> n \<le> length (filter (\<lambda>b. watermark (cl_store c) < blob_id b) bs)
    \<and> watermark (cl_store c') = Max (insert (watermark (cl_store c)) (blob_id ` set bs))"
proof -
  from assms obtain addr bs c1 w c2 high ids c3 c4 c5
    where addr: "cl_server_addr c = Some addr"
      and fetch: "call_node e addr (Fetch (mailbox_key (cl_identity c))) c = (Ok (Blobs bs), c1)"
      and w: "store_do get_last_synced_blob_id c1 = (Ok w, c2)"
      and blobs: "process_blobs e (sort_key blob_id (filter (\<lambda>b. w < blob_id b) bs)) (0, w, []) c2
        = (Ok (n, high, ids), c3)"
      and ack: "ack_blobs e ids c3 = (Ok (), c4)"
      and set: "store_do (set_last_synced_blob_id high) c4 = (Ok (), c5)"
      and poll: "poll_failed e c5 = (Ok (), c')" by (rule sync_OkE)
  from keepsD[OF wm.keeps_outside(2), of c e addr] fetch have "watermark (cl_store c1) = watermark (cl_store c)"
    by (metis same_watermark_def snd_conv)
  with w have w': "w = watermark (cl_store c)"
    by (auto simp: store_do_def get_last_synced_blob_id_def watermark_def)
  note got = process_blobs_received[OF blobs]
  have "received 0 c c2"
    using received_Ok[OF rc.keeps_outside(2) fetch] received_Ok[OF received_store_do(11) w] by (rule rc.R_trans)
  moreover have "received 0 c3 c'" using ack set poll by (rule sync_end_received)
  ultimately have "received n c c'" using got received_frame[of c c2 n c3 c'] by simp
  moreover have "watermark (cl_store c5) = high"
    using set by (auto simp: store_do_def set_last_synced_blob_id_def upsert_account_def watermark_def)
  moreover have "watermark (cl_store c') = watermark (cl_store c5)"
    using keepsD[OF wm.keeps_poll_failed[OF status_same_watermark], of c5 e] poll
    by (metis same_watermark_def snd_conv)
  moreover have "high = Max (insert w (blob_id ` set bs))" using got new_blobs_max by simp
  ultimately show ?thesis using addr fetch got w' by simp
qed

text \<open>A server that has one blob, from a contact with a session.\<close>

definition echo_network :: "(nat, 'w) network" where
  "echo_network = \<lparr>net_connect = \<lambda>_ _ w. (Ok (), w), net_exchange = \<lambda>_ _ b _ w. (Ok b, w)\<rparr>"

definition one_blob :: StoredBlob where
  "one_blob = \<lparr>blob_id = 3, blob_data = (case pad [0, 7] of Ok b \<Rightarrow> b | _ \<Rightarrow> []), blob_delivered = False\<rparr>"

definition one_blob_env :: "(unit, unit, unit, nat, unit) env" where
  "one_blob_env = (sample_env echo_network)\<lparr>
     env_request := \<lparr>enc = \<lambda>r. Inr (case r of Fetch k \<Rightarrow> [0] | PollFailedDeliveries k \<Rightarrow> [1] | _ \<Rightarrow> [2]), dec = \<lambda>_. Inl []\<rparr>,
     env_response := \<lparr>enc = \<lambda>_. Inl [], dec = \<lambda>b. Inr (if b = [0] then Blobs [one_blob]
        else if b = [1] then FailedDeliveries [] else RespOk)\<rparr>\<rparr>"

definition session_store :: "bytes option \<Rightarrow> store" where
  "session_store addr = (paired_store addr)\<lparr>sessions := [\<lparr>s_contact_id = 1, s_pickle = []\<rparr>]\<rparr>"

definition session_client :: "(unit, nat, unit) client" where
  "session_client = sample_client (session_store None) (Some 0) ()"

lemma session_store_wf: "store_wf (session_store addr)"
  using paired_store_wf[of addr] by (simp add: session_store_def store_wf_def)

lemma session_store_simps [simp]:
  "contacts (session_store addr) = [paired_row addr]" "messages (session_store addr) = []"
  "sessions (session_store addr) = [\<lparr>s_contact_id = 1, s_pickle = []\<rparr>]" "local_clock (session_store addr) = Integer 0"
  "foreign_keys (session_store addr) = True" "account (session_store addr) = None"
  by (simp_all add: session_store_def)

lemma one_blob_calls:
  "call_node one_blob_env 0 (Fetch k) c = (Ok (Blobs [one_blob]), c)"
  "call_node one_blob_env 0 (Ack k ids) c = (Ok RespOk, c)"
  "call_node one_blob_env 0 (PollFailedDeliveries k) c = (Ok (FailedDeliveries []), c)"
  by (simp_all add: call_node_def call_def and_then_def lift_outcome_def one_blob_env_def echo_network_def)

lemma one_blob_envelope:
  "from_padded_bytes (env_envelope one_blob_env) (blob_data one_blob) = Ok (Envelope_new 1 [0, 7] 0 4 5 (replicate 16 9))"
proof -
  obtain b where "pad [0, 7] = Ok b" using pad_Ok_iff[of "[0, 7]"] by auto
  moreover from this have "unpad b = Ok [0, 7]" using env_pad.ps.unpad_pad[of "[0, 7]" b] by simp
  ultimately show ?thesis
    by (simp add: from_padded_bytes_def one_blob_def one_blob_env_def sample_envelope_codec_def)
qed

lemma one_blob_env_simps [simp]:
  "env_olm one_blob_env = sample_olm" "env_payload one_blob_env = sample_payload_codec"
  by (simp_all add: one_blob_env_def)

lemma paired_row_id [simp]: "c_id (paired_row addr) = 1"
  by (simp add: paired_row_def)

lemma chat_stored:
  assumes olm: "env_olm e = sample_olm" and payload: "payload_deserialize (env_payload e) [0, 7] = Some (Chat [7])"
    and env: "env = Envelope_new 1 [0, 7] 0 lam at (replicate 16 9)" and lam: "unat lam < 9"
  shows "\<exists>s t. attribute_and_store e env (sample_client (session_store None) (Some 0) w)
    = (Ok AttrChat, (sample_client s (Some 0) w)\<lparr>cl_spawned := t\<rparr>)"
proof -
  let ?c = "sample_client (session_store None) (Some 0) w"
  have list: "store_do list_contacts ?c = (Ok [contact_of (paired_row None)], ?c)"
    using list_contacts_ok[OF session_store_wf] by (simp add: store_do_def sample_client_def)
  have load: "store_do (load_session_pickle 1) ?c = (Ok (Some []), ?c)"
    by (simp add: store_do_def load_session_pickle_def sample_client_def)
  have ses: "session_from_pickle sample_olm [] = Ok ()" "session_decrypt sample_olm 1 [0, 7] () = (Ok [0, 7], ())"
    by (simp_all add: session_from_pickle_def session_decrypt_def sample_olm_def)
  have save: "save_session e 1 () ?c = (Ok (), ?c)"
    by (simp add: save_session_def and_then_def lift_outcome_def session_pickle_def olm sample_olm_def store_do_def
        save_session_pickle_def fk_violated_def upsert_def sample_client_def session_store_def)
  have "as_i64 lam < i64_max" using lam as_i64_nonneg[of lam] by (simp add: i64_max_def del: of_nat_unat)
  then obtain s t where "handle_decrypted e 1 env [0, 7] ?c = (Ok AttrChat, (sample_client s (Some 0) w)\<lparr>cl_spawned := t\<rparr>)"
    by (simp add: handle_decrypted_def payload run_simps observe_lamport_def current_def i64_max_def
        insert_message_def fk_violated_def env Envelope_new_def spawn_task_def sample_client_def)
  with list load ses save have "attribute_and_store e env ?c = (Ok AttrChat, (sample_client s (Some 0) w)\<lparr>cl_spawned := t\<rparr>)"
    by (simp add: attribute_and_store_def try_contact_def try_session_def env Envelope_new_def and_then_def
        lift_outcome_def pure_def olm)
  then show ?thesis by blast
qed

lemma one_blob_stored:
  "\<exists>c'. attribute_and_store one_blob_env (Envelope_new 1 [0, 7] 0 4 5 (replicate 16 9)) session_client = (Ok AttrChat, c')
    \<and> cl_server_addr c' = Some 0"
  using chat_stored[OF _ _ refl, of one_blob_env 4 5 "()"]
  by (auto simp: session_client_def payload_deserialize_def sample_payload_codec_def)

theorem sync_receives_each_blob_once_witness:
  "\<exists>c'. sync one_blob_env session_client = (Ok 1, c') \<and> received 1 session_client c'
     \<and> watermark (cl_store c') = 3"
proof -
  obtain c1 where a: "attribute_and_store one_blob_env (Envelope_new 1 [0, 7] 0 4 5 (replicate 16 9)) session_client
      = (Ok AttrChat, c1)" and addr: "cl_server_addr c1 = Some 0" using one_blob_stored by blast
  have own: "cl_server_addr session_client = Some 0" and w: "watermark (cl_store session_client) = 0"
    by (simp_all add: session_client_def watermark_def as_u64_def)
  have read: "store_do get_last_synced_blob_id session_client = (Ok 0, session_client)"
    by (simp add: store_do_def get_last_synced_blob_id_def session_client_def as_u64_def)
  have "process_blobs one_blob_env [one_blob] (0, 0, []) session_client = (Ok (1, 3, [3]), c1)"
    by (simp add: one_blob_envelope and_then_def a pure_def) (simp add: one_blob_def max_def)
  moreover have "ack_blobs one_blob_env [3] c1 = (Ok (), c1)"
    by (simp add: ack_blobs_def own_addr_def addr and_then_def one_blob_calls expect_ok_def pure_def)
  moreover obtain c2 where "store_do (set_last_synced_blob_id 3) c1 = (Ok (), c2)" "cl_server_addr c2 = Some 0"
    by (simp add: store_do_def set_last_synced_blob_id_def addr)
  moreover from this have "poll_failed one_blob_env c2 = (Ok (), c2)"
    by (simp add: poll_failed_def own_addr_def and_then_def one_blob_calls pure_def)
  moreover have "filter (\<lambda>b. 0 < blob_id b) [one_blob] = [one_blob]" by (simp add: one_blob_def)
  ultimately have "sync one_blob_env session_client = (Ok 1, c2)"
    by (simp add: sync_def and_then_def require_def lift_outcome_def own one_blob_calls read pure_def)
  moreover from sync_receives_each_blob_once[OF this] have "received 1 session_client c2 \<and> watermark (cl_store c2) = 3"
    using own by (auto simp: one_blob_calls w) (simp add: one_blob_def)
  ultimately show ?thesis by blast
qed

end
