(* ===== verification/Connected.thy ===== *)
theory Connected
  imports Core_Delivery
begin

text \<open>
  Programs connected to each other: the outside world of a client is the node it talks to, or the
  client it delivers to. The network parameter of \<^verbatim>\<open>pm-transport\<close> is instantiated with the
  other side's request handler, so that a theorem about a call is one about both programs.
\<close>

section \<open>A client and a node\<close>

text \<open>
  Every connection reaches the node, which serves it at time \<open>now\<close> and sees the client as
  \<open>me\<close>. A connection the node drops, and an answer over the limit, are stream errors.
\<close>

definition node_network ::
  "(bytes \<Rightarrow> bytes) \<Rightarrow> NodeRequest codec \<Rightarrow> NodeResponse codec \<Rightarrow> i64 \<Rightarrow> 'id \<Rightarrow> ('addr, 'id MailboxHandler) network" where
  "node_network sha rq rs now me =
     \<lparr>net_connect = \<lambda>_ _ h. (Ok (), h),
      net_exchange = \<lambda>_ _ bs limit h.
        case accept sha rq rs now me bs h of
          (Ok resp, h') \<Rightarrow> if limit < length resp then (Err (Stream ''too long''), h') else (Ok resp, h')
        | (_, h') \<Rightarrow> (Err (Stream ''closed''), h')\<rparr>"

definition talks_to_node :: "('acc, 'ses, 'r, 'addr, 'id MailboxHandler) env \<Rightarrow> i64 \<Rightarrow> 'id \<Rightarrow> bool" where
  "talks_to_node e now me \<longleftrightarrow>
     env_net e = node_network (env_sha256 e) (env_request e) (env_response e) now me
   \<and> codec_roundtrip (env_request e) \<and> codec_roundtrip (env_response e)"

lemma accept_OkE:
  assumes "accept sha rq rs now me b h = (Ok rb, h')"
  obtains resp where "answer sha now me (dec rq b) h = (Ok resp, h')" and "enc rs resp = Inr rb"
proof (cases "answer sha now me (dec rq b) h")
  case (Pair r h1)
  with assms obtain resp where r: "r = Ok resp"
    by (cases r) (auto simp: accept_def and_then_def split: if_splits)
  with Pair assms show ?thesis
    by (cases "enc rs resp") (auto simp: accept_def and_then_def intro: that split: if_splits)
qed

text \<open>A call that succeeds is one request answered by the node's handler.\<close>

lemma node_call:
  assumes "codec_roundtrip rq" and "codec_roundtrip rs"
    and "call (node_network sha rq rs now me) rq rs addr req h = (Ok resp, h')"
  shows "answer sha now me (Inr req) h = (Ok resp, h')"
proof -
  from assms(3) obtain b rb where enc: "enc rq req = Inr b"
    and ex: "net_exchange (node_network sha rq rs now me) addr NODE_ALPN b MAX_MESSAGE_SIZE h = (Ok rb, h')"
    and dec: "dec rs rb = Inr resp"
    by (auto simp: call_Ok_iff node_network_def)
  from ex have "accept sha rq rs now me b h = (Ok rb, h')"
    by (auto simp: node_network_def split: prod.splits outcome.splits if_splits)
  then obtain resp' where a: "answer sha now me (dec rq b) h = (Ok resp', h')" and rb: "enc rs resp' = Inr rb"
    by (rule accept_OkE)
  from codec_roundtripD[OF assms(1) enc] a codec_roundtripD[OF assms(2) rb] dec show ?thesis by simp
qed

lemma call_node_Ok:
  assumes "talks_to_node e now me" and "call_node e addr req c = (Ok resp, c')"
  obtains h' where "answer (env_sha256 e) now me (Inr req) (cl_world c) = (Ok resp, h')" and "c' = c\<lparr>cl_world := h'\<rparr>"
proof -
  from assms(2) obtain h' where "call (env_net e) (env_request e) (env_response e) addr req (cl_world c) = (Ok resp, h')"
    and "c' = c\<lparr>cl_world := h'\<rparr>"
    by (auto simp: call_node_def Let_def split: prod.splits)
  with assms(1) node_call that show ?thesis unfolding talks_to_node_def by metis
qed

lemma expect_ok_Ok: "expect_ok e resp c = (Ok (), c') \<longleftrightarrow> resp = RespOk \<and> c' = c"
  by (cases resp) (auto simp: expect_ok_def pure_def fail_def)

text \<open>What the node has done when it says \<^verbatim>\<open>Ok\<close>.\<close>

lemma answer_RegisterSlot:
  assumes "answer sha now me (Inr (RegisterSlot k s)) h = (Ok RespOk, h')"
  shows "mh_db h' = register_slot s (mh_db h) \<and> mh_mailbox_key h' = mh_mailbox_key h"
  using assms by (auto simp: answer_def Let_def not_the_owner_def split: prod.splits if_splits)

lemma answer_PutBackup:
  assumes "answer sha now me (Inr (PutBackup k b)) h = (Ok RespOk, h')"
  shows "k = mh_mailbox_key h \<and> h' = h\<lparr>mh_db := put_backup b (mh_db h)\<rparr>"
  using assms by (auto simp: answer_def Let_def not_the_owner_def split: if_splits)

subsection \<open>Write slots\<close>

definition slots_at :: "('acc, 'addr, 'id MailboxHandler) client \<Rightarrow> bytes set" where
  "slots_at c = slots (mh_db (cl_world c))"

lemma register_slot_adds:
  assumes "talks_to_node e now me" and "client_register_slot e addr s c = (Ok (), c')"
  shows "slots_at c' = insert s (slots_at c)"
proof -
  from assms(2) obtain c1 where "call_node e addr (RegisterSlot (mailbox_key (cl_identity c)) s) c = (Ok RespOk, c1)"
    and "c' = c1" by (auto simp: client_register_slot_def and_then_Ok_iff expect_ok_Ok)
  with assms(1) obtain h' where "answer (env_sha256 e) now me (Inr (RegisterSlot (mailbox_key (cl_identity c)) s))
      (cl_world c) = (Ok RespOk, h')" and "c' = c\<lparr>cl_world := h'\<rparr>" by (auto elim: call_node_Ok)
  then show ?thesis by (auto simp: slots_at_def dest: answer_RegisterSlot)
qed

text \<open>The authorisations of a pair, as far as HKDF produces them.\<close>

definition auth_hash :: "('acc, 'ses, 'r, 'addr, 'w) env \<Rightarrow> bytes \<Rightarrow> nat \<Rightarrow> bytes" where
  "auth_hash e secret n = (case derive_auth (env_hkdf e) secret (word_of_nat n) of Ok a \<Rightarrow> env_sha256 e a | _ \<Rightarrow> [])"

lemma lift_Ok_iff: "lift_outcome r c = (Ok a, c') \<longleftrightarrow> r = Ok a \<and> c' = c"
  by (auto simp: lift_outcome_def)

lemma register_loop:
  assumes "talks_to_node e now me"
    and "for_each (\<lambda>n. and_then (lift_outcome (map_err Proto (derive_auth (env_hkdf e) secret (word_of_nat n))))
           (\<lambda>auth. client_register_slot e addr (env_sha256 e auth))) ns c = (Ok (), c')"
  shows "slots_at c' = slots_at c \<union> auth_hash e secret ` set ns
    \<and> (\<forall>n \<in> set ns. \<exists>a. derive_auth (env_hkdf e) secret (word_of_nat n) = Ok a)"
  using assms(2)
proof (induction ns arbitrary: c)
  case Nil
  then show ?case by (simp add: pure_def)
next
  case (Cons n ns)
  then obtain a c1 where a: "derive_auth (env_hkdf e) secret (word_of_nat n) = Ok a"
    and reg: "client_register_slot e addr (env_sha256 e a) c = (Ok (), c1)"
    and rest: "for_each (\<lambda>n. and_then (lift_outcome (map_err Proto (derive_auth (env_hkdf e) secret (word_of_nat n))))
           (\<lambda>auth. client_register_slot e addr (env_sha256 e auth))) ns c1 = (Ok (), c')"
    by (auto simp: and_then_Ok_iff lift_Ok_iff)
  from register_slot_adds[OF assms(1) reg] Cons.IH[OF rest] a show ?case by (auto simp: auth_hash_def)
qed

lemma store_do_world: "store_do m c = (r, c') \<Longrightarrow> cl_world c' = cl_world c \<and> cl_server_addr c' = cl_server_addr c"
  by (auto simp: store_do_def Let_def split: prod.splits)

lemma add_contact_slots:
  assumes "add_contact e ik ck otk tk name addr secret c = (Ok cid, c')" and "cl_server_addr c = Some own"
  obtains c1 where "cl_world c1 = cl_world c" and "register_slots e own secret c1 = (Ok (), c')"
proof -
  have addr_step: "cl_world c2 = cl_world c1 \<and> cl_server_addr c2 = cl_server_addr c1"
    if "when_some addr (\<lambda>addr. and_then (lift_outcome (or_err CorruptBackup (enc (env_addr e) addr))) (\<lambda>bs.
           store_do (set_contact_server_addr x (Some bs)))) c1 = (Ok (), c2)" for x c1 c2
    using that by (cases addr) (auto simp: pure_def and_then_Ok_iff lift_outcome_def dest: store_do_world)
  from assms(1) obtain c1 c2 c3 c4 c5 where
    "store_do (upsert_contact ik ck name) c = (Ok cid, c1)"
    "store_do (set_contact_pair_secret cid secret) c1 = (Ok (), c2)"
    "store_do (set_contact_transport_key cid tk) c2 = (Ok (), c3)"
    "when_some addr (\<lambda>addr. and_then (lift_outcome (or_err CorruptBackup (enc (env_addr e) addr))) (\<lambda>bs.
        store_do (set_contact_server_addr cid (Some bs)))) c3 = (Ok (), c4)"
    "store_do (set_contact_pending_otk cid (Some otk)) c4 = (Ok (), c5)"
    and reg: "when_some (cl_server_addr c5) (\<lambda>my_addr. register_slots e my_addr secret) c5 = (Ok (), c')"
    unfolding add_contact_def and_then_Ok_iff by (auto simp: pure_Ok_iff)
  then have "cl_world c5 = cl_world c" and "cl_server_addr c5 = Some own"
    using assms(2) by (auto dest!: store_do_world addr_step)
  with reg that show ?thesis by simp
qed

subsection \<open>Backups\<close>

lemma decrypt_encrypt_backup:
  assumes "aead_correct a" and "length nonce = 24" and "encrypt_backup a key nonce pt = Ok blob"
  shows "decrypt_backup a key blob = Ok pt"
proof -
  from assms(3) obtain p ct where p: "backup_pad pt = Ok p" and ct: "aead_encrypt a key nonce p = Some ct"
    and blob: "blob = nonce @ ct"
    by (auto simp: encrypt_backup_def bind_outcome_Ok_iff split: option.splits)
  from ct have "aead_decrypt a key nonce ct = Some p" using assms(1) unfolding aead_correct_def by blast
  with assms(2) backup_unpad_pad[OF p] show ?thesis by (simp add: decrypt_backup_def NONCE_LEN_def blob)
qed

text \<open>A device restored from a bundle, after its server address has been set.\<close>

definition restored_device :: "BackupBundle \<Rightarrow> bool \<Rightarrow> bytes \<Rightarrow> store" where
  "restored_device b fk addr = snd (set_own_server_addr (Some addr)
     (after_contacts (bb_contacts b) ((empty_store fk)\<lparr>account := Some (restored_account b)\<rparr>)))"

lemma assemble_restored_device:
  assumes "\<forall>c \<in> set (bb_contacts b). bundle_contact_ok c" and "distinct (map bc_identity_key (bb_contacts b))"
  shows "fst (assemble (restored_device b fk addr)) = Ok (b\<lparr>bb_own_server_addr := Some addr\<rparr>)"
proof -
  let ?s = "after_contacts (bb_contacts b) ((empty_store fk)\<lparr>account := Some (restored_account b)\<rparr>)"
  let ?a = "(restored_account b)\<lparr>a_own_server_addr := Some addr\<rparr>"
  have dev: "restored_device b fk addr = ?s\<lparr>account := Some ?a\<rparr>"
    by (simp add: restored_device_def set_own_server_addr_def upsert_account_def)
  from restored_store[OF assms, of fk]
  have wf: "store_wf ?s" and b: "bundle_of ?s (restored_account b) (as_i64 (bb_pointer_broadcast_seq b)) = b" by auto
  have "store_wf (restored_device b fk addr)" using wf by (simp add: dev store_wf_def)
  then have "assemble (restored_device b fk addr) = (Ok (bundle_of (restored_device b fk addr) ?a
      (as_i64 (bb_pointer_broadcast_seq b))), restored_device b fk addr)"
    by (rule assemble_ok) (simp_all add: dev restored_account_def)
  moreover have "bundle_of (restored_device b fk addr) ?a (as_i64 (bb_pointer_broadcast_seq b))
      = b\<lparr>bb_own_server_addr := Some addr\<rparr>"
    by (subst (3) b[symmetric]) (simp add: bundle_of_def dev session_of_def history_of_def)
  ultimately show ?thesis by simp
qed

lemma call_never_panics: "call (node_network sha rq rs now me) rq rs addr req h \<noteq> (Panic, h')"
  by (auto simp: call_def and_then_def lift_outcome_def node_network_def split: prod.splits outcome.splits if_splits)

text \<open>On a new device the endpoint can be bound and a new database file opened.\<close>

definition new_device_works :: "('acc, 'ses, 'r, 'addr, 'w) env \<Rightarrow> bool" where
  "new_device_works e \<longleftrightarrow> (\<forall>k w. env_bind e k w = (Ok (), w))
     \<and> (\<forall>k fk. env_open_store e k (empty_store fk) = Ok (empty_store fk))"

lemma pushed_backup:
  assumes "talks_to_node e now me" and "aead_correct (env_aead e)"
    and "\<And>n w. length (fst (env_random e n w)) = n" and "codec_roundtrip (env_bundle e)"
    and "assemble (cl_store c) = (Ok b, cl_store c)" and "push_backup e c = (Ok (), c')"
  obtains blob pt where "backup_row (mh_db (cl_world c')) = Some blob"
    and "mh_mailbox_key (cl_world c') = mailbox_key (cl_identity c)"
    and "decrypt_backup (env_aead e) (backup_key (cl_identity c)) blob = Ok pt"
    and "bundle_deserialize (env_bundle e) pt = Ok b"
proof -
  from assms(6) obtain addr blob c1 c2 where bun: "encrypted_bundle e c = (Ok blob, c1)"
    and put: "call_node e addr (PutBackup (mailbox_key (cl_identity c1)) blob) c1 = (Ok RespOk, c2)" and c': "c' = c2"
    by (auto simp: push_backup_def and_then_Ok_iff expect_ok_Ok require_def lift_Ok_iff)
  from bun assms(5) obtain pt nonce w where ser: "bundle_serialize (env_bundle e) b = Ok pt"
    and nonce: "env_random e NONCE_LEN (cl_world c) = (nonce, w)" and c1: "c1 = c\<lparr>cl_world := w\<rparr>"
    and blob: "encrypt_backup (env_aead e) (backup_key (cl_identity c)) nonce pt = Ok blob"
    by (auto simp: encrypted_bundle_def and_then_Ok_iff lift_Ok_iff world_do_def Let_def split: prod.splits)
  have "length nonce = 24" using assms(3)[of NONCE_LEN "cl_world c"] nonce by (simp add: NONCE_LEN_def)
  then have "decrypt_backup (env_aead e) (backup_key (cl_identity c)) blob = Ok pt"
    using blob by (rule decrypt_encrypt_backup[OF assms(2)])
  moreover have "bundle_deserialize (env_bundle e) pt = Ok b"
    using ser codec_roundtripD[OF assms(4)] by (auto simp: bundle_serialize_def bundle_deserialize_def split: sum.splits)
  moreover from put assms(1) c' obtain h' where
    "answer (env_sha256 e) now me (Inr (PutBackup (mailbox_key (cl_identity c1)) blob)) (cl_world c1) = (Ok RespOk, h')"
    "c' = c1\<lparr>cl_world := h'\<rparr>" by (auto elim: call_node_Ok)
  ultimately show ?thesis
    using that[of blob pt] answer_PutBackup c1 by (fastforce simp: put_backup_def)
qed

text \<open>Asking the node for the backup gives the stored one, or fails in the transport.\<close>

lemma fetched_backup:
  assumes "talks_to_node e now me" and "mh_mailbox_key h = key" and "backup_row (mh_db h) = Some blob"
  obtains t h' where "call (env_net e) (env_request e) (env_response e) addr (GetBackup key) h = (Err t, h')"
  | "call (env_net e) (env_request e) (env_response e) addr (GetBackup key) h = (Ok (Backup (Some blob)), h)"
proof (cases "call (env_net e) (env_request e) (env_response e) addr (GetBackup key) h")
  case (Pair r h')
  show ?thesis
  proof (cases r)
    case (Ok resp)
    with Pair assms(1) have "answer (env_sha256 e) now me (Inr (GetBackup key)) h = (Ok resp, h')"
      unfolding talks_to_node_def using node_call by metis
    then have "resp = Backup (Some blob)" and "h' = h"
      using assms(2,3) by (auto simp: answer_def get_backup_def)
    with Pair Ok that(2) show ?thesis by simp
  next
    case (Err t)
    with Pair that(1) show ?thesis by simp
  next
    case Panic
    with Pair assms(1) call_never_panics show ?thesis unfolding talks_to_node_def by metis
  qed
qed

lemma restore_from_node:
  assumes "new_device_works e" and "Identity_derive (env_hkdf e) seed = Ok identity"
    and "call (env_net e) (env_request e) (env_response e) addr (GetBackup (mailbox_key identity)) h
      = (Ok (Backup (Some blob)), h)"
    and "decrypt_backup (env_aead e) (backup_key identity) blob = Ok pt"
    and "bundle_deserialize (env_bundle e) pt = Ok b"
    and "\<forall>c \<in> set (bb_contacts b). bundle_contact_ok c" and "distinct (map bc_identity_key (bb_contacts b))"
    and "account_from_pickle (env_olm e) (bb_account_pickle b) = Ok acc" and "enc (env_addr e) addr = Inr ab"
  shows "\<exists>d. restore e seed addr (empty_store fk, h) =
    (Ok \<lparr>cl_identity = identity, cl_store = restored_device b fk ab, cl_account = acc,
         cl_server_addr = Some addr, cl_spawned = [], cl_world = h\<rparr>, d)"
  using assms(1) restore_into_empty[OF assms(6,7), of fk]
  by (simp add: restore_def and_then_def lift_outcome_def assms(2-5,8,9) bind_endpoint_def new_device_works_def
      pure_def require_def restore_bundle_def disk_do_def set_own_server_addr_def from_parts_def
      restored_device_def open_store_def Let_def)

lemma restore_transport_error:
  assumes "new_device_works e" and "Identity_derive (env_hkdf e) seed = Ok identity"
    and "call (env_net e) (env_request e) (env_response e) addr (GetBackup (mailbox_key identity)) h = (Err t, h')"
  shows "fst (restore e seed addr (s, h)) = Err (TransportErr t)"
  using assms by (simp add: restore_def and_then_def lift_outcome_def bind_endpoint_def new_device_works_def)

section \<open>Two clients\<close>

text \<open>
  The outside world of the sender is the recipient, who may have gone. A connection on the direct
  protocol is answered by the recipient's accept loop; nothing else can be reached.
\<close>

definition direct_network ::
  "('acc, 'ses, 'r, 'addr, 'w) env \<Rightarrow> ('a, ('acc, 'addr, 'w) client option) network" where
  "direct_network e =
     \<lparr>net_connect = \<lambda>_ alpn w. if alpn = DIRECT_ALPN then (Ok (), w) else (Err (Connect ''no such protocol''), w),
      net_exchange = \<lambda>_ _ bs limit w.
        case direct_accept e bs w of
          (Ok rb, w') \<Rightarrow> if limit < length rb then (Err (Stream ''too long''), w') else (Ok rb, w')
        | (_, w') \<Rightarrow> (Err (Stream ''closed''), w')\<rparr>"

lemma direct_ack_Ok:
  assumes "direct_ack e bs c = (Ok AckOk, c')"
  obtains envelope a where "from_padded_bytes (env_envelope e) bs = Ok envelope"
    and "attribute_and_store e envelope c = (Ok a, c')" and "a \<noteq> Unattributed"
proof (cases "from_padded_bytes (env_envelope e) bs")
  case (Ok envelope)
  show ?thesis
  proof (cases "attribute_and_store e envelope c")
    case (Pair r c1)
    show ?thesis
    proof (cases r)
      case (Ok a)
      with Pair assms \<open>from_padded_bytes _ _ = _\<close> have "c1 = c'" and "a \<noteq> Unattributed"
        by (auto simp: direct_ack_def and_then_def attempt_def pure_def split: Attribution.splits)
      with Pair Ok \<open>from_padded_bytes _ _ = _\<close> that show ?thesis by simp
    qed (use Pair assms \<open>from_padded_bytes _ _ = _\<close> in \<open>auto simp: direct_ack_def and_then_def attempt_def pure_def\<close>)
  qed
qed (use assms in \<open>auto simp: direct_ack_def pure_def\<close>)

lemma expect_enc_iff: "(case x of Inl err \<Rightarrow> Panic | Inr bs \<Rightarrow> Ok bs) = Ok rb \<longleftrightarrow> x = Inr rb"
  by (cases x) auto

lemma ack_Ok_iff:
  "(case a of AckOk \<Rightarrow> pure () | AckError err \<Rightarrow> fail (f err)) w = (Ok (), w') \<longleftrightarrow> a = AckOk \<and> w' = w"
  by (cases a) (auto simp: pure_def fail_def)

lemma call_direct_Ok:
  assumes "codec_roundtrip (env_ack e)" and "call_direct (direct_network e) (env_ack e) addr bs w = (Ok (), w')"
  obtains c c' where "w = Some c" and "w' = Some c'" and "direct_ack e bs c = (Ok AckOk, c')"
proof -
  from assms(2) obtain rb where ex: "direct_accept e bs w = (Ok rb, w')" and dec: "dec (env_ack e) rb = Inr AckOk"
    by (auto simp: call_direct_def and_then_Ok_iff direct_network_def lift_Ok_iff ack_Ok_iff
        split: prod.splits outcome.splits if_splits)
  from ex obtain reply where step: "(case w of
            None \<Rightarrow> (Ok (AckError ''this device is no longer reachable''), None)
          | Some c \<Rightarrow> (let (r, c') = direct_ack e bs c in (r, Some c'))) = (Ok reply, w')"
    and enc: "enc (env_ack e) reply = Inr rb"
    by (auto simp: direct_accept_def and_then_Ok_iff lift_Ok_iff fail_def expect_enc_iff split: if_splits)
  from codec_roundtripD[OF assms(1) enc] dec have reply: "reply = AckOk" by simp
  with step obtain c where w: "w = Some c" by (cases w) auto
  with step reply that show ?thesis by (auto split: prod.splits)
qed

lemma attempt_Ok_Ok: "attempt m c = (Ok (Ok a), c') \<longleftrightarrow> m c = (Ok a, c')"
  by (auto simp: attempt_def split: prod.splits outcome.splits)

lemma attempt_no_panic: "attempt m c \<noteq> (Ok Panic, c')"
  by (auto simp: attempt_def split: prod.splits outcome.splits)

lemma deliver_direct_Delivered:
  assumes "deliver_direct e contact otype ct lam at mid c = (Ok Delivered, c')"
  obtains peer blob where "to_padded_bytes (env_envelope e) (Envelope_new otype ct 0 lam at mid) = Ok blob"
    and "try_direct e peer blob c = (Ok (), c')"
proof -
  from assms obtain tk peer blob c1 and res :: "(unit, CoreError) outcome" where
    blob: "envelope_bytes_of e otype ct 0 lam at mid c = (Ok blob, c)"
    and att: "attempt (try_direct e peer blob) c = (Ok res :: (_, CoreError) outcome, c1)"
    and res: "(case res of
         Err direct_err \<Rightarrow> (\<lambda>c.
           case cl_server_addr c of
             None \<Rightarrow> (Err direct_err, c)
           | Some my_addr \<Rightarrow>
               and_then (attempt (schedule_retry e my_addr mid tk blob)) (\<lambda>queued.
                 if is_ok queued then pure Sent else fail direct_err) c)
       | _ \<Rightarrow> pure Delivered) c1 = (Ok Delivered, c')"
    by (auto simp: deliver_direct_def and_then_Ok_iff require_def lift_Ok_iff envelope_bytes_of_def)
  have "res = Ok () \<and> c1 = c'"
  proof (cases res)
    case (Err err)
    with res show ?thesis
      by (cases "cl_server_addr c1") (auto simp: and_then_Ok_iff pure_def fail_def split: if_splits)
  next
    case Panic
    with att show ?thesis by (simp add: attempt_no_panic)
  qed (use res in \<open>simp add: pure_def\<close>)
  with att have "try_direct e peer blob c = (Ok (), c')" by (simp add: attempt_Ok_Ok)
  with blob that show ?thesis by (auto simp: envelope_bytes_of_def lift_Ok_iff)
qed

lemma try_direct_Ok:
  assumes "try_direct e peer blob c = (Ok (), c')"
  obtains w' where "call_direct (env_net e) (env_ack e) peer blob (cl_world c) = (Ok (), w')" and "cl_world c' = w'"
  using assms by (auto simp: try_direct_def Let_def split: option.splits prod.splits)

lemma save_session_world: "save_session e cid ses c = (r, c') \<Longrightarrow> cl_world c' = cl_world c"
  by (auto simp: save_session_def and_then_def lift_outcome_def store_do_def Let_def split: prod.splits outcome.splits)

lemma delivered_directly:
  assumes "deliver e cid payload c = (Ok (mid, lam, at, Delivered), c')"
  obtains otype ct peer blob w where
    "to_padded_bytes (env_envelope e) (Envelope_new otype ct 0 lam at mid) = Ok blob"
    and "call_direct (env_net e) (env_ack e) peer blob w = (Ok (), cl_world c')"
proof -
  from assms obtain contact ses ses' otype ct c2 c3 c4 where
    d: "(case server_addr contact of
          Some addr_bytes \<Rightarrow> deliver_to_server e cid contact addr_bytes otype ct lam at mid
        | None \<Rightarrow> deliver_direct e contact otype ct lam at mid) c3 = (Ok Delivered, c4)"
    and save: "save_session e cid ses' c4 = (Ok (), c')"
    unfolding deliver_def deliver_in_session_def by (auto simp: and_then_Ok_iff pure_Ok_iff)
  have "server_addr contact = None"
    using d by (cases "server_addr contact") (auto simp: deliver_to_server_def and_then_Ok_iff pure_def)
  with d have "deliver_direct e contact otype ct lam at mid c3 = (Ok Delivered, c4)" by simp
  then show ?thesis
    using that save_session_world[OF save] by (metis deliver_direct_Delivered try_direct_Ok)
qed

end
