(* ===== verification/Connected_Examples.thy ===== *)
theory Connected_Examples
  imports Connected
begin

text \<open>
  Closed instances of the connected programs, on which the theorems about them are evaluated: a
  device with its node, and two devices that deliver to each other directly.
\<close>

section \<open>A device and its node\<close>

definition alice :: Identity where
  "alice = (case Identity_derive sample_hkdf (replicate 32 7) of Ok i \<Rightarrow> i | _ \<Rightarrow> sample_identity)"

lemma alice_derived: "Identity_derive sample_hkdf (replicate 32 7) = Ok alice"
proof -
  have "\<forall>label. \<exists>okm. hkdf_expand_32 sample_hkdf (replicate 32 7) label = Ok okm"
    using hkdf_expand_32_Ok[OF sample_hkdf_lengths] by metis
  then obtain f where "\<And>label. hkdf_expand_32 sample_hkdf (replicate 32 7) label = Ok (f label)" by metis
  then have "\<exists>i. Identity_derive sample_hkdf (replicate 32 7) = Ok i"
    by (simp add: Identity_derive_def)
  then show ?thesis by (auto simp: alice_def)
qed

definition alice_request :: "NodeRequest codec" where
  "alice_request =
     \<lparr>enc = \<lambda>r. (case r of
          RegisterSlot k h \<Rightarrow> if k = mailbox_key alice then Inr (0 # h) else Inl []
        | PutBackup k b \<Rightarrow> if k = mailbox_key alice then Inr (1 # b) else Inl []
        | GetBackup k \<Rightarrow> if k = mailbox_key alice then Inr [2] else Inl []
        | _ \<Rightarrow> Inl []),
      dec = \<lambda>bs. (case bs of [] \<Rightarrow> Inl [] | t # b \<Rightarrow>
          if t = 0 then Inr (RegisterSlot (mailbox_key alice) b)
          else if t = 1 then Inr (PutBackup (mailbox_key alice) b)
          else if t = 2 \<and> b = [] then Inr (GetBackup (mailbox_key alice)) else Inl [])\<rparr>"

definition alice_response :: "NodeResponse codec" where
  "alice_response =
     \<lparr>enc = \<lambda>r. (case r of RespOk \<Rightarrow> Inr [0] | Backup (Some b) \<Rightarrow> Inr (1 # b) | _ \<Rightarrow> Inl []),
      dec = \<lambda>bs. (case bs of [] \<Rightarrow> Inl [] | t # b \<Rightarrow>
          if t = 0 \<and> b = [] then Inr RespOk else if t = 1 then Inr (Backup (Some b)) else Inl [])\<rparr>"

lemma alice_codecs: "codec_roundtrip alice_request" "codec_roundtrip alice_response"
  by (auto simp: codec_roundtrip_def alice_request_def alice_response_def
      split: NodeRequest.splits NodeResponse.splits if_splits option.splits)

definition alice_store :: store where
  "alice_store = snd (save_account_pickle [] (empty_store True))"

definition alice_account :: account_row where
  "alice_account = empty_account"

definition alice_env :: "(unit, unit, unit, nat, string MailboxHandler) env" where
  "alice_env = (sample_env (node_network (\<lambda>b. b) alice_request alice_response 0 ''alice''))\<lparr>
     env_request := alice_request, env_response := alice_response, env_hkdf := sample_hkdf,
     env_aead := sample_aead, env_bundle := single_codec (bundle_of alice_store alice_account 0) [5]\<rparr>"

definition alice_node :: "string MailboxHandler" where
  "alice_node = MailboxHandler_new empty_node_db (RateLimiter_new 60 60000) (mailbox_key alice)"

definition alice_client :: "(unit, nat, string MailboxHandler) client" where
  "alice_client = \<lparr>cl_identity = alice, cl_store = alice_store, cl_account = (), cl_server_addr = Some 0,
     cl_spawned = [], cl_world = alice_node\<rparr>"

lemma alice_talks: "talks_to_node alice_env 0 ''alice''"
  by (simp add: talks_to_node_def alice_env_def alice_codecs sample_env_def)

text \<open>After at most \<open>k\<close> requests, all at time zero.\<close>

definition busy :: "nat \<Rightarrow> string MailboxHandler \<Rightarrow> bool" where
  "busy k h \<longleftrightarrow> mh_mailbox_key h = mailbox_key alice \<and> blobs_seq (mh_db h) = 0
     \<and> max_per_window (mh_rate_limiter h) = 60 \<and> window_ms (mh_rate_limiter h) = 60000
     \<and> (case windows (mh_rate_limiter h) ''alice'' of None \<Rightarrow> True
        | Some w \<Rightarrow> started_at_ms w = 0 \<and> window_count w \<le> k)"

lemma busy_alice_node: "busy 0 alice_node"
  by (simp add: busy_def alice_node_def MailboxHandler_new_def RateLimiter_new_def empty_node_db_def)

lemma busy_answer:
  assumes "busy k h" and "k < 60"
  shows "\<exists>h'. answer (\<lambda>b. b) 0 ''alice'' (Inr (RegisterSlot (mailbox_key alice) s)) h = (Ok RespOk, h') \<and> busy (Suc k) h'"
proof (cases "windows (mh_rate_limiter h) ''alice''")
  case None
  with assms show ?thesis
    by (auto simp: busy_def answer_def Let_def allow_def current_window_def register_slot_def)
next
  case (Some w)
  then have "current_window (mh_rate_limiter h) 0 ''alice'' = w"
    using assms by (simp add: busy_def current_window_def Let_def expired_def saturating_sub_def i64_min_def i64_max_def)
  with assms Some show ?thesis
    by (auto simp: busy_def answer_def Let_def allow_def register_slot_def)
qed

lemma node_call_Ok:
  assumes "enc rq req = Inr b" and "length b \<le> MAX_MESSAGE_SIZE" and "dec rq b = Inr req"
    and "answer sha now me (Inr req) h = (Ok resp, h')" and "enc rs resp = Inr rb"
    and "length rb \<le> MAX_MESSAGE_SIZE" and "dec rs rb = Inr resp"
  shows "call (node_network sha rq rs now me) rq rs addr req h = (Ok resp, h')"
proof -
  have "accept sha rq rs now me b h = (Ok rb, h')"
    using assms by (simp add: accept_def and_then_def)
  then have "net_exchange (node_network sha rq rs now me) addr NODE_ALPN b MAX_MESSAGE_SIZE h = (Ok rb, h')"
    using assms(6) by (simp add: node_network_def)
  moreover have "net_connect (node_network sha rq rs now me) addr NODE_ALPN h = (Ok (), h)"
    by (simp add: node_network_def)
  ultimately show ?thesis
    using assms(1,7) unfolding call_Ok_iff by blast
qed

lemma alice_registers:
  assumes "busy k (cl_world c)" and "k < 60" and "length s = 32" and "cl_identity c = alice"
  shows "\<exists>c'. client_register_slot alice_env 0 s c = (Ok (), c') \<and> busy (Suc k) (cl_world c') \<and> cl_identity c' = alice"
proof -
  obtain h' where a: "answer (\<lambda>b. b) 0 ''alice'' (Inr (RegisterSlot (mailbox_key alice) s)) (cl_world c) = (Ok RespOk, h')"
    and b: "busy (Suc k) h'" using busy_answer[OF assms(1,2)] by blast
  have "call (node_network (\<lambda>b. b) alice_request alice_response 0 ''alice'') alice_request alice_response (0 :: nat)
      (RegisterSlot (mailbox_key alice) s) (cl_world c) = (Ok RespOk, h')"
    by (rule node_call_Ok[OF _ _ _ a, where b = "0 # s" and rb = "[0]"])
      (use assms(3) in \<open>simp_all add: alice_request_def alice_response_def MAX_MESSAGE_SIZE_def\<close>)
  then show ?thesis
    using b assms(4)
    by (simp add: client_register_slot_def and_then_def call_node_def alice_env_def expect_ok_def pure_def)
qed

lemma alice_registers_all:
  assumes "busy k (cl_world c)" and "k + length ns \<le> 60" and "cl_identity c = alice"
  shows "\<exists>c'. for_each (\<lambda>n. and_then (lift_outcome (map_err Proto (derive_auth (env_hkdf alice_env) secret (word_of_nat n))))
      (\<lambda>auth. client_register_slot alice_env 0 (env_sha256 alice_env auth))) ns c = (Ok (), c') \<and> busy 60 (cl_world c')"
  using assms
proof (induction ns arbitrary: k c)
  case Nil
  then show ?case by (auto simp: pure_def busy_def split: option.splits)
next
  case (Cons n ns)
  obtain a where a: "derive_auth sample_hkdf secret (word_of_nat n) = Ok a" "length a = 32"
    using derive_auth_Ok[OF sample_hkdf_lengths] by blast
  obtain c1 where c1: "client_register_slot alice_env 0 a c = (Ok (), c1)" "busy (Suc k) (cl_world c1)" "cl_identity c1 = alice"
    using alice_registers[OF Cons.prems(1) _ a(2) Cons.prems(3)] Cons.prems(2) by auto
  have hk: "env_hkdf alice_env = sample_hkdf" "env_sha256 alice_env a = a"
    by (simp_all add: alice_env_def sample_env_def)
  from Cons.IH[OF c1(2) _ c1(3)] Cons.prems(2) show ?case
    by (simp add: and_then_def lift_outcome_apply hk a(1) c1(1))
qed

lemma alice_adds_bob:
  "\<exists>cid c'. add_contact alice_env (replicate 32 1) (replicate 32 2) (replicate 32 6) (replicate 32 5) None None
      (replicate 32 4) alice_client = (Ok cid, c') \<and> busy 60 (cl_world c')"
proof -
  let ?c = "\<lambda>s. alice_client\<lparr>cl_store := s\<rparr>"
  have reg: "\<exists>c'. register_slots alice_env 0 (replicate 32 4) (?c s) = (Ok (), c') \<and> busy 60 (cl_world c')" for s
    unfolding register_slots_def
    by (rule alice_registers_all[where k = 0]) (simp_all add: alice_client_def busy_alice_node SLOT_REPLENISH_BATCH_def)
  have up: "\<exists>cid s. upsert_contact (replicate 32 1) (replicate 32 2) None alice_store = (Ok cid, s)"
    by (simp add: upsert_contact_def alice_store_def save_account_pickle_def upsert_account_def empty_store_def
        Let_def upsert_def)
  then obtain cid s1 where s1: "upsert_contact (replicate 32 1) (replicate 32 2) None alice_store = (Ok cid, s1)" by blast
  define s5 where "s5 = snd (set_contact_pending_otk cid (Some (replicate 32 6))
    (snd (set_contact_transport_key cid (replicate 32 5) (snd (set_contact_pair_secret cid (replicate 32 4) s1)))))"
  obtain c' where "register_slots alice_env 0 (replicate 32 4) (?c s5) = (Ok (), c')" "busy 60 (cl_world c')"
    using reg by blast
  with s1 have "add_contact alice_env (replicate 32 1) (replicate 32 2) (replicate 32 6) (replicate 32 5) None None
      (replicate 32 4) alice_client = (Ok cid, c')"
    by (simp add: add_contact_def and_then_def store_do_def alice_client_def contact_setter_defs update_contact_def
        pure_def s5_def)
  with \<open>busy 60 (cl_world c')\<close> show ?thesis by blast
qed

lemma alice_store_ok:
  "store_wf alice_store" "account alice_store = Some alice_account"
  "a_pointer_broadcast_seq alice_account = Integer 0"
proof -
  show "store_wf alice_store" by (simp add: alice_store_def)
  show "account alice_store = Some alice_account" "a_pointer_broadcast_seq alice_account = Integer 0"
    by (simp_all add: alice_store_def alice_account_def save_account_pickle_def upsert_account_def empty_store_def
        empty_account_def)
qed

lemma alice_pushes: "\<exists>c'. push_backup alice_env alice_client = (Ok (), c')"
proof -
  let ?b = "bundle_of alice_store alice_account 0"
  from assemble_ok[OF alice_store_ok] have asm: "assemble alice_store = (Ok ?b, alice_store)" .
  have "backup_bucket (length [5 :: byte]) \<le> 4096"
    using backup_bucket_le[of "length [5 :: byte]" 12] by simp
  moreover obtain p where p: "backup_pad [5] = Ok p" "length p = backup_bucket (length [5 :: byte])"
    using backup_pad_Ok[of "[5 :: byte]"] by auto
  ultimately have len: "length p \<le> 4096" by simp
  define blob where "blob = replicate 24 9 @ p @ replicate 16 0"
  have bun: "encrypted_bundle alice_env alice_client = (Ok blob, alice_client)"
    by (simp add: encrypted_bundle_def and_then_def alice_client_def asm lift_outcome_def bundle_serialize_def
        alice_env_def single_codec_def world_do_def encrypt_backup_def p(1) sample_aead_def blob_def NONCE_LEN_def)
  have ans: "answer (\<lambda>b. b) 0 ''alice'' (Inr (PutBackup (mailbox_key alice) blob)) alice_node
      = (Ok RespOk, alice_node\<lparr>mh_db := put_backup blob (mh_db alice_node)\<rparr>)"
    by (simp add: answer_def Let_def alice_node_def MailboxHandler_new_def)
  have "call (node_network (\<lambda>b. b) alice_request alice_response 0 ''alice'') alice_request alice_response (0 :: nat)
      (PutBackup (mailbox_key alice) blob) alice_node = (Ok RespOk, alice_node\<lparr>mh_db := put_backup blob (mh_db alice_node)\<rparr>)"
    by (rule node_call_Ok[OF _ _ _ ans, where b = "1 # blob" and rb = "[0]"])
      (use len in \<open>simp_all add: alice_request_def alice_response_def MAX_MESSAGE_SIZE_def blob_def\<close>)
  then have "\<exists>c'. call_node alice_env 0 (PutBackup (mailbox_key alice) blob) alice_client = (Ok RespOk, c')"
    by (simp add: call_node_def alice_client_def alice_env_def)
  moreover have "cl_server_addr alice_client = Some 0" "cl_identity alice_client = alice"
    by (simp_all add: alice_client_def)
  ultimately show ?thesis
    using bun by (auto simp: push_backup_def and_then_def require_def lift_outcome_def expect_ok_def pure_def)
qed

section \<open>Two devices\<close>

definition meeting_codec :: "Envelope codec" where
  "meeting_codec = single_codec (Envelope_new 1 [0, 7] 0 1 5 (replicate 16 9)) [4]"

definition bob_env :: "(unit, unit, unit, nat, unit) env" where
  "bob_env = (sample_env dead_network)\<lparr>env_envelope := meeting_codec, env_ack := single_codec AckOk [0]\<rparr>"

definition carol_env :: "(unit, unit, unit, nat, (unit, nat, unit) client option) env" where
  "carol_env = (sample_env (direct_network bob_env))\<lparr>env_envelope := meeting_codec, env_ack := single_codec AckOk [0]\<rparr>"

lemma carol_delivers:
  "\<exists>c'. deliver carol_env 1 (Chat [7]) (sample_client (paired_store None) None (Some session_client))
     = (Ok (replicate 16 9, 1, 5, Delivered), c')"
proof -
  let ?s = "snd (set_contact_pending_otk 1 None (paired_store None))"
  let ?s1 = "?s\<lparr>local_clock := Integer 1\<rparr>"
  let ?env = "Envelope_new 1 [0, 7] 0 1 5 (replicate 16 9)"
  have like: "sample_like carol_env" by (simp add: sample_like_def carol_env_def sample_env_def fun_eq_iff)
  have clock: "local_clock ?s = Integer 0" by (simp add: set_contact_pending_otk_def update_contact_def)
  obtain b where b: "pad [4] = Ok b" using pad_Ok_iff[of "[4]"] by auto
  from b have ub: "unpad b = Ok [4]" using env_pad.ps.unpad_pad[of "[4]" b] by simp
  have "length b \<le> MAX_MESSAGE_SIZE"
    using pad_length_bucket[OF b] by (auto simp: envelope_bucket_simp MAX_MESSAGE_SIZE_def split: if_splits)
  moreover obtain bob' where "attribute_and_store bob_env ?env session_client = (Ok AttrChat, bob')"
    using chat_stored[of bob_env ?env 1 5 "()"]
    by (auto simp: bob_env_def session_client_def payload_deserialize_def sample_payload_codec_def)
  then have "direct_ack bob_env b session_client = (Ok AckOk, bob')"
    by (simp add: direct_ack_def from_padded_bytes_def ub bob_env_def meeting_codec_def single_codec_def
        and_then_def attempt_def pure_def)
  ultimately have "direct_accept bob_env b (Some session_client) = (Ok [0], Some bob')"
    by (simp add: direct_accept_def and_then_def bob_env_def single_codec_def lift_outcome_def)
  then have call: "call_direct (direct_network bob_env) (single_codec AckOk [0]) (32 :: nat) b (Some session_client)
      = (Ok (), Some bob')"
    by (simp add: call_direct_def and_then_def direct_network_def lift_outcome_def single_codec_def
        MAX_MESSAGE_SIZE_def pure_def)
  have env: "envelope_bytes_of carol_env 1 [0, 7] 0 1 5 (replicate 16 9) c = (Ok b, c)" for c
    by (simp add: envelope_bytes_of_def lift_outcome_def to_padded_bytes_def carol_env_def meeting_codec_def
        single_codec_def b)
  have dial: "try_direct carol_env 32 b (sample_client ?s1 None (Some session_client))
      = (Ok (), sample_client ?s1 None (Some bob'))"
    using call by (simp add: try_direct_def carol_env_def sample_client_def)
  have "deliver_direct carol_env (contact_of (paired_row None)) 1 [0, 7] 1 5 (replicate 16 9)
      (sample_client ?s1 None (Some session_client)) = (Ok Delivered, sample_client ?s1 None (Some bob'))"
    using dial like
    by (simp add: deliver_direct_def and_then_def require_def lift_outcome_def env attempt_def pure_def
        sample_like_def)
  moreover have "\<exists>c'. save_session carol_env 1 () (sample_client ?s1 None (Some bob')) = (Ok (), c')"
    by (simp add: save_session_def and_then_def lift_outcome_def session_pickle_def carol_env_def sample_olm_def
        store_do_def save_session_pickle_def fk_violated_def set_contact_pending_otk_def update_contact_def)
  ultimately have "\<exists>c'. deliver_in_session carol_env 1 (contact_of (paired_row None)) (Chat [7]) ()
      (sample_client ?s None (Some session_client)) = (Ok (replicate 16 9, 1, 5, Delivered), c')"
    by (auto simp: deliver_in_session_def and_then_def sample_encrypt[OF like] sample_world_do[OF like]
        sample_tick[OF clock] pure_def)
  then show ?thesis
    by (simp add: deliver_def and_then_def paired_contact paired_open_session[OF like])
qed

end
