(* ===== verification/Core_Concurrent.thy ===== *)
theory Core_Concurrent
  imports Core_Delivery
begin

text \<open>
  Deliveries that run concurrently with each other and with incoming messages. A client's
  \<^verbatim>\<open>deliver\<close> (\<^verbatim>\<open>crates/pm-core/src/client.rs\<close>) holds the client's
  \<^verbatim>\<open>send_lock\<close> from beginning to end, and waits for the network in between; sends,
  receipts and announcements are started by independent tasks. \<^verbatim>\<open>attribute_and_store\<close>,
  which the accept loop and \<^verbatim>\<open>sync\<close> call, does not take the lock. Here a delivery is
  three steps, and the steps of all tasks interleave.
\<close>

section \<open>The phases of a delivery\<close>

text \<open>What a delivery holds in its local variables while it waits for the network.\<close>

record 'ses pending_delivery =
  pd_cid :: i64
  pd_contact :: ContactRecord
  pd_session :: 'ses
  pd_otype :: byte
  pd_ciphertext :: bytes
  pd_lamport :: u64
  pd_sent_at :: u64
  pd_msg_id :: bytes

definition deliver_begin ::
  "('acc, 'ses, 'r, 'addr, 'w) env \<Rightarrow> i64 \<Rightarrow> PlaintextPayload
    \<Rightarrow> (('acc, 'addr, 'w) client, 'ses pending_delivery, CoreError) action" where
  "deliver_begin e cid payload =
     and_then (client_get_contact cid) (\<lambda>contact.
     and_then (open_session e cid contact) (\<lambda>ses.
     and_then (encrypt_payload e payload ses) (\<lambda>(ses', otype, ct).
     and_then (world_do (env_random e 16)) (\<lambda>msg_id.
     and_then (world_do (env_now e)) (\<lambda>sent_at.
     and_then (store_do tick_lamport) (\<lambda>lamport.
       pure \<lparr>pd_cid = cid, pd_contact = contact, pd_session = ses', pd_otype = otype, pd_ciphertext = ct,
         pd_lamport = lamport, pd_sent_at = sent_at, pd_msg_id = msg_id\<rparr>))))))"

definition deliver_transmit ::
  "('acc, 'ses, 'r, 'addr, 'w) env \<Rightarrow> 'ses pending_delivery
    \<Rightarrow> (('acc, 'addr, 'w) client, MessageStatus, CoreError) action" where
  "deliver_transmit e p =
     (case server_addr (pd_contact p) of
        Some addr_bytes \<Rightarrow> deliver_to_server e (pd_cid p) (pd_contact p) addr_bytes (pd_otype p) (pd_ciphertext p)
          (pd_lamport p) (pd_sent_at p) (pd_msg_id p)
      | None \<Rightarrow> deliver_direct e (pd_contact p) (pd_otype p) (pd_ciphertext p)
          (pd_lamport p) (pd_sent_at p) (pd_msg_id p))"

definition deliver_commit ::
  "('acc, 'ses, 'r, 'addr, 'w) env \<Rightarrow> 'ses pending_delivery \<Rightarrow> MessageStatus
    \<Rightarrow> (('acc, 'addr, 'w) client, bytes \<times> u64 \<times> u64 \<times> MessageStatus, CoreError) action" where
  "deliver_commit e p status =
     and_then (save_session e (pd_cid p) (pd_session p)) (\<lambda>_.
       pure (pd_msg_id p, pd_lamport p, pd_sent_at p, status))"

lemma and_then_pure_left: "and_then (pure a) k = k a"
  by (simp add: and_then_def pure_def fun_eq_iff)

lemma pending_phases:
  "deliver_transmit e \<lparr>pd_cid = cid, pd_contact = contact, pd_session = ses, pd_otype = otype, pd_ciphertext = ct,
      pd_lamport = lam, pd_sent_at = at, pd_msg_id = mid\<rparr> = (case server_addr contact of
        Some ab \<Rightarrow> deliver_to_server e cid contact ab otype ct lam at mid
      | None \<Rightarrow> deliver_direct e contact otype ct lam at mid)"
  "deliver_commit e \<lparr>pd_cid = cid, pd_contact = contact, pd_session = ses, pd_otype = otype, pd_ciphertext = ct,
      pd_lamport = lam, pd_sent_at = at, pd_msg_id = mid\<rparr> =
     (\<lambda>status. and_then (save_session e cid ses) (\<lambda>_. pure (mid, lam, at, status)))"
  unfolding deliver_transmit_def deliver_commit_def[abs_def] by (cases "server_addr contact"; simp)+

text \<open>Run one after the other, the phases are \<open>deliver\<close>.\<close>

lemma deliver_phases:
  "deliver e cid payload =
     and_then (deliver_begin e cid payload) (\<lambda>p. and_then (deliver_transmit e p) (deliver_commit e p))"
  unfolding deliver_def deliver_in_session_def deliver_begin_def
  by (simp add: and_then_assoc and_then_pure_left case_prod_unfold pending_phases)

section \<open>Tasks and the lock\<close>

text \<open>
  Where a task is in its call of \<^verbatim>\<open>deliver\<close>: not started; waiting for the lock; in the
  exchange with the network, with what it holds in its variables; back from it; returned, failed or
  dropped.
\<close>

datatype 'ses phase =
    New
  | Waiting i64 PlaintextPayload
  | Sending "'ses pending_delivery"
  | Answered "'ses pending_delivery" MessageStatus
  | Ended

fun has_guard :: "'ses phase \<Rightarrow> bool" where
  "has_guard (Sending p) = True"
| "has_guard (Answered p status) = True"
| "has_guard _ = False"

text \<open>The client, who holds \<^verbatim>\<open>send_lock\<close>, and the tasks, by number.\<close>

record ('acc, 'ses, 'addr, 'w) running =
  rn_client :: "('acc, 'addr, 'w) client"
  rn_lock :: "nat option"
  rn_tasks :: "nat \<Rightarrow> 'ses phase"

definition idle :: "('acc, 'addr, 'w) client \<Rightarrow> ('acc, 'ses, 'addr, 'w) running" where
  "idle c = \<lparr>rn_client = c, rn_lock = None, rn_tasks = (\<lambda>_. New)\<rparr>"

text \<open>
  \<^verbatim>\<open>self.send_lock.lock().await\<close> returns the guard when nobody has it, and otherwise does not
  return yet. The guard is dropped when the call ends, in whatever way.
\<close>

definition acquire :: "nat \<Rightarrow> nat option \<Rightarrow> nat option option" where
  "acquire t lock = (case lock of None \<Rightarrow> Some (Some t) | Some _ \<Rightarrow> None)"

definition drop_guard :: "nat \<Rightarrow> ('acc, 'addr, 'w) client \<Rightarrow> ('acc, 'ses, 'addr, 'w) running
    \<Rightarrow> ('acc, 'ses, 'addr, 'w) running" where
  "drop_guard t c s = s\<lparr>rn_client := c, rn_lock := None, rn_tasks := (rn_tasks s)(t := Ended)\<rparr>"

datatype ('addr, 'w) client_event =
    Call nat i64 PlaintextPayload
  | Give_Up nat
  | Begin nat i64 PlaintextPayload
  | Answer nat
  | Finish nat bool
  | Cancel nat "('addr, 'w) network"
  | Receive Envelope

text \<open>
  Every step looks at the phase of its own task only, and the one that takes the lock at the lock.
  A task that waits for the lock or for the network may be dropped: in the exchange it then leaves
  behind what a delivery does with some network \<open>net\<close>, which is how far the exchange had come.
  \<open>Finish\<close> says whether the delivery succeeded. An envelope is received at any time, by a task that
  does not take the lock.
\<close>

inductive conc_step ::
  "('acc, 'ses, 'r, 'addr, 'w) env \<Rightarrow> ('acc, 'ses, 'addr, 'w) running \<Rightarrow> ('addr, 'w) client_event
    \<Rightarrow> ('acc, 'ses, 'addr, 'w) running \<Rightarrow> bool"
  for e where
  calls: "rn_tasks s t = New
    \<Longrightarrow> conc_step e s (Call t cid payload) (s\<lparr>rn_tasks := (rn_tasks s)(t := Waiting cid payload)\<rparr>)"
| gives_up: "rn_tasks s t = Waiting cid payload
    \<Longrightarrow> conc_step e s (Give_Up t) (s\<lparr>rn_tasks := (rn_tasks s)(t := Ended)\<rparr>)"
| begins: "\<lbrakk>rn_tasks s t = Waiting cid payload; acquire t (rn_lock s) = Some lock;
     deliver_begin e cid payload (rn_client s) = (Ok p, c')\<rbrakk>
    \<Longrightarrow> conc_step e s (Begin t cid payload)
          (s\<lparr>rn_client := c', rn_lock := lock, rn_tasks := (rn_tasks s)(t := Sending p)\<rparr>)"
| begin_fails: "\<lbrakk>rn_tasks s t = Waiting cid payload; acquire t (rn_lock s) = Some lock;
     deliver_begin e cid payload (rn_client s) = (r, c'); \<not> is_ok r\<rbrakk>
    \<Longrightarrow> conc_step e s (Begin t cid payload) (drop_guard t c' s)"
| answered: "\<lbrakk>rn_tasks s t = Sending p; deliver_transmit e p (rn_client s) = (Ok status, c')\<rbrakk>
    \<Longrightarrow> conc_step e s (Answer t) (s\<lparr>rn_client := c', rn_tasks := (rn_tasks s)(t := Answered p status)\<rparr>)"
| answer_fails: "\<lbrakk>rn_tasks s t = Sending p; deliver_transmit e p (rn_client s) = (r, c'); \<not> is_ok r\<rbrakk>
    \<Longrightarrow> conc_step e s (Answer t) (drop_guard t c' s)"
| cancelled: "\<lbrakk>rn_tasks s t = Sending p; deliver_transmit (e\<lparr>env_net := net\<rparr>) p (rn_client s) = (r, c')\<rbrakk>
    \<Longrightarrow> conc_step e s (Cancel t net) (drop_guard t c' s)"
| finishes: "\<lbrakk>rn_tasks s t = Answered p status; deliver_commit e p status (rn_client s) = (r, c')\<rbrakk>
    \<Longrightarrow> conc_step e s (Finish t (is_ok r)) (drop_guard t c' s)"
| receives: "attribute_and_store e envelope (rn_client s) = (r, c')
    \<Longrightarrow> conc_step e s (Receive envelope) (s\<lparr>rn_client := c'\<rparr>)"

inductive_cases conc_finishE: "conc_step e s (Finish t ok) s'"

fun is_receive :: "('addr, 'w) client_event \<Rightarrow> bool" where
  "is_receive (Receive envelope) = True"
| "is_receive _ = False"

text \<open>The steps with which a task comes to wait for the lock, or no longer waits.\<close>

fun queues :: "('addr, 'w) client_event \<Rightarrow> bool" where
  "queues (Call t cid payload) = True"
| "queues (Give_Up t) = True"
| "queues _ = False"

section \<open>Mutual exclusion\<close>

definition exclusive :: "('acc, 'ses, 'addr, 'w) running \<Rightarrow> bool" where
  "exclusive s \<longleftrightarrow> (\<forall>t. has_guard (rn_tasks s t) \<longleftrightarrow> rn_lock s = Some t)"

lemma exclusiveD: "exclusive s \<Longrightarrow> has_guard (rn_tasks s t) \<Longrightarrow> rn_lock s = Some t"
  by (simp add: exclusive_def)

lemma acquire_iff: "acquire t lock = Some lock' \<longleftrightarrow> lock = None \<and> lock' = Some t"
  by (auto simp: acquire_def split: option.splits)

lemma exclusive_drop:
  assumes "exclusive s" and "has_guard (rn_tasks s t) \<or> rn_lock s = None"
  shows "exclusive (drop_guard t c s)"
  using assms by (auto simp: exclusive_def drop_guard_def)

lemma exclusive_moves:
  assumes "exclusive s" and "has_guard ph \<longleftrightarrow> has_guard (rn_tasks s t)"
  shows "exclusive (s\<lparr>rn_client := c, rn_tasks := (rn_tasks s)(t := ph)\<rparr>)"
    and "exclusive (s\<lparr>rn_tasks := (rn_tasks s)(t := ph)\<rparr>)" and "exclusive (s\<lparr>rn_client := c\<rparr>)"
  using assms by (simp_all add: exclusive_def)

lemma exclusive_step: "conc_step e s ev s' \<Longrightarrow> exclusive s \<Longrightarrow> exclusive s'"
proof (induction rule: conc_step.induct)
  case (begins s t cid payload lock p c')
  then show ?case by (simp add: exclusive_def acquire_iff)
qed (simp_all add: exclusive_moves exclusive_drop acquire_iff)

lemma exclusive_steps: "steps (conc_step e) (idle c) tr s \<Longrightarrow> exclusive s"
proof (induction rule: steps.induct)
  case no_steps
  show ?case by (simp add: exclusive_def idle_def)
next
  case (more_steps tr s ev s')
  from more_steps.hyps(2) more_steps.IH show ?case by (rule exclusive_step)
qed

section \<open>Serialisability\<close>

text \<open>
  The deliveries that took the lock, in that order, each with the network it was cut off in, if it
  was; and the same deliveries one after the other.
\<close>

fun begun :: "('addr, 'w) client_event list \<Rightarrow> (nat \<times> i64 \<times> PlaintextPayload) list" where
  "begun [] = []"
| "begun (Begin t cid payload # tr) = (t, cid, payload) # begun tr"
| "begun (_ # tr) = begun tr"

fun cut_off :: "nat \<Rightarrow> ('addr, 'w) client_event list \<Rightarrow> ('addr, 'w) network option" where
  "cut_off t [] = None"
| "cut_off t (Cancel t' net # tr) = (if t' = t then Some net else cut_off t tr)"
| "cut_off t (_ # tr) = cut_off t tr"

definition run_job ::
  "('acc, 'ses, 'r, 'addr, 'w) env \<Rightarrow> ('addr, 'w) client_event list \<Rightarrow> nat \<times> i64 \<times> PlaintextPayload
    \<Rightarrow> ('acc, 'addr, 'w) client \<Rightarrow> ('acc, 'addr, 'w) client" where
  "run_job e tr = (\<lambda>(t, cid, payload) c. case cut_off t tr of
       None \<Rightarrow> snd (deliver e cid payload c)
     | Some net \<Rightarrow> snd (and_then (deliver_begin e cid payload) (deliver_transmit (e\<lparr>env_net := net\<rparr>)) c))"

definition one_by_one ::
  "('acc, 'ses, 'r, 'addr, 'w) env \<Rightarrow> ('addr, 'w) client_event list \<Rightarrow> (nat \<times> i64 \<times> PlaintextPayload) list
    \<Rightarrow> ('acc, 'addr, 'w) client \<Rightarrow> ('acc, 'addr, 'w) client" where
  "one_by_one e tr jobs = fold (run_job e tr) jobs"

lemma begun_append [simp]: "begun (tr @ tr') = begun tr @ begun tr'"
  by (induction tr rule: begun.induct) simp_all

lemma cut_off_append: "cut_off t (tr @ tr') = (case cut_off t tr of None \<Rightarrow> cut_off t tr' | net \<Rightarrow> net)"
  by (induction tr rule: cut_off.induct) simp_all

lemma one_by_one_snoc: "one_by_one e tr (js @ [j]) c = run_job e tr j (one_by_one e tr js c)"
  by (simp add: one_by_one_def)

lemma one_by_one_cong:
  assumes "\<forall>j \<in> set js. cut_off (fst j) tr' = cut_off (fst j) tr"
  shows "one_by_one e tr' js c = one_by_one e tr js c"
  using assms unfolding one_by_one_def
  by (induction js arbitrary: c) (auto simp: run_job_def split: prod.splits)

text \<open>What the trace says of the tasks: those that took the lock have it or have ended, those that were cut off have ended.\<close>

definition accounted :: "('addr, 'w) client_event list \<Rightarrow> ('acc, 'ses, 'addr, 'w) running \<Rightarrow> bool" where
  "accounted tr s \<longleftrightarrow> (\<forall>j \<in> set (begun tr). has_guard (rn_tasks s (fst j)) \<or> rn_tasks s (fst j) = Ended)
     \<and> (\<forall>t. cut_off t tr \<noteq> None \<longrightarrow> rn_tasks s t = Ended)"

lemma accounted_step: "conc_step e s ev s' \<Longrightarrow> accounted tr s \<Longrightarrow> accounted (tr @ [ev]) s'"
proof (induction rule: conc_step.induct)
  case (calls s t cid payload)
  then show ?case by (auto simp: accounted_def cut_off_append split: option.splits)
next
  case (gives_up s t cid payload)
  then show ?case by (auto simp: accounted_def cut_off_append split: option.splits)
next
  case (begins s t cid payload lock p c')
  then show ?case by (auto simp: accounted_def cut_off_append split: option.splits)
next
  case (answered s t p status c')
  then show ?case by (auto simp: accounted_def cut_off_append split: option.splits)
qed (auto simp: accounted_def cut_off_append drop_guard_def split: option.splits)

lemma accounted_steps: "steps (conc_step e) (idle c) tr s \<Longrightarrow> accounted tr s"
proof (induction rule: steps.induct)
  case no_steps
  show ?case by (simp add: accounted_def)
next
  case (more_steps tr s ev s')
  from more_steps.hyps(2) more_steps.IH show ?case by (rule accounted_step)
qed

text \<open>
  When nobody holds the lock the client is where the deliveries that have taken it lead, one after
  the other; a holder is in the middle of the last of them.
\<close>

definition holder_at ::
  "('acc, 'ses, 'r, 'addr, 'w) env \<Rightarrow> i64 \<times> PlaintextPayload \<Rightarrow> ('acc, 'addr, 'w) client \<Rightarrow> 'ses phase
    \<Rightarrow> ('acc, 'addr, 'w) client \<Rightarrow> bool" where
  "holder_at e j c0 ph c = (case ph of
       Sending p \<Rightarrow> deliver_begin e (fst j) (snd j) c0 = (Ok p, c)
     | Answered p status \<Rightarrow> (\<exists>c1. deliver_begin e (fst j) (snd j) c0 = (Ok p, c1)
         \<and> deliver_transmit e p c1 = (Ok status, c))
     | _ \<Rightarrow> False)"

definition serial :: "('acc, 'ses, 'r, 'addr, 'w) env \<Rightarrow> ('acc, 'addr, 'w) client \<Rightarrow> ('addr, 'w) client_event list
    \<Rightarrow> ('acc, 'ses, 'addr, 'w) running \<Rightarrow> bool" where
  "serial e c0 tr s = (case rn_lock s of
       None \<Rightarrow> rn_client s = one_by_one e tr (begun tr) c0
     | Some t \<Rightarrow> \<exists>js j. begun tr = js @ [(t, j)] \<and> (\<forall>i \<in> set js. rn_tasks s (fst i) = Ended)
         \<and> holder_at e j (one_by_one e tr js c0) (rn_tasks s t) (rn_client s))"

lemma serial_free: "rn_lock s = None \<Longrightarrow> serial e c0 tr s \<longleftrightarrow> rn_client s = one_by_one e tr (begun tr) c0"
  by (simp add: serial_def)

lemma serial_held: "rn_lock s = Some t \<Longrightarrow> serial e c0 tr s \<longleftrightarrow>
    (\<exists>js j. begun tr = js @ [(t, j)] \<and> (\<forall>i \<in> set js. rn_tasks s (fst i) = Ended)
       \<and> holder_at e j (one_by_one e tr js c0) (rn_tasks s t) (rn_client s))"
  by (simp add: serial_def)

text \<open>Once a task has ended, what the trace says of it does not change any more.\<close>

lemma settled:
  assumes "conc_step e s ev s'" and "rn_tasks s t = Ended"
  shows "rn_tasks s' t = Ended" and "cut_off t (tr @ [ev]) = cut_off t tr"
  using assms by (induction rule: conc_step.induct) (auto simp: drop_guard_def cut_off_append split: option.splits)

lemma settled_jobs:
  assumes "conc_step e s ev s'" and "\<forall>i \<in> set js. rn_tasks s (fst i) = Ended"
  shows "\<forall>i \<in> set js. rn_tasks s' (fst i) = Ended" and "one_by_one e (tr @ [ev]) js c = one_by_one e tr js c"
  using assms settled[OF assms(1)] by (auto intro!: one_by_one_cong)

lemma not_ok_snd: "m s = (r, s') \<Longrightarrow> \<not> is_ok r \<Longrightarrow> snd (and_then m k s) = s'"
  by (cases r) (auto simp: and_then_def)

lemma and_then_from: "m s = (Ok a, s') \<Longrightarrow> and_then m k s = k a s'"
  by (simp add: and_then_def)

lemma not_cut_off: "accounted tr s \<Longrightarrow> rn_tasks s t \<noteq> Ended \<Longrightarrow> cut_off t tr = None"
  by (auto simp: accounted_def)

lemma all_ended:
  assumes "accounted tr s" and "exclusive s" and "rn_lock s = None"
  shows "\<forall>i \<in> set (begun tr). rn_tasks s (fst i) = Ended"
  using assms by (auto simp: accounted_def exclusive_def)

lemma serial_heldE:
  assumes "serial e c0 tr s" and "exclusive s" and "has_guard (rn_tasks s t)"
  obtains js j where "begun tr = js @ [(t, j)]" and "\<forall>i \<in> set js. rn_tasks s (fst i) = Ended"
    and "holder_at e j (one_by_one e tr js c0) (rn_tasks s t) (rn_client s)" and "rn_lock s = Some t"
  using assms serial_held exclusiveD[OF assms(2,3)] by metis

text \<open>The last delivery comes to its end.\<close>

lemma serial_ends:
  assumes step: "conc_step e s ev (drop_guard t c' s)" and "begun tr' = js @ [(t, j)]" and "tr' = tr @ [ev]"
    and "\<forall>i \<in> set js. rn_tasks s (fst i) = Ended" and "run_job e tr' (t, j) (one_by_one e tr js c0) = c'"
  shows "serial e c0 tr' (drop_guard t c' s)"
  using assms settled_jobs(2)[OF step assms(4), of tr c0]
  by (simp add: serial_free drop_guard_def one_by_one_snoc)

lemma serial_holder_ends:
  assumes step: "conc_step e s ev (drop_guard t c' s)" and ser: "serial e c0 tr s" and ex: "exclusive s"
    and guard: "has_guard (rn_tasks s t)" and ev: "begun [ev] = []"
    and job: "\<And>j c. holder_at e j c (rn_tasks s t) (rn_client s) \<Longrightarrow> run_job e (tr @ [ev]) (t, j) c = c'"
  shows "serial e c0 (tr @ [ev]) (drop_guard t c' s)"
proof -
  from serial_heldE[OF ser ex guard] obtain js j where held: "begun tr = js @ [(t, j)]"
    "\<forall>i \<in> set js. rn_tasks s (fst i) = Ended" "holder_at e j (one_by_one e tr js c0) (rn_tasks s t) (rn_client s)"
    by metis
  show ?thesis
    by (rule serial_ends[OF step _ refl held(2) job[OF held(3)]]) (simp add: held(1) ev)
qed

text \<open>The lock's queue changes.\<close>

lemma serial_queues:
  assumes step: "conc_step e s ev (s\<lparr>rn_tasks := (rn_tasks s)(t := ph)\<rparr>)" and ser: "serial e c0 tr s"
    and ex: "exclusive s" and "\<not> has_guard (rn_tasks s t)" "rn_tasks s t \<noteq> Ended" and ev: "queues ev"
  shows "serial e c0 (tr @ [ev]) (s\<lparr>rn_tasks := (rn_tasks s)(t := ph)\<rparr>)"
proof -
  have "cut_off u (tr @ [ev]) = cut_off u tr" for u using ev by (cases ev) (auto simp: cut_off_append split: option.splits)
  then have "one_by_one e (tr @ [ev]) js c0 = one_by_one e tr js c0" for js by (simp add: one_by_one_cong)
  moreover have "rn_lock s \<noteq> Some t" using ex assms(4) by (simp add: exclusive_def)
  moreover have "begun [ev] = []" using ev by (cases ev) simp_all
  ultimately show ?thesis
    using ser assms(5) by (auto simp: serial_def split: option.splits)
qed

lemma serial_step:
  assumes step: "conc_step e s ev s'" and ser: "serial e c0 tr s" and ex: "exclusive s" and acc: "accounted tr s"
    and "\<not> is_receive ev"
  shows "serial e c0 (tr @ [ev]) s'"
  using step
proof (cases rule: conc_step.cases)
  case (begins t cid payload lock p c')
  then have free: "rn_lock s = None" and lock: "lock = Some t" by (simp_all add: acquire_iff)
  note ended = all_ended[OF acc ex free]
  have "rn_client s = one_by_one e tr (begun tr) c0" using ser free by (simp add: serial_free)
  with begins lock settled_jobs(1)[OF step ended] settled_jobs(2)[OF step ended, of tr c0] show ?thesis
    by (auto simp: serial_held holder_at_def)
next
  case (begin_fails t cid payload lock r c')
  then have free: "rn_lock s = None" by (simp add: acquire_iff)
  have "cut_off t tr = None" using not_cut_off[OF acc, of t] begin_fails by simp
  with ser free begin_fails(1,2,5,6) have "run_job e (tr @ [ev]) (t, cid, payload) (one_by_one e tr (begun tr) c0) = c'"
    by (simp add: run_job_def cut_off_append deliver_phases not_ok_snd serial_free)
  with begin_fails step all_ended[OF acc ex free] show ?thesis by (auto intro!: serial_ends)
next
  case (answered t p status c')
  then have "has_guard (rn_tasks s t)" by simp
  from serial_heldE[OF ser ex this] obtain js j where held: "begun tr = js @ [(t, j)]"
    "\<forall>i \<in> set js. rn_tasks s (fst i) = Ended" "holder_at e j (one_by_one e tr js c0) (rn_tasks s t) (rn_client s)"
    "rn_lock s = Some t" by metis
  with answered settled_jobs(1)[OF step held(2)] settled_jobs(2)[OF step held(2), of tr c0] show ?thesis
    by (auto simp: serial_held holder_at_def)
next
  case (answer_fails t p r c')
  moreover from this have "cut_off t tr = None" using not_cut_off[OF acc, of t] by simp
  ultimately show ?thesis using serial_holder_ends[OF step[unfolded \<open>s' = _\<close>] ser ex]
    by (auto simp: run_job_def cut_off_append deliver_phases and_then_from not_ok_snd holder_at_def)
next
  case (cancelled t p net r c')
  moreover from this have "cut_off t tr = None" using not_cut_off[OF acc, of t] by simp
  ultimately show ?thesis using serial_holder_ends[OF step[unfolded \<open>s' = _\<close>] ser ex]
    by (auto simp: run_job_def cut_off_append and_then_from holder_at_def)
next
  case (finishes t p status r c')
  moreover from this have "cut_off t tr = None" using not_cut_off[OF acc, of t] by simp
  ultimately show ?thesis using serial_holder_ends[OF step[unfolded \<open>s' = _\<close>] ser ex]
    by (force simp: run_job_def cut_off_append deliver_phases and_then_from holder_at_def)
qed (use assms serial_queues[OF _ ser ex] in auto)

lemma serial_steps:
  "steps (conc_step e) (idle c0) tr s \<Longrightarrow> \<forall>ev \<in> set tr. \<not> is_receive ev \<Longrightarrow> serial e c0 tr s"
proof (induction rule: steps.induct)
  case no_steps
  show ?case by (simp add: serial_def one_by_one_def idle_def)
next
  case (more_steps tr s ev s')
  from more_steps.hyps(2) show ?case
    by (rule serial_step) (use more_steps exclusive_steps accounted_steps in auto)
qed

section \<open>Where the holder began\<close>

text \<open>The step with which the holder of the lock took it, and what has happened since.\<close>

definition holder_began ::
  "('acc, 'ses, 'r, 'addr, 'w) env \<Rightarrow> ('acc, 'addr, 'w) client \<Rightarrow> ('addr, 'w) client_event list \<Rightarrow> nat
    \<Rightarrow> 'ses pending_delivery \<Rightarrow> bool" where
  "holder_began e c0 tr t p \<longleftrightarrow> (\<exists>tr1 cid payload tr2 s1 c2. tr = tr1 @ Begin t cid payload # tr2
     \<and> steps (conc_step e) (idle c0) tr1 s1 \<and> rn_lock s1 = None
     \<and> deliver_begin e cid payload (rn_client s1) = (Ok p, c2)
     \<and> (\<forall>ev \<in> set tr2. is_receive ev \<or> queues ev \<or> ev = Answer t))"

lemma holder_began_snoc:
  assumes "holder_began e c0 tr t p" and "is_receive ev \<or> queues ev \<or> ev = Answer t"
  shows "holder_began e c0 (tr @ [ev]) t p"
proof -
  from assms(1) obtain tr1 cid payload tr2 s1 c2 where "tr = tr1 @ Begin t cid payload # tr2"
    "steps (conc_step e) (idle c0) tr1 s1" "rn_lock s1 = None" "deliver_begin e cid payload (rn_client s1) = (Ok p, c2)"
    "\<forall>ev \<in> set tr2. is_receive ev \<or> queues ev \<or> ev = Answer t" unfolding holder_began_def by blast
  with assms(2) show ?thesis
    unfolding holder_began_def
    by (intro exI[of _ tr1] exI[of _ cid] exI[of _ payload] exI[of _ "tr2 @ [ev]"] exI[of _ s1]) auto
qed

lemma holder_began_now:
  assumes "steps (conc_step e) (idle c0) tr s" and "rn_lock s = None"
    and "deliver_begin e cid payload (rn_client s) = (Ok p, c')"
  shows "holder_began e c0 (tr @ [Begin t cid payload]) t p"
  using assms unfolding holder_began_def by fastforce

fun carried :: "'ses phase \<Rightarrow> 'ses pending_delivery option" where
  "carried (Sending p) = Some p"
| "carried (Answered p status) = Some p"
| "carried _ = None"

lemma carried_guard: "carried ph = Some p \<Longrightarrow> has_guard ph"
  by (cases ph) simp_all

lemma exclusive_unique:
  assumes "exclusive s" and "has_guard (rn_tasks s t)"
  shows "rn_lock s \<noteq> None" and "has_guard (rn_tasks s u) \<Longrightarrow> u = t"
  using assms by (auto simp: exclusive_def)

lemma holder_step:
  assumes "conc_step e s ev s'" and ex: "exclusive s" and "carried (rn_tasks s' t) = Some p"
  shows "(\<exists>cid payload c'. ev = Begin t cid payload \<and> rn_lock s = None
        \<and> deliver_begin e cid payload (rn_client s) = (Ok p, c'))
    \<or> carried (rn_tasks s t) = Some p \<and> (is_receive ev \<or> queues ev \<or> ev = Answer t)"
proof (cases "carried (rn_tasks s t)")
  case None
  with assms(1,3) show ?thesis
    by (cases rule: conc_step.cases) (auto simp: drop_guard_def acquire_iff split: if_splits)
next
  case (Some q)
  note ht = carried_guard[OF Some]
  note only = exclusive_unique[OF ex ht]
  from assms(1) show ?thesis
  proof (cases rule: conc_step.cases)
    case (answered u r st c')
    with only(2)[of u] Some assms(3) show ?thesis by auto
  next
    case (answer_fails u r x c')
    with only(2)[of u] Some assms(3) show ?thesis by (auto simp: drop_guard_def)
  next
    case (cancelled u r net x c')
    with only(2)[of u] Some assms(3) show ?thesis by (auto simp: drop_guard_def)
  next
    case (finishes u r st x c')
    with only(2)[of u] Some assms(3) show ?thesis by (auto simp: drop_guard_def)
  qed (use only(1) Some assms(3) in \<open>auto simp: acquire_iff split: if_splits\<close>)
qed

lemma holder_began_steps:
  "steps (conc_step e) (idle c0) tr s \<Longrightarrow> carried (rn_tasks s t) = Some p \<Longrightarrow> holder_began e c0 tr t p"
proof (induction rule: steps.induct)
  case no_steps
  then show ?case by (simp add: idle_def)
next
  case (more_steps tr s ev s')
  from holder_step[OF more_steps.hyps(2) exclusive_steps[OF more_steps.hyps(1)] more_steps.prems] show ?case
    using more_steps holder_began_now holder_began_snoc by metis
qed

lemma save_session_row:
  assumes "save_session e cid ses c = (Ok (), c')"
  obtains p row where "session_pickle (env_olm e) ses = Ok p"
    and "lookup_row s_contact_id cid (sessions (cl_store c')) = Some row" and "s_pickle row = p"
  using assms
  by (auto simp: save_session_def and_then_Ok_iff lift_outcome_def store_do_def save_session_pickle_def
      lookup_row_upsert Let_def split: if_splits option.splits)

end
