(* ===== verification/End_To_End.thy ===== *)
theory End_To_End
  imports Connected_Examples Core_Concurrent
begin

text \<open>
  Messages from one client to another through the recipient's node: the sender's client of
  \<^verbatim>\<open>Core_Client\<close>, the node's handler and the recipient's client run after each other on the same
  node, with Olm as the channel between them.
\<close>

section \<open>Channel and surroundings\<close>

text \<open>
  What a client has for reading the envelopes of one contact: an Olm session, or, before there is
  one, its account, which accepts a first message under the contact's Curve25519 key.
\<close>

datatype ('acc, 'ses) reader = InSession 'ses | Opening bytes 'acc

fun reads :: "('acc, 'ses, 'r) vodozemac \<Rightarrow> byte \<Rightarrow> bytes \<Rightarrow> bytes \<Rightarrow> ('acc, 'ses) reader \<Rightarrow> bool" where
  "reads v otype ct pt (InSession ses) \<longleftrightarrow> (\<exists>ses'. session_decrypt v otype ct ses = (Ok pt, ses'))"
| "reads v otype ct pt (Opening key acc) \<longleftrightarrow> (\<exists>ses acc'. accept_incoming v key otype ct acc = (Ok (ses, pt), acc'))"

fun refuses :: "('acc, 'ses, 'r) vodozemac \<Rightarrow> byte \<Rightarrow> bytes \<Rightarrow> ('acc, 'ses) reader \<Rightarrow> bool" where
  "refuses v otype ct (InSession ses) \<longleftrightarrow> (\<exists>err. session_decrypt v otype ct ses = (Err err, ses))"
| "refuses v otype ct (Opening key acc) \<longleftrightarrow> (\<exists>err. accept_incoming v key otype ct acc = (Err err, acc))"

text \<open>
  What Olm documents: what is encrypted in a session is decrypted by the other end, which is the
  contact's session or the account whose one-time key the session was made with, and by no one else.
\<close>

definition olm_channel ::
  "('acc, 'ses, 'r) vodozemac \<Rightarrow> 'ses \<Rightarrow> ('acc, 'ses) reader \<Rightarrow> ('acc, 'ses) reader set \<Rightarrow> bool" where
  "olm_channel v ses other_end others \<longleftrightarrow>
     (\<forall>r pt otype ct ses'. session_encrypt v r pt ses = (Ok (otype, ct), ses')
        \<longrightarrow> reads v otype ct pt other_end \<and> (\<forall>x \<in> others. refuses v otype ct x))"

text \<open>The session a store holds for a contact, and what a client reads the contact's envelopes with.\<close>

definition session_at :: "('acc, 'ses, 'r, 'addr, 'w) env \<Rightarrow> i64 \<Rightarrow> store \<Rightarrow> 'ses \<Rightarrow> bool" where
  "session_at e cid s ses \<longleftrightarrow>
     (\<exists>p. load_session_pickle cid s = (Ok (Some p), s) \<and> session_from_pickle (env_olm e) p = Ok ses)"

fun reader_at :: "('acc, 'ses, 'r, 'addr, 'w) env \<Rightarrow> ('acc, 'addr, 'w) client \<Rightarrow> ContactRecord
    \<Rightarrow> ('acc, 'ses) reader \<Rightarrow> bool" where
  "reader_at e c k (InSession ses) \<longleftrightarrow> session_at e (cr_id k) (cl_store c) ses"
| "reader_at e c k (Opening key acc) \<longleftrightarrow> lookup_row s_contact_id (cr_id k) (sessions (cl_store c)) = None
     \<and> key = curve25519_key k \<and> acc = cl_account c"

text \<open>Reading the clock and drawing random bytes do not reach the node.\<close>

definition reads_only :: "('acc, 'ses, 'r, 'addr, 'w) env \<Rightarrow> bool" where
  "reads_only e \<longleftrightarrow> (\<forall>n w. snd (env_random e n w) = w) \<and> (\<forall>w. snd (env_now e w) = w)
     \<and> (\<forall>w. snd (env_olm_random e w) = w)"

lemma world_do_reads:
  assumes "\<And>w. snd (f w) = w" and "world_do f c = (Ok a, c')"
  shows "c' = c"
  using assms(2) assms(1)[of "cl_world c"] by (auto simp: world_do_def Let_def split: prod.splits)

section \<open>Sending\<close>

lemma encrypted_iff:
  "(case r of (Ok (otype, ct), s) \<Rightarrow> Ok (s, otype, ct) | (Err err, s) \<Rightarrow> Err (f err) | (Panic, s) \<Rightarrow> Panic)
     = Ok (s', t, ct') \<longleftrightarrow> r = (Ok (t, ct'), s')"
  by (cases r; cases "fst r") auto

lemma open_session_world:
  assumes "reads_only e" and "open_session e cid contact c = (Ok ses, c')"
  shows "cl_world c' = cl_world c"
proof -
  from assms(2) obtain mp c1 where load: "store_do (load_session_pickle cid) c = (Ok mp, c1)"
    and rest: "(case mp of
         Some pickle \<Rightarrow> lift_outcome (map_err Crypto (session_from_pickle (env_olm e) pickle))
       | None \<Rightarrow>
           and_then (require NoSessionAvailable (pending_otk contact)) (\<lambda>their_otk.
           and_then (world_do (env_olm_random e)) (\<lambda>r.
           and_then (\<lambda>c. (map_err Crypto (create_outbound_session (env_olm e) r
                 (curve25519_key contact) their_otk (cl_account c)), c)) (\<lambda>ses.
           and_then (store_do (set_contact_pending_otk cid None)) (\<lambda>_. pure ses))))) c1 = (Ok ses, c')"
    by (auto simp: open_session_def and_then_Ok_iff)
  have "cl_world c' = cl_world c1"
  proof (cases mp)
    case (Some p)
    with rest show ?thesis by (auto simp: lift_outcome_def)
  next
    case None
    with rest obtain r c2 where "world_do (env_olm_random e) c1 = (Ok r, c2)"
      and "store_do (set_contact_pending_otk cid None) c2 = (Ok (), c')"
      by (auto simp: and_then_Ok_iff require_def lift_Ok_iff pure_Ok_iff)
    then show ?thesis
      using assms(1) world_do_reads[of "env_olm_random e" c1 r c2] by (auto simp: reads_only_def dest: store_do_world)
  qed
  with store_do_world[OF load] show ?thesis by simp
qed

lemma answer_Write:
  assumes "answer sha now me (Inr (Write a b)) h = (Ok RespOk, h')"
  obtains i where "store_write sha a b (mh_db h) = (Ok i, mh_db h')" and "mh_mailbox_key h' = mh_mailbox_key h"
  using assms that
  by (auto simp: answer_def Let_def split: prod.splits outcome.splits if_splits WriteError.splits)

lemma deliver_to_server_writes:
  assumes "talks_to_node e now me"
    and "deliver_to_server e cid contact ab otype ct lam at mid c = (Ok st, c')"
  obtains n blob a i where "to_padded_bytes (env_envelope e) (Envelope_new otype ct n lam at mid) = Ok blob"
    and "store_write (env_sha256 e) a blob (mh_db (cl_world c)) = (Ok i, mh_db (cl_world c'))"
    and "st = Sent"
proof -
  from assms(2) obtain addr n a blob c1 where
    n: "store_do (increment_and_get_next_write_n cid) c = (Ok n, c1)"
    and blob: "to_padded_bytes (env_envelope e) (Envelope_new otype ct n lam at mid) = Ok blob"
    and wr: "call_node e addr (Write a blob) c1 = (Ok RespOk, c')" and st: "st = Sent"
    by (auto simp: deliver_to_server_def and_then_Ok_iff lift_Ok_iff require_def pure_Ok_iff expect_ok_Ok
        envelope_bytes_of_def)
  from call_node_Ok[OF assms(1) wr] obtain h' where
    ans: "answer (env_sha256 e) now me (Inr (Write a blob)) (cl_world c1) = (Ok RespOk, h')"
    and c': "c' = c1\<lparr>cl_world := h'\<rparr>" .
  from store_do_world[OF n] have "cl_world c1 = cl_world c" by simp
  with ans c' blob st that show ?thesis by (auto elim: answer_Write)
qed

lemma deliver_begin_Ok:
  assumes "client_get_contact cid c = (Ok contact, c)" and "open_session e cid contact c = (Ok ses, c1)"
    and "deliver_begin e cid payload c = (Ok p, c')"
  obtains r pt ca cb cc where "payload_serialize (env_payload e) payload = Ok pt"
    and "session_encrypt (env_olm e) r pt ses = (Ok (pd_otype p, pd_ciphertext p), pd_session p)"
    and "world_do (env_olm_random e) c1 = (Ok r, ca)" and "world_do (env_random e 16) ca = (Ok (pd_msg_id p), cb)"
    and "world_do (env_now e) cb = (Ok (pd_sent_at p), cc)" and "store_do tick_lamport cc = (Ok (pd_lamport p), c')"
    and "pd_cid p = cid" and "pd_contact p = contact"
proof -
  from assms(3) obtain ses' otype ct ca cb cc mid at lam where
    enc: "encrypt_payload e payload ses c1 = (Ok (ses', otype, ct), ca)"
    and w: "world_do (env_random e 16) ca = (Ok mid, cb)" "world_do (env_now e) cb = (Ok at, cc)"
      "store_do tick_lamport cc = (Ok lam, c')"
    and p: "p = \<lparr>pd_cid = cid, pd_contact = contact, pd_session = ses', pd_otype = otype, pd_ciphertext = ct,
      pd_lamport = lam, pd_sent_at = at, pd_msg_id = mid\<rparr>"
    unfolding deliver_begin_def by (auto simp: and_then_Ok_iff assms(1,2) pure_Ok_iff)
  from enc obtain pt r where "payload_serialize (env_payload e) payload = Ok pt"
    and "world_do (env_olm_random e) c1 = (Ok r, ca)"
    and "session_encrypt (env_olm e) r pt ses = (Ok (otype, ct), ses')"
    by (auto simp: encrypt_payload_def and_then_Ok_iff lift_Ok_iff encrypted_iff)
  with w p that show ?thesis by simp
qed

text \<open>The session a delivery leaves in the store.\<close>

lemma save_session_at:
  assumes "codec_roundtrip (ses_json (env_olm e))" and "save_session e cid ses c = (Ok (), c')"
  shows "session_at e cid (cl_store c') ses"
  by (rule save_session_row[OF assms(2)])
    (use ses_store.restores[OF assms(1)] in \<open>auto simp: session_at_def load_session_pickle_def\<close>)

text \<open>A delivery through the contact's node: what was encrypted is what the node has stored.\<close>

lemma deliver_reaches_node:
  assumes node: "talks_to_node e now me" and reads: "reads_only e"
    and contact: "client_get_contact cid c = (Ok contact, c)" and addr: "server_addr contact = Some ab"
    and ses: "open_session e cid contact c = (Ok ses, c1)"
    and deliver: "deliver e cid payload c = (Ok (mid, lam, at, st), c')"
  obtains r pt otype ct ses' n blob a i where
    "payload_serialize (env_payload e) payload = Ok pt"
    and "session_encrypt (env_olm e) r pt ses = (Ok (otype, ct), ses')"
    and "to_padded_bytes (env_envelope e) (Envelope_new otype ct n lam at mid) = Ok blob"
    and "store_write (env_sha256 e) a blob (mh_db (cl_world c)) = (Ok i, mh_db (cl_world c'))"
    and "st = Sent" and "codec_roundtrip (ses_json (env_olm e)) \<Longrightarrow> session_at e cid (cl_store c') ses'"
proof -
  from deliver obtain p c2 c3 where beg: "deliver_begin e cid payload c = (Ok p, c2)"
    and trans: "deliver_transmit e p c2 = (Ok st, c3)" and save: "save_session e (pd_cid p) (pd_session p) c3 = (Ok (), c')"
    and res: "mid = pd_msg_id p" "lam = pd_lamport p" "at = pd_sent_at p"
    by (auto simp: deliver_phases deliver_commit_def and_then_Ok_iff pure_Ok_iff)
  from deliver_begin_Ok[OF contact ses beg] obtain r pt ca cb cc where
    pt: "payload_serialize (env_payload e) payload = Ok pt"
    and enc: "session_encrypt (env_olm e) r pt ses = (Ok (pd_otype p, pd_ciphertext p), pd_session p)"
    and w: "world_do (env_olm_random e) c1 = (Ok r, ca)" "world_do (env_random e 16) ca = (Ok (pd_msg_id p), cb)"
      "world_do (env_now e) cb = (Ok (pd_sent_at p), cc)"
    and tick: "store_do tick_lamport cc = (Ok (pd_lamport p), c2)"
    and p: "pd_cid p = cid" "pd_contact p = contact" .
  have "cl_world c2 = cl_world c"
    using reads w open_session_world[OF reads ses] store_do_world[OF tick]
      world_do_reads[of "env_olm_random e" c1 r ca] world_do_reads[of "env_random e 16" ca "pd_msg_id p" cb]
      world_do_reads[of "env_now e" cb "pd_sent_at p" cc] by (auto simp: reads_only_def)
  moreover have "deliver_to_server e cid contact ab (pd_otype p) (pd_ciphertext p) lam at mid c2 = (Ok st, c3)"
    using trans by (simp add: deliver_transmit_def p addr res)
  from deliver_to_server_writes[OF node this] obtain n blob a i where
    "to_padded_bytes (env_envelope e) (Envelope_new (pd_otype p) (pd_ciphertext p) n lam at mid) = Ok blob"
    "store_write (env_sha256 e) a blob (mh_db (cl_world c2)) = (Ok i, mh_db (cl_world c3))" "st = Sent" .
  moreover have "cl_world c' = cl_world c3" using save by (rule save_session_world)
  ultimately show ?thesis using that pt enc save p by (metis save_session_at)
qed

section \<open>Receiving\<close>

lemma try_contact_refuses:
  assumes "reader_at e c k rd" and "refuses (env_olm e) (olm_type v) (ciphertext v) rd"
  shows "try_contact e v k c = (Ok None, c)"
proof (cases rd)
  case (InSession ses)
  with assms show ?thesis
    by (auto simp: try_contact_def session_at_def and_then_def store_do_def lift_outcome_def try_session_def pure_def)
next
  case (Opening key acc)
  with assms show ?thesis
    by (auto simp: try_contact_def and_then_def load_session_none try_first_message_def)
qed

lemma save_session_messages: "save_session e cid ses c = (r, c') \<Longrightarrow> messages (cl_store c') = messages (cl_store c)"
  by (auto simp: save_session_def and_then_def lift_outcome_def store_do_def save_session_pickle_def Let_def
      split: prod.splits outcome.splits if_splits)

lemma try_contact_reads:
  assumes "reader_at e c k rd" and "reads (env_olm e) (olm_type v) (ciphertext v) pt rd"
    and "try_contact e v k c = (Ok r, c')"
  obtains a c1 where "r = Some a" and "handle_decrypted e (cr_id k) v pt c1 = (Ok a, c')"
    and "messages (cl_store c1) = messages (cl_store c)" and "cl_world c1 = cl_world c"
proof (cases rd)
  case (InSession ses)
  with assms obtain ses' where dec: "session_decrypt (env_olm e) (olm_type v) (ciphertext v) ses = (Ok pt, ses')"
    by auto
  have "try_contact e v k c = try_session e v (cr_id k) ses c"
    using assms(1) InSession by (auto simp: try_contact_def session_at_def and_then_def store_do_def lift_outcome_def)
  with assms(3) obtain a c1 where save: "save_session e (cr_id k) ses' c = (Ok (), c1)"
    and "r = Some a" and "handle_decrypted e (cr_id k) v pt c1 = (Ok a, c')"
    by (auto simp: try_session_def dec and_then_Ok_iff pure_Ok_iff)
  with that save_session_messages[OF save] save_session_world[OF save] show ?thesis by metis
next
  case (Opening key acc)
  with assms obtain ses acc' where
    dec: "accept_incoming (env_olm e) (curve25519_key k) (olm_type v) (ciphertext v) (cl_account c) = (Ok (ses, pt), acc')"
    and none: "lookup_row s_contact_id (cr_id k) (sessions (cl_store c)) = None" by auto
  have "try_first_message e v k c = (Ok r, c')"
    using assms(3) by (simp add: try_contact_def and_then_def load_session_none[OF none])
  then obtain a p c1 c2 where sa: "store_do (save_account_pickle p) (c\<lparr>cl_account := acc'\<rparr>) = (Ok (), c1)"
    and save: "save_session e (cr_id k) ses c1 = (Ok (), c2)"
    and "r = Some a" and "handle_decrypted e (cr_id k) v pt c2 = (Ok a, c')"
    by (auto simp: try_first_message_def dec and_then_Ok_iff lift_Ok_iff pure_Ok_iff)
  moreover have "messages (cl_store c1) = messages (cl_store c)" "cl_world c1 = cl_world c"
    using sa by (auto simp: store_do_def save_account_pickle_def upsert_account_def)
  ultimately show ?thesis
    using that save_session_messages[OF save] save_session_world[OF save] by metis
qed

lemma attribute_among_skips:
  assumes "\<forall>k \<in> set ks. try_contact e v k c = (Ok None, c)"
  shows "attribute_among e v (ks @ rest) c = attribute_among e v rest c"
  using assms by (induction ks) (simp_all add: and_then_def)

text \<open>To a client that has synchronised up to the last blob, a write adds one new blob.\<close>

lemma only_new_blob:
  assumes "mailbox_wf db" and "store_write sha a b db = (Ok i, db')"
  shows "filter (\<lambda>x. as_u64 (blobs_seq db) < blob_id x) (fetch_all db')
    = [\<lparr>blob_id = as_u64 (blobs_seq db + 1), blob_data = b, blob_delivered = False\<rparr>]"
proof -
  from assms(2) have db': "blobs db' = blobs db @ [\<lparr>br_id = blobs_seq db + 1, br_blob = b, br_delivered = 0\<rparr>]"
    and lt: "blobs_seq db < i64_max"
    by (auto simp: store_write_def Let_def split: if_splits)
  have seq: "0 \<le> blobs_seq db" using assms(1) by (simp add: mailbox_wf_def)
  have "\<not> as_u64 (blobs_seq db) < as_u64 (br_id r)" if "r \<in> set (blobs db)" for r
  proof -
    have "0 < br_id r" "br_id r \<le> blobs_seq db" using that assms(1) by (auto simp: mailbox_wf_def)
    then show ?thesis using seq lt by (simp add: word_less_nat_alt unat_as_u64)
  qed
  moreover have "as_u64 (blobs_seq db) < as_u64 (blobs_seq db + 1)"
    using seq lt by (simp add: word_less_nat_alt unat_as_u64)
  ultimately show ?thesis
    using store_write_wf[OF assms(1), of sha a b] assms(2)
    by (simp add: fetch_all_unsorted db' row_to_blob_def filter_map o_def)
qed

lemma answer_Fetch:
  assumes "answer sha now me (Inr (Fetch k)) h = (Ok (Blobs bs), h')"
  shows "bs = fetch_all (mh_db h) \<and> mh_db h' = mh_db h"
  using assms by (auto simp: answer_def Let_def not_the_owner_def split: prod.splits if_splits)

lemma sort_key_before:
  assumes "distinct (map f xs)" and "x \<in> set xs"
  obtains ys zs where "sort_key f xs = ys @ x # zs" and "\<forall>y \<in> set ys. y \<in> set xs \<and> f y < f x"
proof -
  from assms(2) obtain ys zs where split: "sort_key f xs = ys @ x # zs"
    by (metis in_set_conv_decomp set_sort)
  have "sorted (map f (sort_key f xs))" "distinct (map f (sort_key f xs))"
    using assms(1) by (simp_all add: distinct_map)
  then have "\<forall>y \<in> set ys. f y < f x"
    by (auto simp: split sorted_append image_iff order_less_le)
  moreover have "set ys \<subseteq> set xs" using split by (metis set_append set_sort Un_upper1)
  ultimately show ?thesis using that split by blast
qed

text \<open>
  What a client has for reading when an envelope arrives: the reader of the contact it is from, and
  readers that refuse it for the contacts that are tried before.
\<close>

definition ready_for ::
  "('acc, 'ses, 'r, 'addr, 'w) env \<Rightarrow> ('acc, 'addr, 'w) client \<Rightarrow> contact_row \<Rightarrow> ('acc, 'ses) reader
    \<Rightarrow> ('acc, 'ses) reader set \<Rightarrow> bool" where
  "ready_for e c r rd others \<longleftrightarrow> distinct (map c_id (contacts (cl_store c))) \<and> list_all contact_ok (contacts (cl_store c))
     \<and> r \<in> set (contacts (cl_store c))
     \<and> reader_at e c (contact_of r) rd
     \<and> (\<forall>r' \<in> set (contacts (cl_store c)). c_id r' < c_id r \<longrightarrow> (\<exists>x \<in> others. reader_at e c (contact_of r') x))"

lemma reader_at_world [simp]: "reader_at e (c\<lparr>cl_world := w\<rparr>) k rd = reader_at e c k rd"
  by (cases rd) simp_all

lemma attribute_and_store_tries:
  assumes ready: "ready_for e c r rd others"
    and refuse: "\<forall>x \<in> others. refuses (env_olm e) (olm_type v) (ciphertext v) x"
    and att: "attribute_and_store e v c = (Ok a, c')"
  obtains x c2 ks where "try_contact e v (contact_of r) c = (Ok x, c2)"
    and "(case x of Some a \<Rightarrow> pure a | None \<Rightarrow> attribute_among e v ks) c2 = (Ok a, c')"
proof -
  note ready' = ready[unfolded ready_for_def]
  obtain ks zs where split: "sort_key c_id (contacts (cl_store c)) = ks @ r # zs"
    and less: "\<forall>k \<in> set ks. k \<in> set (contacts (cl_store c)) \<and> c_id k < c_id r"
    using ready' by (auto elim: sort_key_before)
  have "store_do list_contacts c = (Ok (map contact_of ks @ contact_of r # map contact_of zs), c)"
    using list_contacts_rows[of "cl_store c"] ready' by (simp add: store_do_def split)
  with att have among: "attribute_among e v (map contact_of ks @ contact_of r # map contact_of zs) c = (Ok a, c')"
    by (simp add: attribute_and_store_def and_then_def)
  have skip: "\<forall>k \<in> set (map contact_of ks). try_contact e v k c = (Ok None, c)"
    using ready' less refuse by (auto simp: ball_conj_distrib) (metis try_contact_refuses)
  from among that show ?thesis
    by (auto simp: attribute_among_skips[OF skip] and_then_Ok_iff)
qed

lemma attribute_and_store_handles:
  assumes ready: "ready_for e c r rd others"
    and refuse: "\<forall>x \<in> others. refuses (env_olm e) (olm_type v) (ciphertext v) x"
    and read: "reads (env_olm e) (olm_type v) (ciphertext v) pt rd"
    and att: "attribute_and_store e v c = (Ok a, c')"
  obtains c1 where "handle_decrypted e (c_id r) v pt c1 = (Ok a, c')"
    and "messages (cl_store c1) = messages (cl_store c)" and "cl_world c1 = cl_world c"
proof -
  from attribute_and_store_tries[OF ready refuse att] obtain x c2 ks where x: "try_contact e v (contact_of r) c = (Ok x, c2)"
    and rest: "(case x of Some a \<Rightarrow> pure a | None \<Rightarrow> attribute_among e v ks) c2 = (Ok a, c')" .
  show ?thesis
    by (rule try_contact_reads[OF _ read x]) (use ready rest that in \<open>auto simp: ready_for_def pure_Ok_iff\<close>)
qed

text \<open>One synchronisation of a client that is told of one new blob.\<close>

lemma sync_handles_new_blob:
  assumes node: "talks_to_node e now me" and wf: "mailbox_wf db"
    and wrote: "store_write sha a blob db = (Ok i, mh_db (cl_world c))"
    and mark: "watermark (cl_store c) = as_u64 (blobs_seq db)"
    and parse: "from_padded_bytes (env_envelope e) blob = Ok v"
    and ready: "ready_for e c r rd others"
    and refuse: "\<forall>x \<in> others. refuses (env_olm e) (olm_type v) (ciphertext v) x"
    and read: "reads (env_olm e) (olm_type v) (ciphertext v) pt rd"
    and sync: "sync e c = (Ok n, c')"
  obtains att c1 c2 ids high c3 c4 where "n = chats att" and "handle_decrypted e (c_id r) v pt c1 = (Ok att, c2)"
    and "messages (cl_store c1) = messages (cl_store c)" and "mh_db (cl_world c1) = mh_db (cl_world c)"
    and "ack_blobs e ids c2 = (Ok (), c3)" and "store_do (set_last_synced_blob_id high) c3 = (Ok (), c4)"
    and "poll_failed e c4 = (Ok (), c')"
proof -
  from sync obtain addr bs c1 w c2 high ids c3 c4 c5
    where fetch: "call_node e addr (Fetch (mailbox_key (cl_identity c))) c = (Ok (Blobs bs), c1)"
      and w: "store_do get_last_synced_blob_id c1 = (Ok w, c2)"
      and proc: "process_blobs e (sort_key blob_id (filter (\<lambda>b. w < blob_id b) bs)) (0, w, []) c2
        = (Ok (n, high, ids), c3)"
      and rest: "ack_blobs e ids c3 = (Ok (), c4)" "store_do (set_last_synced_blob_id high) c4 = (Ok (), c5)"
        "poll_failed e c5 = (Ok (), c')" by (rule sync_OkE)
  from call_node_Ok[OF node fetch] obtain h' where bs: "bs = fetch_all (mh_db (cl_world c))"
    and c1: "c1 = c\<lparr>cl_world := h'\<rparr>" and h': "mh_db h' = mh_db (cl_world c)" by (metis answer_Fetch)
  from w c1 have c2: "c2 = c\<lparr>cl_world := h'\<rparr>" and "w = watermark (cl_store c)"
    by (auto simp: store_do_def get_last_synced_blob_id_def watermark_def split: option.splits)
  with proc bs mark only_new_blob[OF wf wrote] obtain att where
    att: "attribute_and_store e v c2 = (Ok att, c3)" and n: "n = chats att"
    by (auto simp: parse and_then_Ok_iff pure_Ok_iff chats_def)
  have "ready_for e c2 r rd others" using ready by (simp add: ready_for_def c2)
  from attribute_and_store_handles[OF this refuse read att] obtain c0 where
    "handle_decrypted e (c_id r) v pt c0 = (Ok att, c3)"
    "messages (cl_store c0) = messages (cl_store c2)" "cl_world c0 = cl_world c2" .
  with that n rest h' show ?thesis by (simp add: c2)
qed

section \<open>What is done with it\<close>

lemma handle_receipt:
  assumes "payload_deserialize (env_payload e) pt = Some (Receipt mid)"
    and "handle_decrypted e cid v pt c = (Ok a, c')"
  shows "a = AttrReceipt \<and> cl_world c' = cl_world c
    \<and> messages (cl_store c') = update_where (\<lambda>r. m_contact_id r = cid \<and> m_msg_id r = mid)
        (m_status_update (\<lambda>_. Some ''delivered'')) (messages (cl_store c))"
  using assms by (auto simp: handle_decrypted_def and_then_Ok_iff pure_Ok_iff store_do_def set_message_status_def)

text \<open>The rest of a synchronisation: what the node reports as failed is marked, and nothing without such reports.\<close>

lemma answer_keeps_failed:
  assumes "answer sha now me (Inr (Ack k ids)) h = (Ok resp, h')"
  shows "failed_deliveries (mh_db h') = failed_deliveries (mh_db h)"
  using assms by (auto simp: answer_def Let_def not_the_owner_def ack_def split: prod.splits if_splits)

lemma answer_Poll_takes:
  assumes "answer sha now me (Inr (PollFailedDeliveries k)) h = (Ok (FailedDeliveries ids), h')"
  shows "ids = failed_deliveries (mh_db h) \<and> failed_deliveries (mh_db h') = []"
  using assms by (auto simp: answer_def Let_def not_the_owner_def take_failed_def split: prod.splits if_splits)

lemma failed_Ok_iff:
  "(case resp of FailedDeliveries ids \<Rightarrow> pure ids | other \<Rightarrow> fail (err other)) c = (Ok ids, c')
     \<longleftrightarrow> resp = FailedDeliveries ids \<and> c' = c"
  by (cases resp) (auto simp: pure_def fail_def)

lemma ack_blobs_keeps_failed:
  assumes node: "talks_to_node e now me" and ack: "ack_blobs e ids c = (Ok (), c')"
  shows "cl_store c' = cl_store c \<and> failed_deliveries (mh_db (cl_world c')) = failed_deliveries (mh_db (cl_world c))"
proof (cases "ids = []")
  case True
  with ack show ?thesis by (simp add: ack_blobs_def pure_def)
next
  case False
  with ack obtain addr where "call_node e addr (Ack (mailbox_key (cl_identity c)) ids) c = (Ok RespOk, c')"
    by (auto simp: ack_blobs_def and_then_Ok_iff expect_ok_Ok own_addr_def split: option.splits)
  from call_node_Ok[OF node this] obtain h where
    "answer (env_sha256 e) now me (Inr (Ack (mailbox_key (cl_identity c)) ids)) (cl_world c) = (Ok RespOk, h)"
    "c' = c\<lparr>cl_world := h\<rparr>" .
  with answer_keeps_failed show ?thesis by auto
qed

lemma mark_failed_all:
  assumes "for_each (\<lambda>mid. store_do (set_message_status_by_msg_id mid MessageStatus.Failed)) ids c = (r, c')"
  shows "r = Ok () \<and> cl_world c' = cl_world c \<and> messages (cl_store c') =
    map (\<lambda>m. if m_msg_id m \<in> set ids then m\<lparr>m_status := Some ''failed''\<rparr> else m) (messages (cl_store c))"
  using assms
proof (induction ids arbitrary: c)
  case Nil
  then show ?case by (simp add: pure_def)
next
  case (Cons mid ids)
  then show ?case
    by (auto simp: and_then_def store_do_def set_message_status_by_msg_id_def update_where_def comp_def)
qed

lemma poll_failed_marks:
  assumes node: "talks_to_node e now me" and poll: "poll_failed e c = (Ok (), c')"
  shows "failed_deliveries (mh_db (cl_world c')) = []
    \<and> messages (cl_store c') = map (\<lambda>m. if m_msg_id m \<in> set (failed_deliveries (mh_db (cl_world c)))
        then m\<lparr>m_status := Some ''failed''\<rparr> else m) (messages (cl_store c))"
proof -
  from poll obtain addr ids c1 where
    call: "call_node e addr (PollFailedDeliveries (mailbox_key (cl_identity c))) c = (Ok (FailedDeliveries ids), c1)"
    and upd: "for_each (\<lambda>mid. store_do (set_message_status_by_msg_id mid MessageStatus.Failed)) ids c1 = (Ok (), c')"
    by (auto simp: poll_failed_def and_then_Ok_iff failed_Ok_iff own_addr_def split: option.splits)
  from call_node_Ok[OF node call] obtain h where
    ans: "answer (env_sha256 e) now me (Inr (PollFailedDeliveries (mailbox_key (cl_identity c)))) (cl_world c)
      = (Ok (FailedDeliveries ids), h)"
    and c1: "c1 = c\<lparr>cl_world := h\<rparr>" .
  from answer_Poll_takes[OF ans] mark_failed_all[OF upd] c1 show ?thesis by simp
qed

lemma sync_end_quiet:
  assumes node: "talks_to_node e now me" and none: "failed_deliveries (mh_db (cl_world c)) = []"
    and ack: "ack_blobs e ids c = (Ok (), c1)" and set: "store_do (set_last_synced_blob_id high) c1 = (Ok (), c2)"
    and poll: "poll_failed e c2 = (Ok (), c')"
  shows "messages (cl_store c') = messages (cl_store c)"
proof -
  have "messages (cl_store c2) = messages (cl_store c1)" "cl_world c2 = cl_world c1"
    using set by (auto simp: store_do_def set_last_synced_blob_id_def upsert_account_def)
  with ack_blobs_keeps_failed[OF node ack] poll_failed_marks[OF node poll] none show ?thesis by simp
qed

text \<open>It spawns nothing.\<close>

definition same_tasks :: "('acc, 'addr, 'w) client \<Rightarrow> ('acc, 'addr, 'w) client \<Rightarrow> bool" where
  "same_tasks c c' \<longleftrightarrow> cl_spawned c' = cl_spawned c"

lemma store_do_same_tasks: "keeps same_tasks (store_do m)"
  by (rule keepsI) (auto simp: same_tasks_def store_do_def Let_def split: prod.splits)

interpretation tk: client_order same_tasks
  by unfold_locales (auto simp: same_tasks_def store_do_same_tasks)

lemma sync_end_same_tasks:
  assumes "ack_blobs e ids c = (Ok (), c1)" and "store_do (set_last_synced_blob_id high) c1 = (Ok (), c2)"
    and "poll_failed e c2 = (Ok (), c')"
  shows "cl_spawned c' = cl_spawned c"
  using keepsD[OF tk.keeps_ack_blobs, of c e ids] keepsD[OF store_do_same_tasks, of c1 "set_last_synced_blob_id high"]
    keepsD[OF tk.keeps_poll_failed[OF store_do_same_tasks], of c2 e] assms
  by (simp add: same_tasks_def)

section \<open>From one client to the other\<close>

text \<open>The two clients run the same libraries, and the serialisers read back what they wrote.\<close>

definition same_formats :: "('acc, 'ses, 'r, 'addr, 'w) env \<Rightarrow> ('acc, 'ses, 'r, 'addr, 'w) env \<Rightarrow> bool" where
  "same_formats a b \<longleftrightarrow> env_olm b = env_olm a \<and> env_envelope b = env_envelope a \<and> env_payload b = env_payload a
     \<and> codec_roundtrip (env_envelope a) \<and> codec_roundtrip (env_payload a)"

text \<open>
  A delivery into a mailbox whose owner had seen everything in it. \<open>sa\<close> is the session it is
  encrypted in and \<open>rd\<close> the other end of it.
\<close>

lemma deliver_then_sync:
  assumes "talks_to_node a now me" and "reads_only a" and "talks_to_node b now' me'" and formats: "same_formats a b"
    and "client_get_contact cid sender = (Ok contact, sender)" and "server_addr contact = Some ab"
    and "open_session a cid contact sender = (Ok sa, s1)"
    and "deliver a cid payload sender = (Ok (mid, lam, at, st), sender')"
    and world: "cl_world rcpt = cl_world sender'" and wf: "mailbox_wf (mh_db (cl_world sender))"
    and mark: "watermark (cl_store rcpt) = as_u64 (blobs_seq (mh_db (cl_world sender)))"
    and ready: "ready_for b rcpt r rd others" and channel: "olm_channel (env_olm a) sa rd others"
    and sync: "sync b rcpt = (Ok n, rcpt')"
  obtains v pt att c1 c2 ids high c3 c4 where "payload_deserialize (env_payload b) pt = Some payload"
    and "env_lamport v = lam" and "env_sent_at v = at" and "env_msg_id v = mid"
    and "n = chats att" and "handle_decrypted b (c_id r) v pt c1 = (Ok att, c2)"
    and "messages (cl_store c1) = messages (cl_store rcpt)" and "mh_db (cl_world c1) = mh_db (cl_world rcpt)"
    and "ack_blobs b ids c2 = (Ok (), c3)" and "store_do (set_last_synced_blob_id high) c3 = (Ok (), c4)"
    and "poll_failed b c4 = (Ok (), rcpt')" and "st = Sent"
proof -
  from deliver_reaches_node[OF assms(1,2,5-8)] obtain rnd pt otype ct sa' wn blob auth i where
    pt: "payload_serialize (env_payload a) payload = Ok pt"
    and enc: "session_encrypt (env_olm a) rnd pt sa = (Ok (otype, ct), sa')"
    and blob: "to_padded_bytes (env_envelope a) (Envelope_new otype ct wn lam at mid) = Ok blob"
    and wr: "store_write (env_sha256 a) auth blob (mh_db (cl_world sender)) = (Ok i, mh_db (cl_world sender'))"
    and st: "st = Sent" .
  let ?v = "Envelope_new otype ct wn lam at mid"
  note fm = formats[unfolded same_formats_def]
  have v: "olm_type ?v = otype" "ciphertext ?v = ct" "env_lamport ?v = lam" "env_sent_at ?v = at" "env_msg_id ?v = mid"
    by (simp_all add: Envelope_new_def)
  have parse: "from_padded_bytes (env_envelope b) blob = Ok ?v"
    using from_to_padded_bytes[OF _ blob] fm by simp
  have "payload_deserialize (env_payload b) pt = Some payload"
    using payload_roundtrip[OF _ pt] fm by simp
  moreover have "\<forall>x \<in> others. refuses (env_olm b) (olm_type ?v) (ciphertext ?v) x"
    and "reads (env_olm b) (olm_type ?v) (ciphertext ?v) pt rd"
    using channel enc fm unfolding olm_channel_def v by metis+
  moreover note sync_handles_new_blob[OF assms(3) wf wr[folded world] mark parse ready _ _ sync]
  ultimately show ?thesis using that st v by metis
qed

text \<open>
  C3: the receipt comes back. When a client has delivered a receipt for a message, over the node of
  the message's sender, and the sender, who had seen everything else its node held, synchronises
  with the node, which has no failed deliveries to report, then exactly that message is marked as
  delivered in the sender's history; nothing else in the history changes and no message is counted
  as new. Running the task that was spawned for the receipt is such a delivery.
\<close>

theorem receipt_marks_delivered:
  assumes "talks_to_node a now me" and "reads_only a" and "talks_to_node b now' me'" and "same_formats a b"
    and "client_get_contact cid sender = (Ok contact, sender)" and "server_addr contact = Some ab"
    and "open_session a cid contact sender = (Ok sa, s1)" and "deliver a cid (Receipt mid) sender = (Ok res, sender')"
    and "cl_world rcpt = cl_world sender'" and "mailbox_wf (mh_db (cl_world sender))"
    and "watermark (cl_store rcpt) = as_u64 (blobs_seq (mh_db (cl_world sender)))"
    and "ready_for b rcpt r rd others" and "olm_channel (env_olm a) sa rd others" and "sync b rcpt = (Ok n, rcpt')"
    and "failed_deliveries (mh_db (cl_world rcpt)) = []"
  shows "run_task a (SendReceipt cid mid) sender = (Ok (), sender') \<and> n = 0
    \<and> messages (cl_store rcpt') = update_where (\<lambda>m. m_contact_id m = c_id r \<and> m_msg_id m = mid)
        (m_status_update (\<lambda>_. Some ''delivered'')) (messages (cl_store rcpt))"
proof -
  obtain mid' lam at st where res: "res = (mid', lam, at, st)" by (cases res)
  note dl = assms(8)[unfolded res]
  from deliver_then_sync[OF assms(1-7) dl assms(9-14)] obtain v pt att c1 c2 ids high c3 c4 where
    pay: "payload_deserialize (env_payload b) pt = Some (Receipt mid)" and n: "n = chats att"
    and h: "handle_decrypted b (c_id r) v pt c1 = (Ok att, c2)"
    and c1: "messages (cl_store c1) = messages (cl_store rcpt)" "mh_db (cl_world c1) = mh_db (cl_world rcpt)"
    and rest: "ack_blobs b ids c2 = (Ok (), c3)" "store_do (set_last_synced_blob_id high) c3 = (Ok (), c4)"
      "poll_failed b c4 = (Ok (), rcpt')" .
  note marked = handle_receipt[OF pay h]
  then have "failed_deliveries (mh_db (cl_world c2)) = []" using assms(15) c1 by simp
  from sync_end_quiet[OF assms(3) this rest] marked c1 n
  have "n = 0" "messages (cl_store rcpt') = update_where (\<lambda>m. m_contact_id m = c_id r \<and> m_msg_id m = mid)
        (m_status_update (\<lambda>_. Some ''delivered'')) (messages (cl_store rcpt))" by (simp_all add: chats_def)
  moreover have "run_task a (SendReceipt cid mid) sender = (Ok (), sender')"
    using dl by (simp add: send_receipt_def and_then_def attempt_def pure_def)
  ultimately show ?thesis by simp
qed

section \<open>Messages between two devices\<close>

text \<open>
  Instances in which all parameters are concrete. \<open>ct\<close> is the payload that is sent: a chat message or
  a receipt, as bytes.
\<close>

definition mail_envelope :: "bytes \<Rightarrow> Envelope" where
  "mail_envelope ct = Envelope_new 1 ct 0 1 5 (replicate 16 9)"

definition mail_envelope_codec :: "Envelope codec" where
  "mail_envelope_codec =
     \<lparr>enc = \<lambda>v. if v = mail_envelope (ciphertext v) then Inr (ciphertext v) else Inl [],
      dec = \<lambda>bs. Inr (mail_envelope bs)\<rparr>"

definition mail_payload :: "PlaintextPayload codec" where
  "mail_payload =
     \<lparr>enc = \<lambda>p. (case p of Chat t \<Rightarrow> Inr (0 # t) | Receipt m \<Rightarrow> Inr (1 # m) | _ \<Rightarrow> Inl []),
      dec = \<lambda>bs. (case bs of [] \<Rightarrow> Inl [] | b # t \<Rightarrow> if b = 0 then Inr (Chat t) else if b = 1 then Inr (Receipt t) else Inl [])\<rparr>"

definition mail_auth :: bytes where
  "mail_auth = (case derive_auth sample_hkdf (replicate 32 4) 0 of Ok a \<Rightarrow> a | _ \<Rightarrow> [])"

definition mail_bytes :: "bytes \<Rightarrow> bytes" where
  "mail_bytes ct = (case pad ct of Ok b \<Rightarrow> b | _ \<Rightarrow> [])"

definition mail_blob :: "bytes \<Rightarrow> StoredBlob" where
  "mail_blob ct = \<lparr>blob_id = 1, blob_data = mail_bytes ct, blob_delivered = False\<rparr>"

definition mail_request :: "NodeRequest codec" where
  "mail_request =
     \<lparr>enc = \<lambda>r. (case r of
          Write a b \<Rightarrow> if a = mail_auth then Inr (0 # b) else Inl []
        | Fetch k \<Rightarrow> if k = replicate 32 3 then Inr [1] else Inl []
        | Ack k ids \<Rightarrow> if k = replicate 32 3 \<and> ids = [1] then Inr [2] else Inl []
        | PollFailedDeliveries k \<Rightarrow> if k = replicate 32 3 then Inr [3] else Inl []
        | _ \<Rightarrow> Inl []),
      dec = \<lambda>bs. (case bs of [] \<Rightarrow> Inl [] | t # b \<Rightarrow>
          if t = 0 then Inr (Write mail_auth b)
          else if t = 1 then Inr (Fetch (replicate 32 3))
          else if t = 2 then Inr (Ack (replicate 32 3) [1]) else Inr (PollFailedDeliveries (replicate 32 3)))\<rparr>"

definition mail_response :: "bytes \<Rightarrow> NodeResponse codec" where
  "mail_response ct =
     \<lparr>enc = \<lambda>r. (case r of RespOk \<Rightarrow> Inr [0] | Blobs bs \<Rightarrow> if bs = [mail_blob ct] then Inr [1] else Inl []
        | FailedDeliveries ids \<Rightarrow> if ids = [] then Inr [2] else Inl [] | _ \<Rightarrow> Inl []),
      dec = \<lambda>bs. if bs = [0] then Inr RespOk else if bs = [1] then Inr (Blobs [mail_blob ct])
        else if bs = [2] then Inr (FailedDeliveries []) else Inl []\<rparr>"

lemma mail_codecs:
  "codec_roundtrip mail_request" "codec_roundtrip (mail_response ct)" "codec_roundtrip mail_envelope_codec"
  "codec_roundtrip mail_payload"
  by (auto simp: codec_roundtrip_def mail_request_def mail_response_def mail_envelope_codec_def mail_payload_def
      split: NodeRequest.splits NodeResponse.splits PlaintextPayload.splits if_splits)

definition mail_env :: "bytes \<Rightarrow> string \<Rightarrow> (unit, unit, unit, nat, string MailboxHandler) env" where
  "mail_env ct me = (sample_env (node_network (\<lambda>b. b) mail_request (mail_response ct) 0 me))\<lparr>
     env_request := mail_request, env_response := mail_response ct, env_hkdf := sample_hkdf,
     env_envelope := mail_envelope_codec, env_payload := mail_payload\<rparr>"

definition mail_node :: "string MailboxHandler" where
  "mail_node = MailboxHandler_new (register_slot mail_auth empty_node_db) (RateLimiter_new 60 60000) (replicate 32 3)"

definition mail_node_after :: "bytes \<Rightarrow> string MailboxHandler" where
  "mail_node_after ct = snd (answer (\<lambda>b. b) 0 ''alice'' (Inr (Write mail_auth (mail_bytes ct))) mail_node)"

definition mail_sender :: "(unit, nat, string MailboxHandler) client" where
  "mail_sender = sample_client (session_store (Some [0])) None mail_node"

text \<open>The recipient, whose history may hold an outgoing message.\<close>

definition mail_outgoing :: message_row where
  "mail_outgoing = \<lparr>m_contact_id = 1, m_msg_id = replicate 16 9, m_direction = ''outgoing'', m_lamport = 1,
     m_sent_at = 5, m_plaintext = [7], m_status = Some ''sent''\<rparr>"

definition mail_recipient :: "bytes \<Rightarrow> message_row list \<Rightarrow> (unit, nat, string MailboxHandler) client" where
  "mail_recipient ct ms = sample_client ((session_store None)\<lparr>messages := ms\<rparr>) (Some 0) (mail_node_after ct)"

lemma mail_env_simps [simp]:
  "env_olm (mail_env ct me) = sample_olm" "env_envelope (mail_env ct me) = mail_envelope_codec"
  "env_payload (mail_env ct me) = mail_payload" "env_sha256 (mail_env ct me) bs = bs"
  "env_random (mail_env ct me) n w = (replicate n 9, w)" "env_olm_random (mail_env ct me) w = ((), w)"
  "env_now (mail_env ct me) w = (5, w)" "env_hkdf (mail_env ct me) = sample_hkdf"
  "dec (env_addr (mail_env ct me)) bs = Inr (length bs)"
  by (simp_all add: mail_env_def sample_env_def)

lemma mail_auth_derived: "derive_auth sample_hkdf (replicate 32 4) 0 = Ok mail_auth"
  using derive_auth_Ok[OF sample_hkdf_lengths, of "replicate 32 4" 0] by (auto simp: mail_auth_def)

lemma mail_bytes_padded:
  assumes "length ct \<le> 252"
  shows "pad ct = Ok (mail_bytes ct)" "length (mail_bytes ct) \<le> 256"
proof -
  show p: "pad ct = Ok (mail_bytes ct)" using pad_Ok_iff[of ct] assms by (auto simp: mail_bytes_def)
  show "length (mail_bytes ct) \<le> 256" using pad_length_bucket[OF p] assms by (simp add: envelope_bucket_simp)
qed

lemma mail_talks: "talks_to_node (mail_env ct me) 0 me"
  by (simp add: talks_to_node_def mail_env_def mail_codecs sample_env_def)

lemma mail_formats: "same_formats (mail_env ct me) (mail_env ct you)" "reads_only (mail_env ct me)"
  by (simp_all add: same_formats_def mail_codecs reads_only_def)

lemma mail_channel: "olm_channel sample_olm () (InSession ()) {}"
  by (auto simp: olm_channel_def session_encrypt_def session_decrypt_def sample_olm_def)

lemma mail_ready: "ready_for (mail_env ct me) (mail_recipient ct ms) (paired_row None) (InSession ()) {}"
  using session_store_wf[of None]
  by (simp add: ready_for_def mail_recipient_def session_at_def load_session_pickle_def session_from_pickle_def
      sample_olm_def contact_of_def store_wf_def)

lemma mail_calls:
  assumes "answer (\<lambda>b. b) 0 me (Inr req) (cl_world c) = (Ok resp, h)"
    and "enc mail_request req = Inr b" and "length b \<le> MAX_MESSAGE_SIZE"
    and "enc (mail_response ct) resp = Inr rb" and "length rb \<le> MAX_MESSAGE_SIZE"
  shows "call_node (mail_env ct me) addr req c = (Ok resp, c\<lparr>cl_world := h\<rparr>)"
proof -
  have "call (node_network (\<lambda>b. b) mail_request (mail_response ct) 0 me) mail_request (mail_response ct) addr req (cl_world c)
      = (Ok resp, h)"
    by (rule node_call_Ok[OF assms(2,3) _ assms(1,4,5)])
      (use codec_roundtripD[OF mail_codecs(1) assms(2)] codec_roundtripD[OF mail_codecs(2) assms(4)] in simp_all)
  then show ?thesis by (simp add: call_node_def mail_env_def)
qed

lemma mail_written:
  "answer (\<lambda>b. b) 0 ''alice'' (Inr (Write mail_auth (mail_bytes ct))) mail_node = (Ok RespOk, mail_node_after ct)"
  "mh_mailbox_key (mail_node_after ct) = replicate 32 3" "fetch_all (mh_db (mail_node_after ct)) = [mail_blob ct]"
  "failed_deliveries (mh_db (mail_node_after ct)) = []"
  by (simp_all add: mail_node_after_def answer_def mail_node_def MailboxHandler_new_def allow_def current_window_def
      RateLimiter_new_def store_write_def register_slot_def insert_or_ignore_def empty_node_db_def Let_def
      fetch_all_def row_to_blob_def mail_blob_def i64_max_def as_u64_def)

lemma mail_node_wf: "mailbox_wf (mh_db mail_node)" "blobs_seq (mh_db mail_node) = 0"
  by (auto simp: mail_node_def MailboxHandler_new_def) (simp add: register_slot_def empty_node_db_def)

subsection \<open>The sender's run\<close>

lemma mail_contact:
  "client_get_contact 1 mail_sender = (Ok (contact_of (paired_row (Some [0]))), mail_sender)"
  by (rule client_get_contact_ok) (simp_all add: mail_sender_def session_store_wf)

lemma mail_opened:
  "open_session (mail_env ct me) 1 contact mail_sender = (Ok (), mail_sender)"
  by (simp add: open_session_def and_then_def store_do_def load_session_pickle_def mail_sender_def lift_outcome_def
      session_from_pickle_def sample_olm_def sample_client_def)

definition mail_pending :: "bytes \<Rightarrow> unit pending_delivery" where
  "mail_pending ct = \<lparr>pd_cid = 1, pd_contact = contact_of (paired_row (Some [0])), pd_session = (), pd_otype = 1,
     pd_ciphertext = ct, pd_lamport = 1, pd_sent_at = 5, pd_msg_id = replicate 16 9\<rparr>"

definition mail_ticked :: "(unit, nat, string MailboxHandler) client" where
  "mail_ticked = mail_sender\<lparr>cl_store := (session_store (Some [0]))\<lparr>local_clock := Integer 1\<rparr>\<rparr>"

lemma mail_begin:
  assumes "enc mail_payload payload = Inr ct"
  shows "deliver_begin (mail_env ct me) 1 payload mail_sender = (Ok (mail_pending ct), mail_ticked)"
proof -
  have "encrypt_payload (mail_env ct me) payload () mail_sender = (Ok ((), 1, ct), mail_sender)"
    using assms by (simp add: encrypt_payload_def run_simps payload_serialize_def session_encrypt_def
        sample_olm_def mail_sender_def sample_client_def)
  moreover have "world_do (env_random (mail_env ct me) 16) mail_sender = (Ok (replicate 16 9), mail_sender)"
    "world_do (env_now (mail_env ct me)) mail_sender = (Ok 5, mail_sender)"
    by (simp_all add: world_do_def)
  moreover have "store_do tick_lamport mail_sender = (Ok 1, mail_ticked)"
    by (simp add: store_do_def tick_lamport_def current_def i64_max_def mail_sender_def sample_client_def as_u64_def
        mail_ticked_def)
  ultimately show ?thesis
    by (simp add: deliver_begin_def and_then_def mail_contact mail_opened pure_def mail_pending_def)
qed

lemma mail_transmit:
  assumes "length ct \<le> 252"
  shows "\<exists>s. deliver_transmit (mail_env ct ''alice'') (mail_pending ct) mail_ticked
    = (Ok Sent, mail_ticked\<lparr>cl_store := s, cl_world := mail_node_after ct\<rparr>) \<and> \<not> fk_violated s 1 \<and> messages s = []
      \<and> map c_id (contacts s) = [1]"
proof -
  obtain s where n: "store_do (increment_and_get_next_write_n 1) mail_ticked = (Ok 0, mail_ticked\<lparr>cl_store := s\<rparr>)"
    and s: "\<not> fk_violated s 1" "messages s = []" "map c_id (contacts s) = [1]"
    by (simp add: mail_ticked_def store_do_def increment_and_get_next_write_n_def and_then_def update_contact_def
        fk_violated_def paired_row_def i64_max_def as_u64_def)
  have blob: "envelope_bytes_of (mail_env ct ''alice'') 1 ct 0 1 5 (replicate 16 9) d = (Ok (mail_bytes ct), d)" for d
    using mail_bytes_padded(1)[OF assms]
    by (simp add: envelope_bytes_of_def lift_outcome_def to_padded_bytes_def mail_envelope_codec_def mail_envelope_def
        Envelope_new_def)
  have "call_node (mail_env ct ''alice'') 1 (Write mail_auth (mail_bytes ct)) (mail_ticked\<lparr>cl_store := s\<rparr>)
      = (Ok RespOk, mail_ticked\<lparr>cl_store := s, cl_world := mail_node_after ct\<rparr>)"
    by (subst mail_calls[where h = "mail_node_after ct" and b = "0 # mail_bytes ct" and rb = "[0]"])
      (use mail_written(1) mail_bytes_padded(2)[OF assms] in
        \<open>simp_all add: mail_request_def mail_response_def MAX_MESSAGE_SIZE_def mail_ticked_def mail_sender_def\<close>)
  then have "deliver_transmit (mail_env ct ''alice'') (mail_pending ct) mail_ticked
      = (Ok Sent, mail_ticked\<lparr>cl_store := s, cl_world := mail_node_after ct\<rparr>)"
    by (simp add: deliver_transmit_def mail_pending_def deliver_to_server_def and_then_def lift_outcome_def require_def
        n blob mail_auth_derived expect_ok_def pure_def)
  with s show ?thesis by (intro exI[of _ s] conjI) (assumption | rule s)+
qed

lemma mail_commit:
  assumes "\<not> fk_violated (cl_store c) 1"
  shows "\<exists>c'. deliver_commit (mail_env ct me) (mail_pending ct) st c = (Ok (replicate 16 9, 1, 5, st), c')
    \<and> cl_world c' = cl_world c \<and> \<not> fk_violated (cl_store c') 1 \<and> messages (cl_store c') = messages (cl_store c)"
  using assms by (auto simp: deliver_commit_def mail_pending_def save_session_def and_then_def lift_outcome_def
      session_pickle_def sample_olm_def store_do_def save_session_pickle_def fk_violated_def pure_def)

lemma mail_delivered:
  assumes "enc mail_payload payload = Inr ct" and "length ct \<le> 252"
  shows "\<exists>c'. deliver (mail_env ct ''alice'') 1 payload mail_sender = (Ok (replicate 16 9, 1, 5, Sent), c')
    \<and> cl_world c' = mail_node_after ct \<and> \<not> fk_violated (cl_store c') 1 \<and> messages (cl_store c') = []"
proof -
  obtain s where tr: "deliver_transmit (mail_env ct ''alice'') (mail_pending ct) mail_ticked
      = (Ok Sent, mail_ticked\<lparr>cl_store := s, cl_world := mail_node_after ct\<rparr>)" (is "_ = (_, ?c)")
    and s: "\<not> fk_violated s 1" "messages s = []" using mail_transmit[OF assms(2)] by blast
  then show ?thesis
    using mail_commit[of ?c ct "''alice''" Sent]
    by (auto simp: deliver_phases and_then_def mail_begin[OF assms(1)])
qed

subsection \<open>The recipient's run\<close>

lemma mail_sync_end:
  assumes c: "cl_server_addr c = Some 0" "cl_identity c = sample_identity" "cl_world c = mail_node_after ct"
  shows "\<exists>c1 c2 c3. ack_blobs (mail_env ct ''bob'') [1] c = (Ok (), c1)
    \<and> store_do (set_last_synced_blob_id 1) c1 = (Ok (), c2) \<and> poll_failed (mail_env ct ''bob'') c2 = (Ok (), c3)"
proof -
  have key: "mailbox_key sample_identity = replicate 32 3" by (simp add: sample_identity_def)
  obtain h where h: "answer (\<lambda>b. b) 0 ''bob'' (Inr (Ack (replicate 32 3) [1])) (mail_node_after ct) = (Ok RespOk, h)"
    "mh_mailbox_key h = replicate 32 3" "failed_deliveries (mh_db h) = []"
    by (simp add: answer_def mail_written(2,4) ack_def)
  have ack: "ack_blobs (mail_env ct ''bob'') [1] c = (Ok (), c\<lparr>cl_world := h\<rparr>)"
    using mail_calls[where c = c and h = h and b = "[2]" and rb = "[0]" and me = "''bob''"
        and req = "Ack (replicate 32 3) [1]" and addr = 0 and ct = ct] h(1)
    by (simp add: ack_blobs_def own_addr_def and_then_def c key mail_request_def mail_response_def MAX_MESSAGE_SIZE_def
        expect_ok_def pure_def)
  obtain s2 where mark: "store_do (set_last_synced_blob_id 1) (c\<lparr>cl_world := h\<rparr>) = (Ok (), c\<lparr>cl_world := h, cl_store := s2\<rparr>)"
    by (simp add: store_do_def set_last_synced_blob_id_def)
  obtain h2 where h2: "answer (\<lambda>b. b) 0 ''bob'' (Inr (PollFailedDeliveries (replicate 32 3))) h = (Ok (FailedDeliveries []), h2)"
    by (simp add: answer_def h(2,3) take_failed_def)
  have "poll_failed (mail_env ct ''bob'') (c\<lparr>cl_world := h, cl_store := s2\<rparr>) = (Ok (), c\<lparr>cl_store := s2, cl_world := h2\<rparr>)"
    using mail_calls[where c = "c\<lparr>cl_world := h, cl_store := s2\<rparr>" and h = h2 and b = "[3]" and rb = "[2]"
        and me = "''bob''" and req = "PollFailedDeliveries (replicate 32 3)" and addr = 0 and ct = ct] h2
    by (simp add: poll_failed_def own_addr_def and_then_def c key mail_request_def mail_response_def MAX_MESSAGE_SIZE_def
        pure_def)
  with ack mark show ?thesis by blast
qed

lemma mail_synced:
  assumes len: "length ct \<le> 252"
    and s0: "get_last_synced_blob_id s0 = (Ok 0, s0)"
    and att: "attribute_and_store (mail_env ct ''bob'') (mail_envelope ct) (sample_client s0 (Some 0) (mail_node_after ct))
      = (Ok a, (sample_client s (Some 0) (mail_node_after ct))\<lparr>cl_spawned := t\<rparr>)"
  shows "\<exists>c'. sync (mail_env ct ''bob'') (sample_client s0 (Some 0) (mail_node_after ct)) = (Ok (chats a), c')"
proof -
  let ?e = "mail_env ct ''bob''" and ?r = "sample_client s0 (Some 0) (mail_node_after ct)"
  let ?c = "(sample_client s (Some 0) (mail_node_after ct))\<lparr>cl_spawned := t\<rparr>"
  have parse: "from_padded_bytes mail_envelope_codec (mail_bytes ct) = Ok (mail_envelope ct)"
    using env_pad.ps.unpad_pad[of ct "mail_bytes ct"] mail_bytes_padded(1)[OF len]
    by (simp add: from_padded_bytes_def mail_envelope_codec_def)
  have fetch: "call_node ?e 0 (Fetch (replicate 32 3)) ?r = (Ok (Blobs [mail_blob ct]), ?r)"
    by (subst mail_calls[where h = "mail_node_after ct" and b = "[1]" and rb = "[1]"])
      (simp_all add: mail_request_def mail_response_def MAX_MESSAGE_SIZE_def answer_def mail_written(2,3) sample_client_def)
  have proc: "process_blobs ?e [mail_blob ct] (0, 0, []) ?r = (Ok (chats a, 1, [1]), ?c)"
    using att by (simp add: mail_blob_def parse and_then_def pure_def chats_def)
  obtain c1 c2 c3 where "ack_blobs ?e [1] ?c = (Ok (), c1)" "store_do (set_last_synced_blob_id 1) c1 = (Ok (), c2)"
    "poll_failed ?e c2 = (Ok (), c3)" using mail_sync_end[of ?c ct] by auto
  moreover have "store_do get_last_synced_blob_id ?r = (Ok 0, ?r)"
    by (simp add: store_do_def s0 sample_client_def)
  moreover have "cl_server_addr ?r = Some 0" "mailbox_key (cl_identity ?r) = replicate 32 3"
    by (simp_all add: sample_identity_def)
  moreover have "filter (\<lambda>b. 0 < blob_id b) [mail_blob ct] = [mail_blob ct]" by (simp add: mail_blob_def)
  ultimately show ?thesis
    by (simp add: sync_def and_then_def require_def lift_outcome_def fetch proc pure_def del: process_blobs.simps)
qed

lemma mail_recipient_synced:
  assumes "length ct \<le> 252" and "attribute_and_store (mail_env ct ''bob'') (mail_envelope ct) (mail_recipient ct ms)
      = (Ok a, (sample_client s (Some 0) (mail_node_after ct))\<lparr>cl_spawned := t\<rparr>)"
  shows "\<exists>c'. sync (mail_env ct ''bob'') (mail_recipient ct ms) = (Ok (chats a), c')"
  using mail_synced[OF assms(1) _ assms(2)[unfolded mail_recipient_def]]
  by (simp add: mail_recipient_def get_last_synced_blob_id_def as_u64_def)

lemma mail_receipt_stored:
  fixes ct defines "ct \<equiv> 1 # replicate 16 9"
  shows "\<exists>s t. attribute_and_store (mail_env ct ''bob'') (mail_envelope ct) (mail_recipient ct [mail_outgoing])
    = (Ok AttrReceipt, (sample_client s (Some 0) (mail_node_after ct))\<lparr>cl_spawned := t\<rparr>)"
proof -
  let ?c = "mail_recipient ct [mail_outgoing]"
  have "list_all contact_ok (contacts (cl_store ?c))"
    using mail_ready[of ct _ "[mail_outgoing]"] by (simp add: ready_for_def)
  then have list: "store_do list_contacts ?c = (Ok [contact_of (paired_row None)], ?c)"
    using list_contacts_rows[of "cl_store ?c"] by (simp add: store_do_def mail_recipient_def sample_client_def)
  have save: "save_session (mail_env ct ''bob'') 1 () ?c = (Ok (), ?c)"
    by (simp add: save_session_def and_then_def lift_outcome_def session_pickle_def sample_olm_def store_do_def
        save_session_pickle_def fk_violated_def upsert_def sample_client_def mail_recipient_def session_store_def)
  have load: "store_do (load_session_pickle 1) ?c = (Ok (Some []), ?c)"
    by (simp add: store_do_def load_session_pickle_def mail_recipient_def sample_client_def)
  have ses: "session_from_pickle sample_olm [] = Ok ()" "session_decrypt sample_olm 1 ct () = (Ok ct, ())"
    by (simp_all add: session_from_pickle_def session_decrypt_def sample_olm_def)
  obtain s where h: "handle_decrypted (mail_env ct ''bob'') 1 (mail_envelope ct) ct ?c
      = (Ok AttrReceipt, (sample_client s (Some 0) (mail_node_after ct))\<lparr>cl_spawned := []\<rparr>)"
    by (simp add: handle_decrypted_def payload_deserialize_def mail_payload_def ct_def run_simps set_message_status_def
        mail_recipient_def sample_client_def)
  have "attribute_and_store (mail_env ct ''bob'') (mail_envelope ct) ?c
      = (Ok AttrReceipt, (sample_client s (Some 0) (mail_node_after ct))\<lparr>cl_spawned := []\<rparr>)"
    using list load ses save h
    by (simp add: attribute_and_store_def try_contact_def try_session_def mail_envelope_def Envelope_new_def
        and_then_def lift_outcome_def pure_def)
  then show ?thesis by blast
qed

theorem receipt_marks_delivered_witness:
  "\<exists>rcpt'. sync (mail_env (1 # replicate 16 9) ''bob'') (mail_recipient (1 # replicate 16 9) [mail_outgoing]) = (Ok 0, rcpt')
     \<and> messages (cl_store rcpt') = [mail_outgoing\<lparr>m_status := Some ''delivered''\<rparr>]"
proof -
  define ct :: bytes where "ct = 1 # replicate 16 9"
  let ?a = "mail_env ct ''alice''" and ?b = "mail_env ct ''bob''" and ?r = "mail_recipient ct [mail_outgoing]"
  have "enc mail_payload (Receipt (replicate 16 9)) = Inr ct" and len: "length ct \<le> 252"
    by (simp_all add: mail_payload_def ct_def)
  from mail_delivered[OF this] obtain sender' where
    send: "deliver ?a 1 (Receipt (replicate 16 9)) mail_sender = (Ok (replicate 16 9, 1, 5, Sent), sender')"
    and w: "cl_world sender' = mail_node_after ct" by blast
  obtain rcpt' where sync: "sync ?b ?r = (Ok 0, rcpt')"
    using mail_receipt_stored[folded ct_def] mail_recipient_synced[OF len, of "[mail_outgoing]" AttrReceipt] by (auto simp: chats_def)
  have world: "cl_world ?r = cl_world sender'" and failed: "failed_deliveries (mh_db (cl_world ?r)) = []"
    by (simp_all add: w mail_recipient_def mail_written(4))
  have wf: "mailbox_wf (mh_db (cl_world mail_sender))"
    "watermark (cl_store ?r) = as_u64 (blobs_seq (mh_db (cl_world mail_sender)))"
    by (simp_all add: mail_sender_def mail_node_wf watermark_def mail_recipient_def)
  have addr: "server_addr (contact_of (paired_row (Some [0]))) = Some [0]" by simp
  have ready: "ready_for ?b ?r (paired_row None) (InSession ()) {}" by (simp add: mail_ready)
  from receipt_marks_delivered[OF mail_talks mail_formats(2) mail_talks mail_formats(1) mail_contact addr mail_opened
      send world wf ready _ sync failed] mail_channel
  have "messages (cl_store rcpt') = update_where (\<lambda>m. m_contact_id m = c_id (paired_row None) \<and> m_msg_id m = replicate 16 9)
      (m_status_update (\<lambda>_. Some ''delivered'')) (messages (cl_store ?r))" by simp
  with sync show ?thesis by (simp add: ct_def mail_recipient_def mail_outgoing_def)
qed

end
