(* ===== verification/Core_Sessions.thy ===== *)
theory Core_Sessions
  imports End_To_End
begin

text \<open>
  What the life of the Olm sessions in a client's store (\<^verbatim>\<open>crates/pm-core/src/client.rs\<close>)
  means for the messages: what \<^verbatim>\<open>send_lock\<close> serialises and what it does not, and what becomes
  of messages in a session whose other end the recipient does not have.
\<close>

section \<open>Concurrent deliveries\<close>

text \<open>
  C4: the lock makes deliveries atomic. Whatever tasks call \<^verbatim>\<open>deliver\<close>, and however their
  steps, their waiting for the lock and for the network, and their being dropped in between
  interleave, never do two of them hold the guard; and when none does, the client is in the state it
  would be in had the same deliveries run one after the other in the order in which they took the
  lock, those that were dropped as far as they had come. The second part is for runs in which no
  message is received.
\<close>

theorem locked_deliveries_are_atomic:
  assumes "steps (conc_step e) (idle c) tr s"
  shows "(\<forall>t u. has_guard (rn_tasks s t) \<and> has_guard (rn_tasks s u) \<longrightarrow> t = u)
    \<and> ((\<forall>t. \<not> has_guard (rn_tasks s t)) \<and> (\<forall>ev \<in> set tr. \<not> is_receive ev)
        \<longrightarrow> rn_client s = one_by_one e tr (begun tr) c)"
proof -
  note ex = exclusive_steps[OF assms]
  from exclusive_unique(2)[OF ex] have "\<forall>t u. has_guard (rn_tasks s t) \<and> has_guard (rn_tasks s u) \<longrightarrow> t = u"
    by blast
  moreover have "rn_lock s = None" if "\<forall>t. \<not> has_guard (rn_tasks s t)"
    using ex that by (cases "rn_lock s") (simp_all add: exclusive_def)
  ultimately show ?thesis using serial_steps[OF assms] by (auto simp: serial_free)
qed

text \<open>
  C10: a message received while a delivery to the same contact is under way is forgotten by the
  session. When a delivery has finished, the session that is stored for its contact is the one
  computed from what was in the store when the delivery took the lock; any session state saved in
  between, by a message that was received (and so read, stored and acknowledged) while the delivery
  waited for the network, is overwritten. For a first message this replaces the session that the
  contact has accepted.
\<close>

theorem delivery_writes_back_what_it_read:
  assumes "steps (conc_step e) (idle c0) (tr @ [Finish t True]) s'"
  shows "rn_lock s' = None \<and> (\<exists>tr1 cid payload tr2 s1 p c2 pickle row. tr = tr1 @ Begin t cid payload # tr2
    \<and> (\<forall>ev \<in> set tr2. is_receive ev \<or> queues ev \<or> ev = Answer t)
    \<and> steps (conc_step e) (idle c0) tr1 s1 \<and> rn_lock s1 = None
    \<and> deliver_begin e cid payload (rn_client s1) = (Ok p, c2)
    \<and> session_pickle (env_olm e) (pd_session p) = Ok pickle
    \<and> lookup_row s_contact_id cid (sessions (cl_store (rn_client s'))) = Some row \<and> s_pickle row = pickle)"
proof -
  from assms obtain s where tr: "steps (conc_step e) (idle c0) tr s" and "conc_step e s (Finish t True) s'"
    by (auto simp: steps_snoc_iff)
  from this(2) obtain p status r c' where ph: "rn_tasks s t = Answered p status" and s': "s' = drop_guard t c' s"
    and "deliver_commit e p status (rn_client s) = (r, c')" and "is_ok r" by (auto elim: conc_finishE)
  then have save: "save_session e (pd_cid p) (pd_session p) (rn_client s) = (Ok (), c')"
    by (cases r) (auto simp: deliver_commit_def and_then_Ok_iff pure_Ok_iff)
  from holder_began_steps[OF tr, of t p] ph have "holder_began e c0 tr t p" by simp
  then obtain tr1 cid payload tr2 s1 c2 where began: "tr = tr1 @ Begin t cid payload # tr2"
      "\<forall>ev \<in> set tr2. is_receive ev \<or> queues ev \<or> ev = Answer t" "steps (conc_step e) (idle c0) tr1 s1"
      "rn_lock s1 = None" "deliver_begin e cid payload (rn_client s1) = (Ok p, c2)"
    unfolding holder_began_def by blast
  have "pd_cid p = cid" using began(5) by (auto simp: deliver_begin_def and_then_Ok_iff pure_Ok_iff)
  with save_session_row[OF save] obtain pickle row where "session_pickle (env_olm e) (pd_session p) = Ok pickle"
    "lookup_row s_contact_id cid (sessions (cl_store c')) = Some row" "s_pickle row = pickle" by metis
  with began s' show ?thesis
    by (intro conjI exI[of _ tr1] exI[of _ tr2] exI[of _ s1] exI[of _ c2]) (auto simp: drop_guard_def)
qed

section \<open>Failed deliveries\<close>

lemma session_at_open: "session_at e cid (cl_store c) ses \<Longrightarrow> open_session e cid contact c = (Ok ses, c)"
  by (auto simp: session_at_def open_session_def and_then_def store_do_def lift_outcome_def)

lemma session_at_begin:
  assumes "session_at e cid (cl_store c) ses" and "deliver_begin e cid payload c = (Ok p, c1)"
  shows "\<exists>r pt. payload_serialize (env_payload e) payload = Ok pt
    \<and> session_encrypt (env_olm e) r pt ses = (Ok (pd_otype p, pd_ciphertext p), pd_session p)"
proof -
  from assms(2) obtain contact where "client_get_contact cid c = (Ok contact, c)"
    by (cases rule: client_get_contact_cases[of cid c]) (auto simp: deliver_begin_def and_then_Ok_iff)
  from deliver_begin_Ok[OF this session_at_open[OF assms(1)] assms(2)] show ?thesis by metis
qed

text \<open>
  What Olm documents of the sending side of a session. \<open>next_key\<close> is the message key that the
  active sending chain will encrypt the next message with; there is none when the ratchet is inactive
  and a new chain is begun with a fresh ratchet key first. A message is sealed with that key, and the
  session moves past it.
\<close>

definition olm_chain ::
  "('acc, 'ses, 'r) vodozemac \<Rightarrow> ('ses \<Rightarrow> 'k option) \<Rightarrow> ('k \<Rightarrow> bytes \<Rightarrow> bytes) \<Rightarrow> bool" where
  "olm_chain v next_key seal \<longleftrightarrow>
     (\<forall>ses k r pt otype ct ses'. next_key ses = Some k \<longrightarrow> session_encrypt v r pt ses = (Ok (otype, ct), ses')
        \<longrightarrow> ct = seal k pt \<and> next_key ses' \<noteq> Some k)"

lemma olm_chainD:
  "olm_chain v next_key seal \<Longrightarrow> next_key ses = Some k \<Longrightarrow> session_encrypt v r pt ses = (Ok (otype, ct), ses')
    \<Longrightarrow> ct = seal k pt \<and> next_key ses' \<noteq> Some k"
  unfolding olm_chain_def by blast

text \<open>
  C11: a message that is sent again after a failure is encrypted with the same key, when the sending
  chain of the session is active. When a delivery in an existing session fails, the session that has
  encrypted it, and has moved past the key it used, is dropped, although what it encrypted may have
  reached the recipient; the store still has the session it started from. The next delivery to the
  contact, of the same or of another payload, is encrypted in that same state of the session: two
  payloads are sealed with one message key of the ratchet, which is meant to be used once.
\<close>

theorem failed_delivery_reuses_message_key:
  assumes chain: "olm_chain (env_olm e) next_key seal" and active: "next_key ses = Some k"
    and ses: "session_at e cid (cl_store c) ses" and begin1: "deliver_begin e cid payload c = (Ok p, c1)"
    and err: "deliver e cid payload c = (Err err, c')" and begin2: "deliver_begin e cid payload' c' = (Ok p', c2)"
  shows "session_at e cid (cl_store c') ses
    \<and> (\<exists>r pt. payload_serialize (env_payload e) payload = Ok pt
         \<and> session_encrypt (env_olm e) r pt ses = (Ok (pd_otype p, pd_ciphertext p), pd_session p)
         \<and> pd_ciphertext p = seal k pt \<and> next_key (pd_session p) \<noteq> Some k)
    \<and> (\<exists>r pt. payload_serialize (env_payload e) payload' = Ok pt
         \<and> session_encrypt (env_olm e) r pt ses = (Ok (pd_otype p', pd_ciphertext p'), pd_session p')
         \<and> pd_ciphertext p' = seal k pt)"
proof -
  from begin1 obtain contact where "client_get_contact cid c = (Ok contact, c)"
    by (cases rule: client_get_contact_cases[of cid c]) (auto simp: deliver_begin_def and_then_Ok_iff)
  with err have "deliver_in_session e cid contact payload ses c = (Err err, c')"
    by (simp add: deliver_def and_then_def session_at_open[OF ses])
  from keeps_errD[OF deliver_in_session_err_same_keys this] have "sessions (cl_store c') = sessions (cl_store c)"
    by (simp add: client_same_keys_def same_keys_def)
  with ses have again: "session_at e cid (cl_store c') ses" by (auto simp: session_at_def load_session_pickle_def)
  note sealed = olm_chainD[OF chain active]
  from session_at_begin[OF ses begin1] session_at_begin[OF again begin2] again show ?thesis using sealed by blast
qed

section \<open>Messages nobody can read\<close>

text \<open>
  What Olm documents of two sessions that do not belong together, as those that two devices make
  when each writes to the other first: nothing that is encrypted in one, now or after it has
  advanced, can be read with the other. \<open>family\<close> are the states of the one, \<open>others\<close> what the
  recipient has for reading.
\<close>

definition olm_deaf :: "('acc, 'ses, 'r) vodozemac \<Rightarrow> 'ses set \<Rightarrow> ('acc, 'ses) reader set \<Rightarrow> bool" where
  "olm_deaf v family others \<longleftrightarrow>
     (\<forall>ses \<in> family. \<forall>r pt otype ct ses'. session_encrypt v r pt ses = (Ok (otype, ct), ses')
        \<longrightarrow> ses' \<in> family \<and> (\<forall>x \<in> others. refuses v otype ct x))"

definition hears_with ::
  "('acc, 'ses, 'r, 'addr, 'w) env \<Rightarrow> ('acc, 'addr, 'w) client \<Rightarrow> ('acc, 'ses) reader set \<Rightarrow> bool" where
  "hears_with e c others \<longleftrightarrow> store_wf (cl_store c)
     \<and> (\<forall>r \<in> set (contacts (cl_store c)). \<exists>x \<in> others. reader_at e c (contact_of r) x)"

lemma attribute_unread:
  assumes "hears_with e c others" and "\<forall>x \<in> others. refuses (env_olm e) (olm_type v) (ciphertext v) x"
  shows "attribute_and_store e v c = (Ok Unattributed, c)"
proof -
  let ?ks = "map contact_of (sort_key c_id (contacts (cl_store c)))"
  have "store_do list_contacts c = (Ok ?ks, c)"
    using assms(1) list_contacts_ok[of "cl_store c"] by (simp add: hears_with_def store_do_def)
  moreover have "\<forall>k \<in> set ?ks. try_contact e v k c = (Ok None, c)"
    using assms unfolding hears_with_def by auto (metis try_contact_refuses)
  from attribute_among_skips[OF this, of "[]"] have "attribute_among e v ?ks c = (Ok Unattributed, c)"
    by (simp add: pure_def)
  ultimately show ?thesis by (simp add: attribute_and_store_def and_then_def)
qed

lemma status_same_keys: "keeps client_same_keys (store_do (set_message_status_by_msg_id mid st))"
  by (rule keepsI) (simp add: client_same_keys_def same_keys_def store_do_def set_message_status_by_msg_id_def)

lemma sync_unread:
  assumes node: "talks_to_node e now me" and wf: "mailbox_wf db"
    and wrote: "store_write sha a blob db = (Ok i, mh_db (cl_world c))"
    and mark: "watermark (cl_store c) = as_u64 (blobs_seq db)"
    and parse: "from_padded_bytes (env_envelope e) blob = Ok v" and hears: "hears_with e c others"
    and refuse: "\<forall>x \<in> others. refuses (env_olm e) (olm_type v) (ciphertext v) x"
    and sync: "sync e c = (Ok n, c')"
  shows "n = 0 \<and> map fixed_part (messages (cl_store c')) = map fixed_part (messages (cl_store c))
    \<and> sessions (cl_store c') = sessions (cl_store c) \<and> watermark (cl_store c') = as_u64 (blobs_seq db + 1)"
proof -
  from sync obtain addr bs c1 w c2 high ids c3 c4 c5
    where fetch: "call_node e addr (Fetch (mailbox_key (cl_identity c))) c = (Ok (Blobs bs), c1)"
      and w: "store_do get_last_synced_blob_id c1 = (Ok w, c2)"
      and proc: "process_blobs e (sort_key blob_id (filter (\<lambda>b. w < blob_id b) bs)) (0, w, []) c2
        = (Ok (n, high, ids), c3)"
      and rest: "ack_blobs e ids c3 = (Ok (), c4)" "store_do (set_last_synced_blob_id high) c4 = (Ok (), c5)"
        "poll_failed e c5 = (Ok (), c')" by (rule sync_OkE)
  from call_node_Ok[OF node fetch] obtain h' where bs: "bs = fetch_all (mh_db (cl_world c))"
    and c1: "c1 = c\<lparr>cl_world := h'\<rparr>" by (metis answer_Fetch)
  from w c1 have c2: "c2 = c\<lparr>cl_world := h'\<rparr>" and "w = watermark (cl_store c)"
    by (auto simp: store_do_def get_last_synced_blob_id_def watermark_def split: option.splits)
  have "hears_with e c2 others" using hears by (simp add: hears_with_def c2)
  note unread = attribute_unread[OF this refuse]
  have later: "as_u64 (blobs_seq db) < as_u64 (blobs_seq db + 1)"
    using only_new_blob[OF wf wrote] by (metis (mono_tags, lifting) filter_eq_Cons_iff StoredBlob.select_convs(1))
  with proc bs mark only_new_blob[OF wf wrote] \<open>w = _\<close> have "n = 0" and c3: "c3 = c2"
    and high: "high = as_u64 (blobs_seq db + 1)"
    by (auto simp: parse unread and_then_Ok_iff pure_Ok_iff max_def)
  moreover have "map fixed_part (messages (cl_store c')) = map fixed_part (messages (cl_store c))"
    using sync_end_received[OF rest] by (simp add: received_0 c3 c2)
  moreover have "sessions (cl_store c') = sessions (cl_store c)"
    using keepsD[OF sk.keeps_ack_blobs, of c3 e ids] keepsD[OF sk.keeps_poll_failed[OF status_same_keys], of c5 e] rest
    by (auto simp: client_same_keys_def same_keys_def c3 c2 store_do_def set_last_synced_blob_id_def upsert_account_def)
  moreover have "watermark (cl_store c5) = high"
    using rest(2) by (auto simp: store_do_def set_last_synced_blob_id_def upsert_account_def watermark_def)
  moreover have "watermark (cl_store c') = watermark (cl_store c5)"
    using keepsD[OF wm.keeps_poll_failed[OF status_same_watermark], of c5 e] rest(3)
    by (metis same_watermark_def snd_conv)
  ultimately show ?thesis by simp
qed

text \<open>
  C12: in sessions that do not belong together messages are lost without an error. Two devices that
  write to each other first each make a session of their own. What one of them then sends is taken
  by the recipient's node and recorded as sent, and the session it was encrypted in stays of that
  kind; the recipient's next synchronisation returns, counts no message, leaves the history and the
  sessions as they were, so that the next message meets the same, and moves past the envelope, so
  that it is never looked at again.
\<close>

theorem mismatched_sessions_lose_messages:
  assumes node: "talks_to_node a now me" and ro: "reads_only a" and node': "talks_to_node b now' me'"
    and formats: "same_formats a b" and json: "codec_roundtrip (ses_json (env_olm a))"
    and contact: "client_get_contact cid sender = (Ok contact, sender)" and addr: "server_addr contact = Some ab"
    and opened: "open_session a cid contact sender = (Ok sa, s1)" and sa: "sa \<in> family"
    and deaf: "olm_deaf (env_olm a) family others" and hears: "hears_with b rcpt others"
    and send: "send a cid text sender = (Ok (), sender')"
    and world: "cl_world rcpt = cl_world sender'" and wf: "mailbox_wf (mh_db (cl_world sender))"
    and mark: "watermark (cl_store rcpt) = as_u64 (blobs_seq (mh_db (cl_world sender)))"
    and sync: "sync b rcpt = (Ok n, rcpt')"
  shows "m_status (last (messages (cl_store sender'))) = Some ''sent''
    \<and> (\<exists>sa' \<in> family. session_at a cid (cl_store sender') sa')
    \<and> n = 0 \<and> map fixed_part (messages (cl_store rcpt')) = map fixed_part (messages (cl_store rcpt))
    \<and> sessions (cl_store rcpt') = sessions (cl_store rcpt)
    \<and> watermark (cl_store rcpt') = as_u64 (blobs_seq (mh_db (cl_world sender)) + 1)"
proof -
  from send obtain mid lam at st c where dl: "deliver a cid (Chat text) sender = (Ok (mid, lam, at, st), c)"
    and ins: "store_do (insert_message cid \<lparr>nm_msg_id = mid, nm_direction = Outgoing, nm_lamport = lam,
        nm_sent_at = at, nm_plaintext = text, nm_status = Some st\<rparr>) c = (Ok (), sender')"
    by (auto simp: send_def and_then_Ok_iff)
  from deliver_reaches_node[OF node ro contact addr opened dl] obtain rnd pt otype ct sa' wn blob auth i where
    enc: "session_encrypt (env_olm a) rnd pt sa = (Ok (otype, ct), sa')"
    and blob: "to_padded_bytes (env_envelope a) (Envelope_new otype ct wn lam at mid) = Ok blob"
    and wr: "store_write (env_sha256 a) auth blob (mh_db (cl_world sender)) = (Ok i, mh_db (cl_world c))"
    and st: "st = Sent" and ses: "session_at a cid (cl_store c) sa'" using json by metis
  let ?v = "Envelope_new otype ct wn lam at mid"
  note fm = formats[unfolded same_formats_def]
  have "olm_type ?v = otype" "ciphertext ?v = ct" by (simp_all add: Envelope_new_def)
  moreover from deaf enc sa have "sa' \<in> family" "\<forall>x \<in> others. refuses (env_olm a) otype ct x"
    unfolding olm_deaf_def by blast+
  ultimately have refuse: "\<forall>x \<in> others. refuses (env_olm b) (olm_type ?v) (ciphertext ?v) x" and fam: "sa' \<in> family"
    using fm by simp_all
  have "mh_db (cl_world rcpt) = mh_db (cl_world c)" using world store_do_world[OF ins] by simp
  note lost = sync_unread[OF node' wf wr[folded this] mark _ hears refuse sync]
  have "from_padded_bytes (env_envelope b) blob = Ok ?v" using from_to_padded_bytes[OF _ blob] fm by simp
  moreover have "m_status (last (messages (cl_store sender'))) = Some ''sent''"
    and "sessions (cl_store sender') = sessions (cl_store c)"
    using ins st by (auto simp: store_do_def insert_message_def split: if_splits)
  ultimately show ?thesis
    using lost fam ses by (auto simp: session_at_def load_session_pickle_def)
qed

section \<open>Instances\<close>

lemmas conc_more = more_steps[where step = "conc_step e" for e]

text \<open>A delivery whose message the node has accepted while a second task waits, and its end.\<close>

abbreviation mail_events :: "(nat, string MailboxHandler) client_event list" where
  "mail_events \<equiv> [Call 0 1 (Chat [7]), Call 1 1 (Chat [8]), Begin 0 1 (Chat [7]), Answer 0]"

abbreviation mail_at :: "(unit, nat, string MailboxHandler) client \<Rightarrow> (unit, unit, nat, string MailboxHandler) running" where
  "mail_at c \<equiv> \<lparr>rn_client = c, rn_lock = Some 0,
     rn_tasks = (\<lambda>_. New)(0 := Answered (mail_pending [0, 7]) Sent, 1 := Waiting 1 (Chat [8]))\<rparr>"

lemma first_task_moves: "(\<lambda>_. New)(Suc 0 := b, 0 := c) = (\<lambda>_. New)(0 := c, Suc 0 := b)"
  by (simp add: fun_eq_iff)

lemma mail_queued:
  "steps (conc_step e) (idle mail_sender) [Call 0 1 (Chat [7]), Call 1 1 (Chat [8])]
     \<lparr>rn_client = mail_sender, rn_lock = None,
      rn_tasks = (\<lambda>_. New)(0 := Waiting 1 (Chat [7]), 1 := Waiting 1 (Chat [8]))\<rparr>"
proof -
  have new: "rn_tasks (idle mail_sender) 0 = New" by (simp add: idle_def)
  from conc_more[OF conc_more[OF no_steps calls[OF new]] calls[where t = 1]] show ?thesis by (simp add: idle_def)
qed

lemma mail_answered:
  "\<exists>c. steps (conc_step (mail_env [0, 7] ''alice'')) (idle mail_sender) mail_events (mail_at c)
     \<and> map c_id (contacts (cl_store c)) = [1]"
proof -
  let ?e = "mail_env [0, 7] ''alice''" and ?p = "mail_pending [0, 7]"
  let ?s = "\<lambda>c lock ph. \<lparr>rn_client = c, rn_lock = lock, rn_tasks = (\<lambda>_. New)(0 := ph, 1 := Waiting 1 (Chat [8]))\<rparr>"
  have "enc mail_payload (Chat [7]) = Inr [0, 7]" by (simp add: mail_payload_def)
  from mail_begin[OF this] have "conc_step ?e (?s mail_sender None (Waiting 1 (Chat [7]))) (Begin 0 1 (Chat [7])) (?s mail_ticked (Some 0) (Sending ?p))"
    using begins[of "?s mail_sender None (Waiting 1 (Chat [7]))" 0 1 "Chat [7]" "Some 0" ?e ?p mail_ticked]
    by (simp add: acquire_def first_task_moves)
  note run = conc_more[OF mail_queued this]
  obtain c where "deliver_transmit ?e ?p mail_ticked = (Ok Sent, c)" and c: "map c_id (contacts (cl_store c)) = [1]"
    using mail_transmit[of "[0, 7]"] by auto
  then have "conc_step ?e (?s mail_ticked (Some 0) (Sending ?p)) (Answer 0) (mail_at c)"
    using answered[of "?s mail_ticked (Some 0) (Sending ?p)" 0 ?p ?e Sent c] by (simp add: first_task_moves)
  from conc_more[OF run this] c show ?thesis by (intro exI[of _ c]) simp
qed

lemma received_keeps_contact:
  assumes "attribute_and_store e v c = (r, c')" and "map c_id (contacts (cl_store c)) = [cid]"
  shows "cid \<in> c_id ` set (contacts (cl_store c'))"
proof -
  from keepsD[OF attribute_and_store_le, of c e v] assms(1,2)
  have "contacts_le (contacts (cl_store c)) (contacts (cl_store c'))"
    by (simp add: client_le_def store_le_def store_grows_def unique_ids_def)
  moreover from assms(2) obtain k where "contacts (cl_store c) = [k]" "c_id k = cid" by auto
  ultimately show ?thesis by (auto simp: contacts_le_def row_le_def image_iff) (metis)
qed

lemma only_id: "map f xs = [y] \<Longrightarrow> y \<in> f ` set xs"
  by (metis list.set_intros(1) set_map)

lemma mail_finished:
  assumes "1 \<in> c_id ` set (contacts (cl_store (rn_client s)))" and "rn_tasks s t = Answered (mail_pending ct) Sent"
  shows "\<exists>c'. conc_step (mail_env ct me) s (Finish t True) (drop_guard t c' s)"
proof -
  obtain x c' where "deliver_commit (mail_env ct me) (mail_pending ct) Sent (rn_client s) = (Ok x, c')"
    using mail_commit[of "rn_client s" ct me Sent] assms(1) by (auto simp: fk_violated_def)
  from finishes[OF assms(2) this] show ?thesis by auto
qed

text \<open>A waiting task that gets the lock, and is dropped if it comes as far as the network.\<close>

lemma second_ends:
  fixes s :: "('acc, 'ses, 'addr, 'w) running"
  assumes "steps (conc_step e) s0 tr s" and "rn_lock s = None" and "rn_tasks s t = Waiting cid payload"
  shows "\<exists>tr' s'. steps (conc_step e) s0 (tr @ Begin t cid payload # tr') s'
    \<and> rn_tasks s' = (rn_tasks s)(t := Ended) \<and> (tr' = [] \<or> tr' = [Cancel t (env_net e)])"
proof -
  obtain r c where r: "deliver_begin e cid payload (rn_client s) = (r, c)" by fastforce
  have free: "acquire t (rn_lock s) = Some (Some t)" using assms(2) by (simp add: acquire_def)
  show ?thesis
  proof (cases "is_ok r")
    case False
    from conc_more[OF assms(1) begin_fails[OF assms(3) free r False]] show ?thesis
      by (intro exI[of _ "[]"] exI[of _ "drop_guard t c s"]) (simp add: drop_guard_def)
  next
    case True
    then obtain p where "deliver_begin e cid payload (rn_client s) = (Ok p, c)" using r by (cases r) auto
    note run = conc_more[OF assms(1) begins[OF assms(3) free this]]
    let ?s = "s\<lparr>rn_client := c, rn_lock := Some t, rn_tasks := (rn_tasks s)(t := Sending p)\<rparr>"
    obtain x c' where "deliver_transmit (e\<lparr>env_net := env_net e\<rparr>) p (rn_client ?s) = (x, c')" by fastforce
    from conc_more[OF run cancelled[OF _ this, of t]] show ?thesis
      by (intro exI[of _ "[Cancel t (env_net e)]"] exI[of _ "drop_guard t c' ?s"]) (simp add: drop_guard_def)
  qed
qed

theorem locked_deliveries_are_atomic_witness:
  "\<exists>tr s. steps (conc_step (mail_env [0, 7] ''alice'')) (idle mail_sender) tr s
     \<and> begun tr = [(0, 1, Chat [7]), (1, 1, Chat [8])] \<and> take 4 tr = mail_events
     \<and> rn_client s = one_by_one (mail_env [0, 7] ''alice'') tr [(0, 1, Chat [7]), (1, 1, Chat [8])] mail_sender"
proof -
  let ?e = "mail_env [0, 7] ''alice''"
  obtain c where run: "steps (conc_step ?e) (idle mail_sender) mail_events (mail_at c)"
    and c: "map c_id (contacts (cl_store c)) = [1]" using mail_answered by (elim exE conjE) (rule that)
  from only_id[OF c] have "1 \<in> c_id ` set (contacts (cl_store (rn_client (mail_at c))))" by simp
  then obtain c' where "conc_step ?e (mail_at c) (Finish 0 True) (drop_guard 0 c' (mail_at c))"
    by (rule exE[OF mail_finished[where t = 0]]) (simp, rule that)
  from conc_more[OF run this] have "steps (conc_step ?e) (idle mail_sender) (mail_events @ [Finish 0 True]) (drop_guard 0 c' (mail_at c))" .
  from second_ends[OF this, of 1 1 "Chat [8]"] obtain tr' s' where
    fin: "steps (conc_step ?e) (idle mail_sender) ((mail_events @ [Finish 0 True]) @ Begin 1 1 (Chat [8]) # tr') s'"
    and tasks: "rn_tasks s' = (\<lambda>_. New)(0 := Ended, 1 := Ended)" and tr': "tr' = [] \<or> tr' = [Cancel 1 (env_net ?e)]"
    by (auto simp: drop_guard_def)
  let ?tr = "(mail_events @ [Finish 0 True]) @ Begin 1 1 (Chat [8]) # tr'"
  have "\<forall>t. \<not> has_guard (rn_tasks s' t)" using tasks by simp
  moreover have "\<forall>ev \<in> set ?tr. \<not> is_receive ev" using tr' by auto
  ultimately have "rn_client s' = one_by_one ?e ?tr (begun ?tr) mail_sender"
    using locked_deliveries_are_atomic[OF fin] by blast
  moreover have "begun ?tr = [(0, 1, Chat [7]), (1, 1, Chat [8])]" using tr' by auto
  ultimately show ?thesis using fin by (intro exI[of _ ?tr] exI[of _ s']) simp
qed

theorem delivery_writes_back_what_it_read_witness:
  "\<exists>s' row. steps (conc_step (mail_env [0, 7] ''alice'')) (idle mail_sender)
      (mail_events @ [Receive (mail_envelope [0, 8]), Finish 0 True]) s'
     \<and> lookup_row s_contact_id 1 (sessions (cl_store (rn_client s'))) = Some row \<and> s_pickle row = []"
proof -
  let ?e = "mail_env [0, 7] ''alice''" and ?tr = "mail_events @ [Receive (mail_envelope [0, 8])]"
  obtain c where run: "steps (conc_step ?e) (idle mail_sender) mail_events (mail_at c)"
    and c: "map c_id (contacts (cl_store c)) = [1]" using mail_answered by (elim exE conjE) (rule that)
  obtain r c1 where "attribute_and_store ?e (mail_envelope [0, 8]) (rn_client (mail_at c)) = (r, c1)" by fastforce
  note att = this
  from conc_more[OF run receives[OF att]] have got: "steps (conc_step ?e) (idle mail_sender) ?tr (mail_at c1)" by simp
  have "1 \<in> c_id ` set (contacts (cl_store (rn_client (mail_at c1))))"
    using received_keeps_contact[OF att] c by simp
  then obtain c' where "conc_step ?e (mail_at c1) (Finish 0 True) (drop_guard 0 c' (mail_at c1))"
    by (rule exE[OF mail_finished[where t = 0]]) (simp, rule that)
  from conc_more[OF got this] have fin: "steps (conc_step ?e) (idle mail_sender) (?tr @ [Finish 0 True]) (drop_guard 0 c' (mail_at c1))" .
  from delivery_writes_back_what_it_read[OF fin] obtain tr1 cid payload tr2 pickle row and p :: "unit pending_delivery" where
    tr: "?tr = tr1 @ Begin 0 cid payload # tr2" and "session_pickle (env_olm ?e) (pd_session p) = Ok pickle"
    and row: "lookup_row s_contact_id cid (sessions (cl_store (rn_client (drop_guard 0 c' (mail_at c1))))) = Some row" "s_pickle row = pickle"
    by (elim conjE exE) (rule that)
  moreover from tr have "Begin 0 cid payload \<in> set ?tr" by simp
  then have "cid = 1" by simp
  ultimately have "lookup_row s_contact_id 1 (sessions (cl_store (rn_client (drop_guard 0 c' (mail_at c1))))) = Some row \<and> s_pickle row = []"
    by (simp add: session_pickle_def sample_olm_def)
  with fin show ?thesis by (intro exI[of _ "drop_guard 0 c' (mail_at c1)"] exI[of _ row]) simp
qed

text \<open>
  A ratchet that is a counter: its messages begin with the number of the key. A client in such a
  session with its contact, and no network.
\<close>

definition ratchet_olm :: "(unit, nat, unit) vodozemac" where
  "ratchet_olm = \<lparr>acc_new = \<lambda>_. (), acc_key = \<lambda>_. replicate 32 3, acc_generate_otks = \<lambda>_ _ _. (),
     acc_otks = \<lambda>_. [replicate 32 6], acc_outbound = \<lambda>_ _ _ _. Inr 0, acc_inbound = \<lambda>_ m _. Inr ((), 0, m),
     olm_parse = \<lambda>n ct. Inr (if n = 0 then PreKey ct else Normal ct),
     ses_encrypt = \<lambda>_ p n. Inr (Suc n, 1, word_of_nat n # p), ses_decrypt = \<lambda>m n. Inl [],
     acc_json = \<lparr>enc = \<lambda>_. Inr [], dec = \<lambda>_. Inr ()\<rparr>,
     ses_json = \<lparr>enc = \<lambda>n. Inr (be_encode 8 n), dec = \<lambda>bs. Inr (be_decode bs)\<rparr>\<rparr>"

definition ratchet_env :: "(unit, nat, unit, nat, unit) env" where
  "ratchet_env = \<lparr>env_olm = ratchet_olm, env_hkdf = env_hkdf dead_env, env_sha256 = env_sha256 dead_env,
     env_ed = env_ed dead_env, env_aead = env_aead dead_env, env_addr = env_addr dead_env,
     env_envelope = sample_envelope_codec, env_payload = sample_payload_codec, env_bundle = env_bundle dead_env,
     env_pointer = env_pointer dead_env, env_request = env_request dead_env, env_response = env_response dead_env,
     env_ack = env_ack dead_env, env_net = dead_network, env_open_store = env_open_store dead_env,
     env_bind = env_bind dead_env, env_public_id = env_public_id dead_env, env_endpoint_addr = \<lambda>k. Inr (length k),
     env_times_out = \<lambda>_ _ _. None, env_random = \<lambda>n w. (replicate n 9, w), env_olm_random = \<lambda>w. ((), w),
     env_now = \<lambda>w. (5, w), env_debug = \<lambda>_. [], env_show = \<lambda>_. []\<rparr>"

definition dead_sender :: "nat \<Rightarrow> (unit, nat, unit) client" where
  "dead_sender n = sample_client ((session_store None)\<lparr>local_clock := Integer (int n)\<rparr>) None ()"

definition dead_pending :: "bytes \<Rightarrow> nat \<Rightarrow> nat pending_delivery" where
  "dead_pending t n = \<lparr>pd_cid = 1, pd_contact = contact_of (paired_row None), pd_session = 1, pd_otype = 1,
     pd_ciphertext = 0 # 0 # t, pd_lamport = of_nat n, pd_sent_at = 5, pd_msg_id = replicate 16 9\<rparr>"

lemma ratchet_chain: "olm_chain ratchet_olm Some (\<lambda>n pt. word_of_nat n # pt)"
  by (simp add: olm_chain_def session_encrypt_def ratchet_olm_def)

lemma dead_session: "session_at ratchet_env 1 (cl_store (dead_sender n)) 0"
  by (simp add: session_at_def dead_sender_def load_session_pickle_def ratchet_env_def session_from_pickle_def
      ratchet_olm_def be_decode_def)

lemma dead_begin:
  assumes "n < 2"
  shows "deliver_begin ratchet_env 1 (Chat t) (dead_sender n) = (Ok (dead_pending t (Suc n)), dead_sender (Suc n))"
proof -
  have "client_get_contact 1 (dead_sender n) = (Ok (contact_of (paired_row None)), dead_sender n)"
    by (rule client_get_contact_ok) (use session_store_wf[of None] in \<open>simp_all add: dead_sender_def store_wf_def\<close>)
  moreover have "store_do tick_lamport (dead_sender n) = (Ok (of_nat (Suc n)), dead_sender (Suc n))"
    using assms by (simp add: store_do_def tick_lamport_def current_def i64_max_def dead_sender_def as_u64_def sample_client_def)
  moreover have "encrypt_payload ratchet_env (Chat t) 0 (dead_sender n) = (Ok (1, 1, 0 # 0 # t), dead_sender n)"
    by (simp add: ratchet_env_def encrypt_payload_def run_simps payload_serialize_def sample_payload_codec_def
        session_encrypt_def ratchet_olm_def dead_sender_def sample_client_def)
  moreover have "world_do (env_random ratchet_env 16) c = (Ok (replicate 16 9), c)"
    "world_do (env_now ratchet_env) c = (Ok 5, c)" for c :: "(unit, nat, unit) client"
    by (simp_all add: world_do_def ratchet_env_def)
  ultimately show ?thesis
    using session_at_open[OF dead_session, of "contact_of (paired_row None)" n]
    by (simp add: deliver_begin_def and_then_def dead_pending_def pure_def)
qed

lemma dead_transmit:
  "deliver_transmit ratchet_env (dead_pending [7] 1) (dead_sender 1) = (Err (TransportErr (Connect [])), dead_sender 1)"
proof -
  from pad_Ok_iff[of "[0, 0, 7]"] obtain b where "pad [0, 0, 7] = Ok b" by auto
  then have "envelope_bytes_of ratchet_env 1 [0, 0, 7] 0 1 5 (replicate 16 9) (dead_sender 1) = (Ok b, dead_sender 1)"
    by (simp add: envelope_bytes_of_def lift_outcome_def to_padded_bytes_def Envelope_new_def sample_envelope_codec_def ratchet_env_def)
  then show ?thesis
    by (simp add: deliver_transmit_def dead_pending_def deliver_direct_def ratchet_env_def require_def lift_outcome_def
        and_then_def attempt_def try_direct_def call_direct_def dead_network_def dead_sender_def sample_client_def)
qed

theorem failed_delivery_reuses_message_key_witness:
  "\<exists>c' err p p'. deliver ratchet_env 1 (Chat [7]) (dead_sender 0) = (Err err, c')
     \<and> deliver_begin ratchet_env 1 (Chat [7]) (dead_sender 0) = (Ok p, c') \<and> pd_ciphertext p = [0, 0, 7]
     \<and> (\<exists>c2. deliver_begin ratchet_env 1 (Chat [8]) c' = (Ok p', c2)) \<and> pd_ciphertext p' = [0, 0, 8]
     \<and> (\<exists>r pt. session_encrypt ratchet_olm r pt 0 = (Ok (pd_otype p', [0, 0, 8]), pd_session p')
          \<and> [0, 0, 8] = word_of_nat 0 # pt)"
proof -
  have b1: "deliver_begin ratchet_env 1 (Chat [7]) (dead_sender 0) = (Ok (dead_pending [7] 1), dead_sender 1)"
    and b2: "deliver_begin ratchet_env 1 (Chat [8]) (dead_sender 1) = (Ok (dead_pending [8] 2), dead_sender 2)"
    using dead_begin[of 0 "[7]"] dead_begin[of 1 "[8]"] by (simp_all add: numeral_2_eq_2)
  from b1 dead_transmit have err: "deliver ratchet_env 1 (Chat [7]) (dead_sender 0) = (Err (TransportErr (Connect [])), dead_sender 1)"
    by (simp add: deliver_phases and_then_def)
  have olm: "env_olm ratchet_env = ratchet_olm" by (simp add: ratchet_env_def)
  from failed_delivery_reuses_message_key[OF ratchet_chain[folded olm] refl dead_session b1 err b2]
  have "\<exists>r pt. session_encrypt (env_olm ratchet_env) r pt 0 = (Ok (pd_otype (dead_pending [8] 2), pd_ciphertext (dead_pending [8] 2)), pd_session (dead_pending [8] 2))
      \<and> pd_ciphertext (dead_pending [8] 2) = word_of_nat 0 # pt"
    by blast
  then show ?thesis
    using err b1 b2 olm
    by (intro exI[of _ "dead_sender 1"] exI[of _ "dead_pending [7] 1"] exI[of _ "dead_pending [8] 2"]) (auto simp: dead_pending_def)
qed

text \<open>A recipient that has lost its session with the contact, and gets a message that does not begin one.\<close>

definition deaf_recipient :: "bytes \<Rightarrow> (unit, nat, string MailboxHandler) client" where
  "deaf_recipient ct = sample_client (paired_store None) (Some 0) (mail_node_after ct)"

theorem mismatched_sessions_lose_messages_witness:
  "\<exists>sender' rcpt'. send (mail_env [0, 7] ''alice'') 1 [7] mail_sender = (Ok (), sender')
     \<and> sync (mail_env [0, 7] ''bob'') (deaf_recipient [0, 7]) = (Ok 0, rcpt')
     \<and> m_status (last (messages (cl_store sender'))) = Some ''sent'' \<and> messages (cl_store rcpt') = []"
proof -
  let ?a = "mail_env [0, 7] ''alice''" and ?b = "mail_env [0, 7] ''bob''" and ?r = "deaf_recipient [0, 7]"
  have "enc mail_payload (Chat [7]) = Inr [0, 7]" by (simp add: mail_payload_def)
  from mail_delivered[OF this] obtain sender' where send: "send ?a 1 [7] mail_sender = (Ok (), sender')"
    and w: "cl_world sender' = mail_node_after [0, 7]"
    by (auto simp: send_def and_then_def store_do_def insert_message_def)
  let ?x = "Opening (replicate 32 2) ()"
  have hears: "hears_with ?b ?r {?x}"
    by (simp add: hears_with_def deaf_recipient_def paired_store_wf)
      (simp add: paired_store_def paired_row_def empty_store_def contact_of_def)
  have deaf: "olm_deaf (env_olm ?a) UNIV {?x}"
    by (auto simp: olm_deaf_def session_encrypt_def accept_incoming_def sample_olm_def)
  have "attribute_and_store ?b (mail_envelope [0, 7]) ?r = (Ok Unattributed, ?r)"
    by (rule attribute_unread[OF hears]) (simp add: accept_incoming_def sample_olm_def mail_envelope_def Envelope_new_def)
  then obtain rcpt' where sync: "sync ?b ?r = (Ok 0, rcpt')"
    using mail_synced[of "[0, 7]" "paired_store None" Unattributed]
    by (auto simp: deaf_recipient_def chats_def get_last_synced_blob_id_def as_u64_def sample_client_def)
  have world: "cl_world ?r = cl_world sender'" by (simp add: w deaf_recipient_def)
  have wf: "mailbox_wf (mh_db (cl_world mail_sender))"
    "watermark (cl_store ?r) = as_u64 (blobs_seq (mh_db (cl_world mail_sender)))"
    by (simp_all add: mail_sender_def mail_node_wf watermark_def deaf_recipient_def)
  have addr: "server_addr (contact_of (paired_row (Some [0]))) = Some [0]" by simp
  have json: "codec_roundtrip (ses_json (env_olm ?a))" by (simp add: sample_olm_def codec_roundtrip_def)
  from mismatched_sessions_lose_messages[OF mail_talks mail_formats(2) mail_talks mail_formats(1) json mail_contact addr
      mail_opened UNIV_I deaf hears send world wf sync] send sync
  show ?thesis by (simp add: deaf_recipient_def)
qed

end
