(* ===== verification/Failure_Reports.thy ===== *)
theory Failure_Reports
  imports End_To_End
begin

text \<open>
  How a device learns that its node has given up on a delivery: the last step of
  \<^verbatim>\<open>Client::sync\<close> of \<^verbatim>\<open>crates/pm-core/src/client.rs\<close>, together with
  \<^verbatim>\<open>RetryQueue::take_failed\<close> of \<^verbatim>\<open>crates/pm-node/src/retry_queue.rs\<close>.
\<close>

section \<open>Reading a blob involves neither the node nor failures\<close>

definition same_place :: "('acc, 'addr, 'w) client \<Rightarrow> ('acc, 'addr, 'w) client \<Rightarrow> bool" where
  "same_place c c' \<longleftrightarrow> cl_world c' = cl_world c"

text \<open>The ids of the messages that are shown as failed.\<close>

definition failed_ids :: "('acc, 'addr, 'w) client \<Rightarrow> bytes set" where
  "failed_ids c = {m_msg_id m | m. m \<in> set (messages (cl_store c)) \<and> m_status m = Some ''failed''}"

definition no_new_failure :: "('acc, 'addr, 'w) client \<Rightarrow> ('acc, 'addr, 'w) client \<Rightarrow> bool" where
  "no_new_failure c c' \<longleftrightarrow> failed_ids c' \<subseteq> failed_ids c"

text \<open>
  What the loop over the blobs asks of a relation between the states before and after: the store
  methods it calls, the account and the spawned tasks.
\<close>

locale reading_order = step_order R
  for R :: "('acc, 'addr, 'w) client \<Rightarrow> ('acc, 'addr, 'w) client \<Rightarrow> bool" +
  assumes only_account: "R c (c\<lparr>cl_account := acc\<rparr>)"
    and keeps_spawn: "keeps R (spawn_task t)"
    and keeps_reading:
      "keeps R (store_do list_contacts)" "keeps R (store_do (get_contact cid))"
      "keeps R (store_do (load_session_pickle cid))" "keeps R (store_do (save_account_pickle p))"
      "keeps R (store_do (save_session_pickle cid p))" "keeps R (store_do (observe_lamport v))"
      "keeps R (store_do (set_message_status cid mid MessageStatus.Delivered))"
      "nm_status msg = None \<Longrightarrow> keeps R (store_do (insert_message cid msg))"
      "keeps R (store_do (set_contact_pointer_update cid a u n))"
begin

lemma keeps_save_session: "keeps R (save_session e cid ses)"
  unfolding save_session_def by (intro keeps_intros keeps_reading)

lemma keeps_handle_decrypted: "keeps R (handle_decrypted e cid v pt)"
  unfolding handle_decrypted_def client_get_contact_def
  by (auto intro!: keeps_intros keeps_reading keeps_spawn split: option.splits PlaintextPayload.splits)

lemma keeps_try_session: "keeps R (try_session e v cid ses)"
  unfolding try_session_def
  by (auto intro!: keeps_intros keeps_save_session keeps_handle_decrypted split: prod.splits outcome.splits)

lemma keeps_try_first_message: "keeps R (try_first_message e v k)"
proof (rule keepsI)
  fix c
  have "keeps R (and_then (lift_outcome (map_err Crypto (account_pickle (env_olm e) acc'))) (\<lambda>pickle.
          and_then (store_do (save_account_pickle pickle)) (\<lambda>_.
          and_then (save_session e (cr_id k) ses) (\<lambda>_.
          and_then (handle_decrypted e (cr_id k) v pt) (\<lambda>a. pure (Some a))))))" for acc' ses pt
    by (auto intro!: keeps_intros keeps_reading keeps_save_session keeps_handle_decrypted)
  from R_trans[OF only_account keepsD[OF this]] show "R c (snd (try_first_message e v k c))"
    using only_account by (auto simp: try_first_message_def split: prod.splits outcome.splits)
qed

lemma keeps_attribute_and_store: "keeps R (attribute_and_store e v)"
proof -
  have "keeps R (try_contact e v k)" for k
    unfolding try_contact_def
    by (auto intro!: keeps_intros keeps_reading keeps_try_session keeps_try_first_message split: option.splits)
  then have "keeps R (attribute_among e v ks)" for ks
    by (induction ks) (auto intro!: keeps_intros split: option.splits)
  then show ?thesis unfolding attribute_and_store_def by (intro keeps_intros keeps_reading)
qed

lemma keeps_process_blobs: "keeps R (process_blobs e bs acc)"
proof (induction bs arbitrary: acc)
  case (Cons b bs)
  then show ?case
    by (cases acc) (auto intro!: keeps_intros keeps_attribute_and_store simp: Let_def split: outcome.splits)
qed (simp add: keeps_unit)

end

interpretation pl: reading_order same_place
  by unfold_locales (auto intro!: keepsI simp: same_place_def store_do_def spawn_task_def Let_def split: prod.splits)

lemma failed_ids_store:
  assumes "messages s = messages (cl_store c)"
  shows "no_new_failure c (c\<lparr>cl_store := s\<rparr>)"
  using assms by (simp add: no_new_failure_def failed_ids_def)

interpretation nf: reading_order no_new_failure
proof unfold_locales
  fix c :: "('acc, 'addr, 'w) client" and cid mid
  show "keeps no_new_failure (store_do (set_message_status cid mid MessageStatus.Delivered))"
    by (rule keepsI) (auto simp: no_new_failure_def failed_ids_def store_do_def set_message_status_def update_where_def)
next
  fix cid and msg :: NewMessage assume "nm_status msg = None"
  then show "keeps no_new_failure (store_do (insert_message cid msg))"
    by (intro keepsI) (auto simp: no_new_failure_def failed_ids_def store_do_def insert_message_def)
qed (auto intro!: keepsI failed_ids_store simp: no_new_failure_def failed_ids_def store_do_def spawn_task_def
    list_contacts_def get_contact_def and_then_def load_session_pickle_def save_account_pickle_def upsert_account_def
    save_session_pickle_def observe_lamport_def current_def set_contact_pointer_update_def update_contact_def Let_def
    split: prod.splits option.splits outcome.splits)

section \<open>The end of a synchronisation\<close>

lemma keeps_run: "keeps R m \<Longrightarrow> m c = (r, c') \<Longrightarrow> R c c'"
  using keepsD[of R m c] by simp

lemma marked_failed:
  assumes "messages (cl_store c') =
    map (\<lambda>m. if m_msg_id m \<in> F then m\<lparr>m_status := Some ''failed''\<rparr> else m) (messages (cl_store c))"
  shows "\<forall>m \<in> set (messages (cl_store c')). m_msg_id m \<in> F \<longrightarrow> m_status m = Some ''failed''"
    and "failed_ids c' \<subseteq> failed_ids c \<union> F"
  by (auto simp: assms failed_ids_def split: if_splits)

text \<open>
  C19: a delivery the node has given up on is shown as failed after the next synchronisation, and
  nothing else is. When \<^verbatim>\<open>sync\<close> succeeds, every message whose id was on the node's list of
  failed deliveries has the status failed, whatever status it had or was given by a receipt read
  in the same synchronisation; every other message with this status had it before; and the list
  at the node is empty, so no failure is reported twice.
\<close>

theorem failures_are_reported:
  assumes "talks_to_node e now me" and "sync e c = (Ok n, c')"
  shows "(\<forall>m \<in> set (messages (cl_store c')).
        m_msg_id m \<in> set (failed_deliveries (mh_db (cl_world c))) \<longrightarrow> m_status m = Some ''failed'')
    \<and> failed_ids c' \<subseteq> failed_ids c \<union> set (failed_deliveries (mh_db (cl_world c)))
    \<and> failed_deliveries (mh_db (cl_world c')) = []"
proof -
  from assms(2) obtain addr bs c1 w c2 high ids c3 c4 c5
    where fetch: "call_node e addr (Fetch (mailbox_key (cl_identity c))) c = (Ok (Blobs bs), c1)"
      and w: "store_do get_last_synced_blob_id c1 = (Ok w, c2)"
      and proc: "process_blobs e (sort_key blob_id (filter (\<lambda>b. w < blob_id b) bs)) (0, w, []) c2
        = (Ok (n, high, ids), c3)"
      and ack: "ack_blobs e ids c3 = (Ok (), c4)" and set: "store_do (set_last_synced_blob_id high) c4 = (Ok (), c5)"
      and poll: "poll_failed e c5 = (Ok (), c')" by (rule sync_OkE)
  from call_node_Ok[OF assms(1) fetch] obtain h' where c1: "c1 = c\<lparr>cl_world := h'\<rparr>"
    and h': "mh_db h' = mh_db (cl_world c)" by (metis answer_Fetch)
  have c2: "c2 = c1" using w by (auto simp: store_do_def get_last_synced_blob_id_def split: option.splits)
  have "cl_world c3 = cl_world c2" "failed_ids c3 \<subseteq> failed_ids c2"
    using keeps_run[OF pl.keeps_process_blobs proc] keeps_run[OF nf.keeps_process_blobs proc]
    unfolding same_place_def no_new_failure_def .
  moreover have "messages (cl_store c5) = messages (cl_store c4)" "cl_world c5 = cl_world c4"
    using set by (auto simp: store_do_def set_last_synced_blob_id_def upsert_account_def)
  ultimately have queue: "failed_deliveries (mh_db (cl_world c5)) = failed_deliveries (mh_db (cl_world c))"
    and old: "failed_ids c5 \<subseteq> failed_ids c"
    using ack_blobs_keeps_failed[OF assms(1) ack] c1 c2 h' unfolding failed_ids_def by simp_all
  note marks = poll_failed_marks[OF assms(1) poll, unfolded queue]
  from marked_failed[OF marks[THEN conjunct2]] marks[THEN conjunct1] old show ?thesis by (intro conjI) (assumption | fast)+
qed

text \<open>A node that has given up on a message, which a receipt had marked as delivered.\<close>

definition report_response :: "NodeResponse codec" where
  "report_response =
     \<lparr>enc = \<lambda>r. if r = Blobs [] then Inr [1] else if r = FailedDeliveries [replicate 16 9] then Inr [2] else Inl [],
      dec = \<lambda>bs. if bs = [1] then Inr (Blobs []) else if bs = [2] then Inr (FailedDeliveries [replicate 16 9]) else Inl []\<rparr>"

definition report_env :: "(unit, unit, unit, nat, string MailboxHandler) env" where
  "report_env = (sample_env (node_network (\<lambda>b. b) mail_request report_response 0 ''bob''))\<lparr>
     env_request := mail_request, env_response := report_response\<rparr>"

definition report_client :: "(unit, nat, string MailboxHandler) client" where
  "report_client = sample_client ((session_store None)\<lparr>messages := [mail_outgoing\<lparr>m_status := Some ''delivered''\<rparr>]\<rparr>)
     (Some 0) (mail_node\<lparr>mh_db := (mh_db mail_node)\<lparr>failed_deliveries := [replicate 16 9]\<rparr>\<rparr>)"

lemma report_response_ok: "codec_roundtrip report_response"
  by (auto simp: codec_roundtrip_def report_response_def split: if_splits)

lemma report_talks: "talks_to_node report_env 0 ''bob''"
  by (simp add: talks_to_node_def report_env_def sample_env_def mail_codecs report_response_ok)

lemma report_calls:
  assumes "answer (\<lambda>b. b) 0 ''bob'' (Inr req) (cl_world c) = (Ok resp, h)"
    and "enc mail_request req = Inr [k]" and "enc report_response resp = Inr [j]"
  shows "call_node report_env addr req c = (Ok resp, c\<lparr>cl_world := h\<rparr>)"
proof -
  have "call (node_network (\<lambda>b. b) mail_request report_response 0 ''bob'') mail_request report_response addr req (cl_world c)
      = (Ok resp, h)"
    by (rule node_call_Ok[OF assms(2) _ _ assms(1,3)])
      (use codec_roundtripD[OF mail_codecs(1) assms(2)] codec_roundtripD[OF report_response_ok assms(3)] in \<open>simp_all add: MAX_MESSAGE_SIZE_def\<close>)
  then show ?thesis by (simp add: call_node_def report_env_def)
qed

lemma report_synced: "\<exists>c'. sync report_env report_client = (Ok 0, c') \<and> map m_msg_id (messages (cl_store c')) = [replicate 16 9]"
proof -
  have key: "mh_mailbox_key (cl_world report_client) = replicate 32 3" "mailbox_key (cl_identity report_client) = replicate 32 3"
    by (simp_all add: report_client_def mail_node_def MailboxHandler_new_def sample_client_def sample_identity_def)
  have "fetch_all (mh_db (cl_world report_client)) = []"
    by (simp add: report_client_def mail_node_def MailboxHandler_new_def fetch_all_def register_slot_def empty_node_db_def)
  then have "answer (\<lambda>b. b) 0 ''bob'' (Inr (Fetch (replicate 32 3))) (cl_world report_client) = (Ok (Blobs []), cl_world report_client)"
    using key by (simp add: answer_def)
  then have fetch: "call_node report_env addr (Fetch (replicate 32 3)) report_client = (Ok (Blobs []), report_client)" for addr
    using report_calls[where k = 1 and j = 1] by (simp add: mail_request_def report_response_def)
  obtain s where s: "store_do get_last_synced_blob_id report_client = (Ok 0, report_client)"
    "store_do (set_last_synced_blob_id 0) report_client = (Ok (), report_client\<lparr>cl_store := s\<rparr>)"
    "messages s = [mail_outgoing\<lparr>m_status := Some ''delivered''\<rparr>]"
    by (auto simp: store_do_def get_last_synced_blob_id_def set_last_synced_blob_id_def upsert_account_def report_client_def
        sample_client_def session_store_def as_u64_def)
  let ?c = "report_client\<lparr>cl_store := s\<rparr>"
  obtain h where "answer (\<lambda>b. b) 0 ''bob'' (Inr (PollFailedDeliveries (replicate 32 3))) (cl_world ?c)
      = (Ok (FailedDeliveries [replicate 16 9]), h)"
    using key by (simp add: answer_def Let_def take_failed_def report_client_def)
  from report_calls[OF this, where k = 3 and j = 2] have
    "call_node report_env addr (PollFailedDeliveries (replicate 32 3)) ?c
      = (Ok (FailedDeliveries [replicate 16 9]), ?c\<lparr>cl_world := h\<rparr>)" for addr
    by (simp add: mail_request_def report_response_def)
  moreover have "cl_server_addr report_client = Some 0" by (simp add: report_client_def)
  ultimately show ?thesis
    using fetch s key by (simp add: sync_def and_then_def require_def lift_outcome_def pure_def ack_blobs_def
        poll_failed_def own_addr_def store_do_def[of "set_message_status_by_msg_id _ _"] set_message_status_by_msg_id_def
        mail_outgoing_def)
qed

theorem failures_are_reported_witness:
  "\<exists>c'. sync report_env report_client = (Ok 0, c')
     \<and> map (\<lambda>m. (m_msg_id m, m_status m)) (messages (cl_store c')) = [(replicate 16 9, Some ''failed'')]
     \<and> failed_deliveries (mh_db (cl_world c')) = []"
proof -
  obtain c' where c': "sync report_env report_client = (Ok 0, c')" and ids: "map m_msg_id (messages (cl_store c')) = [replicate 16 9]"
    using report_synced by (elim exE conjE)
  from ids obtain m where m: "messages (cl_store c') = [m]" "m_msg_id m = replicate 16 9"
    by (cases "messages (cl_store c')") simp_all
  have "failed_deliveries (mh_db (cl_world report_client)) = [replicate 16 9]" by (simp add: report_client_def)
  note reported = failures_are_reported[OF report_talks c', unfolded this m(1)]
  from reported m(2) have "m_status m = Some ''failed''" by simp
  with c' m reported[THEN conjunct2, THEN conjunct2] show ?thesis by simp
qed

end
