(* ===== verification/Core_Stranded.thy ===== *)
theory Core_Stranded
  imports Failure_Reports
begin

text \<open>
  What becomes of a contact after the first delivery to it has failed
  (\<^verbatim>\<open>crates/pm-core/src/client.rs\<close>): over every later operation of the client, until the contact
  is paired with again or a message from it establishes a session.
\<close>

section \<open>A contact that nothing can be encrypted for\<close>

text \<open>There is no session with the contact \<open>cid\<close>, whose identity key is \<open>ik\<close>, and no one-time key of it.\<close>

definition cut_out :: "i64 \<Rightarrow> bytes \<Rightarrow> store \<Rightarrow> bool" where
  "cut_out cid ik s \<longleftrightarrow> lookup_row s_contact_id cid (sessions s) = None \<and> cid \<in> c_id ` set (contacts s)
     \<and> (\<forall>r \<in> set (contacts s). c_id r = cid \<longrightarrow> c_pending_otk r = None \<and> c_identity_key r = ik)"

lemma cut_out_stranded: "cut_out cid ik s \<Longrightarrow> stranded cid s"
  by (simp add: cut_out_def stranded_def)

definition row_keys :: "store \<Rightarrow> (i64 \<times> bytes option \<times> bytes) list" where
  "row_keys s = map (\<lambda>r. (c_id r, c_pending_otk r, c_identity_key r)) (contacts s)"

lemma cut_out_row_keys: "cut_out cid ik s \<longleftrightarrow> lookup_row s_contact_id cid (sessions s) = None
    \<and> (\<exists>k \<in> set (row_keys s). fst k = cid) \<and> (\<forall>k \<in> set (row_keys s). fst k = cid \<longrightarrow> snd k = (None, ik))"
  by (auto simp: cut_out_def row_keys_def)

definition stays_out :: "i64 \<Rightarrow> bytes \<Rightarrow> ('acc, 'addr, 'w) client \<Rightarrow> ('acc, 'addr, 'w) client \<Rightarrow> bool" where
  "stays_out cid ik c c' \<longleftrightarrow> (cut_out cid ik (cl_store c) \<longrightarrow> cut_out cid ik (cl_store c'))"

lemma cut_out_update:
  assumes "cut_out cid ik s" and f: "\<And>r. c_id (f r) = c_id r \<and> c_identity_key (f r) = c_identity_key r"
    and otk: "\<And>r. k = cid \<Longrightarrow> c_pending_otk r = None \<Longrightarrow> c_pending_otk (f r) = None"
  shows "cut_out cid ik (s\<lparr>contacts := update_where (\<lambda>r. c_id r = k) f (contacts s)\<rparr>)"
proof -
  let ?g = "\<lambda>r. if c_id r = k then f r else r"
  have "map c_id (update_where (\<lambda>r. c_id r = k) f (contacts s)) = map c_id (contacts s)"
    by (rule map_update_where) (simp add: f)
  then have "c_id ` set (update_where (\<lambda>r. c_id r = k) f (contacts s)) = c_id ` set (contacts s)"
    by (metis list.set_map)
  moreover have "c_pending_otk (?g r) = None \<and> c_identity_key (?g r) = ik" if "r \<in> set (contacts s)" "c_id (?g r) = cid" for r
  proof -
    have "c_id r = cid" using that(2) f by (simp split: if_splits)
    with assms(1) that(1) have "c_pending_otk r = None" "c_identity_key r = ik" by (simp_all add: cut_out_def)
    then show ?thesis using f otk \<open>c_id r = cid\<close> by simp
  qed
  ultimately show ?thesis using assms(1) by (simp add: cut_out_def set_update_where del: if_image_distrib)
qed

lemma cut_out_other_tables:
  assumes "cut_out cid ik s" and "contacts s' = contacts s" and "sessions s' = sessions s"
  shows "cut_out cid ik s'"
  using assms by (simp add: cut_out_def)

lemma stays_out_store_do:
  assumes "\<And>s. cut_out cid ik s \<Longrightarrow> cut_out cid ik (snd (m s))"
  shows "keeps (stays_out cid ik) (store_do m)"
  by (rule keepsI) (simp add: stays_out_def store_do_def assms case_prod_beta Let_def)

interpretation so: client_order "stays_out cid ik" for cid ik
proof unfold_locales
  show "keeps (stays_out cid ik) (store_do tick_lamport)"
    by (rule stays_out_store_do, erule cut_out_other_tables) (simp_all add: tick_lamport_def current_def split: option.splits)
  show "keeps (stays_out cid ik) (store_do (increment_and_get_next_write_n k))" for k
    by (rule stays_out_store_do)
      (auto simp: increment_and_get_next_write_n_def and_then_def update_contact_def Let_def intro!: cut_out_update
        split: option.splits)
qed (auto simp: stays_out_def)

section \<open>Operations that send\<close>

lemma stores_out:
  "keeps (stays_out cid ik) (store_do list_contacts)" "keeps (stays_out cid ik) (store_do (get_contact k))"
  "keeps (stays_out cid ik) (store_do (load_session_pickle k))"
  "keeps (stays_out cid ik) (store_do (insert_message k msg))"
  "keeps (stays_out cid ik) (store_do (save_account_pickle p))"
  "keeps (stays_out cid ik) (store_do (set_own_server_addr a))"
  "keeps (stays_out cid ik) (store_do increment_and_get_pointer_broadcast_seq)"
  by (rule stays_out_store_do, erule cut_out_other_tables;
      simp add: list_contacts_def get_contact_def and_then_def load_session_pickle_def insert_message_def
        save_account_pickle_def set_own_server_addr_def increment_and_get_pointer_broadcast_seq_def
        get_pointer_broadcast_seq_def upsert_account_def split: option.splits outcome.splits)+

lemma setters_out:
  "keeps (stays_out cid ik) (store_do (set_contact_pair_secret k x))"
  "keeps (stays_out cid ik) (store_do (set_contact_transport_key k x))"
  "keeps (stays_out cid ik) (store_do (set_contact_server_addr k y))"
  "keeps (stays_out cid ik) (store_do (set_contact_pending_otk k None))"
  by (rule stays_out_store_do;
      simp add: set_contact_pair_secret_def set_contact_transport_key_def set_contact_server_addr_def
        set_contact_pending_otk_def update_contact_def cut_out_update)+

lemma other_contact_out:
  assumes "k \<noteq> cid"
  shows "keeps (stays_out cid ik) (store_do (set_contact_pending_otk k x))"
    and "keeps (stays_out cid ik) (store_do (save_session_pickle k p))"
proof -
  show "keeps (stays_out cid ik) (store_do (set_contact_pending_otk k x))"
    using assms by (intro stays_out_store_do) (simp add: set_contact_pending_otk_def update_contact_def cut_out_update)
  show "keeps (stays_out cid ik) (store_do (save_session_pickle k p))"
    using assms by (intro stays_out_store_do) (simp add: save_session_pickle_def cut_out_def lookup_row_upsert Let_def)
qed

lemma spawn_out: "keeps (stays_out cid ik) (spawn_task t)"
  by (rule keepsI) (simp add: spawn_task_def stays_out_def)

lemma deliver_out:
  fixes e :: "('acc, 'ses, 'r, 'addr, 'w) env"
  shows "keeps (stays_out cid ik) (deliver e k payload)"
proof (cases "k = cid")
  case True
  show ?thesis
  proof (rule keepsI, unfold stays_out_def, rule impI)
    fix c :: "('acc, 'addr, 'w) client" assume out: "cut_out cid ik (cl_store c)"
    then obtain err where "deliver e cid payload c = (Err err, c)"
      using stranded_deliver[OF cut_out_stranded] by blast
    with out True show "cut_out cid ik (cl_store (snd (deliver e k payload c)))" by simp
  qed
next
  case False
  have "keeps (stays_out cid ik) (open_session e k contact)" for contact
    unfolding open_session_def
    by (auto intro!: so.keeps_intros so.keeps_delivery stores_out setters_out split: option.splits)
  then show ?thesis
    unfolding deliver_def deliver_in_session_def client_get_contact_def save_session_def
    by (auto intro!: so.keeps_intros so.keeps_delivery stores_out other_contact_out[OF False] split: option.splits)
qed

lemma send_out: "keeps (stays_out cid ik) (send e k text)"
  unfolding send_def by (auto intro!: so.keeps_intros deliver_out stores_out)

lemma run_task_out: "keeps (stays_out cid ik) (run_task e t)"
proof -
  have read: "keeps (stays_out cid ik) (\<lambda>c. case cl_server_addr c of None \<Rightarrow> (Ok None, c)
      | Some addr \<Rightarrow> (case enc (env_addr e) addr of Inl err \<Rightarrow> (Panic, c) | Inr bs \<Rightarrow> (Ok (Some bs), c)))"
    by (rule so.keeps_read) (simp split: option.splits sum.splits)
  show ?thesis
    by (cases t) (auto simp: send_receipt_def broadcast_pointer_update_def
        intro!: so.keeps_intros so.keeps_delivery read deliver_out stores_out split: outcome.splits)
qed

section \<open>Other contacts and the rest of the client\<close>

lemma upsert_contact_out:
  assumes out: "cut_out cid ik s" and other: "ik' \<noteq> ik" and up: "upsert_contact ik' ck name s = (r, s')"
  shows "cut_out cid ik s' \<and> (\<forall>k. r = Ok k \<longrightarrow> k \<noteq> cid)"
proof -
  have "sessions s' = sessions s"
    using up by (auto simp: upsert_contact_def Let_def split: option.splits)
  moreover have "row_keys s' = row_keys s \<or> (\<exists>x. row_keys s' = row_keys s @ [x] \<and> fst x \<noteq> cid)"
  proof (cases "ik' \<in> c_identity_key ` set (contacts s)")
    case True
    with up have "contacts s' = update_where (\<lambda>r. c_identity_key r = ik')
        (\<lambda>r. r\<lparr>c_curve25519_key := ck, c_display_name := name\<rparr>) (contacts s)"
      by (auto simp: upsert_contact_def upsert_def Let_def split: option.splits)
    then show ?thesis by (simp add: row_keys_def map_update_where)
  next
    case False
    with up have "\<exists>x. contacts s' = contacts s @ [x] \<and> c_id x = next_rowid c_id (contacts s)"
      by (auto simp: upsert_contact_def upsert_def Let_def split: option.splits)
    moreover have "next_rowid c_id (contacts s) \<noteq> cid"
      using out next_rowid_fresh[of c_id "contacts s"] by (auto simp: cut_out_def)
    ultimately show ?thesis by (auto simp: row_keys_def)
  qed
  ultimately have s': "cut_out cid ik s'" using out by (auto simp: cut_out_row_keys)
  moreover have "k \<noteq> cid" if "r = Ok k" for k
  proof -
    from up that obtain x where "lookup_row c_identity_key ik' (contacts s') = Some x" "k = c_id x"
      by (auto simp: upsert_contact_def Let_def split: option.splits)
    then show ?thesis using s' other by (auto simp: cut_out_def dest: lookup_row_SomeD)
  qed
  ultimately show ?thesis by blast
qed

lemma register_out:
  "keeps (stays_out cid ik) (\<lambda>c. when_some (cl_server_addr c) (\<lambda>a. register_slots e a secret) c)"
  unfolding register_slots_def
  by (rule so.keeps_from_state) (intro so.keeps_intros so.keeps_delivery)

lemma add_contact_out:
  fixes e :: "('acc, 'ses, 'r, 'addr, 'w) env"
  assumes "ik' \<noteq> ik"
  shows "keeps (stays_out cid ik) (add_contact e ik' ck otk tk name addr secret)"
proof (rule keepsI)
  fix c :: "('acc, 'addr, 'w) client"
  show "stays_out cid ik c (snd (add_contact e ik' ck otk tk name addr secret c))"
  proof (cases "cut_out cid ik (cl_store c)")
    case True
    show ?thesis unfolding add_contact_def
    proof (rule so.and_then_step)
      obtain r s' where up: "upsert_contact ik' ck name (cl_store c) = (r, s')" by fastforce
      from upsert_contact_out[OF True assms up]
      show "stays_out cid ik c (snd (store_do (upsert_contact ik' ck name) c))"
        by (simp add: stays_out_def store_do_def up)
      fix k c'
      assume "store_do (upsert_contact ik' ck name) c = (Ok k, c')"
      with up upsert_contact_out[OF True assms up] have "k \<noteq> cid" by (cases r) (auto simp: store_do_def)
      then have "keeps (stays_out cid ik) (and_then (store_do (set_contact_pair_secret k secret)) (\<lambda>_.
          and_then (store_do (set_contact_transport_key k tk)) (\<lambda>_.
          and_then (when_some addr (\<lambda>addr. and_then (lift_outcome (or_err CorruptBackup (enc (env_addr e) addr))) (\<lambda>bs.
              store_do (set_contact_server_addr k (Some bs))))) (\<lambda>_.
          and_then (store_do (set_contact_pending_otk k (Some otk))) (\<lambda>_.
          and_then (\<lambda>c. when_some (cl_server_addr c) (\<lambda>my_addr. register_slots e my_addr secret) c) (\<lambda>_.
            pure k))))))"
        by (intro so.keeps_and_then so.keeps_when_some so.keeps_unit setters_out other_contact_out register_out)
      from keepsD[OF this] show "stays_out cid ik c' (snd (and_then (store_do (set_contact_pair_secret k secret)) (\<lambda>_.
          and_then (store_do (set_contact_transport_key k tk)) (\<lambda>_.
          and_then (when_some addr (\<lambda>addr. and_then (lift_outcome (or_err CorruptBackup (enc (env_addr e) addr))) (\<lambda>bs.
              store_do (set_contact_server_addr k (Some bs))))) (\<lambda>_.
          and_then (store_do (set_contact_pending_otk k (Some otk))) (\<lambda>_.
          and_then (\<lambda>c. when_some (cl_server_addr c) (\<lambda>my_addr. register_slots e my_addr secret) c) (\<lambda>_.
            pure k))))) c'))" .
    qed
  qed (simp add: stays_out_def)
qed

lemma account_out: "keeps (stays_out cid ik) m \<Longrightarrow> stays_out cid ik c (snd (m (c\<lparr>cl_account := a\<rparr>)))"
  using keepsD[of "stays_out cid ik" m "c\<lparr>cl_account := a\<rparr>"] by (simp add: stays_out_def)

lemma one_time_key_out: "keeps (stays_out cid ik) (generate_one_time_key e)"
  unfolding generate_one_time_key_def
  by (intro so.keeps_and_then so.keeps_delivery keepsI)
    (auto simp: generate_one_time_keys_def Let_def intro!: account_out so.keeps_intros stores_out)

lemma pairing_payload_out: "keeps (stays_out cid ik) (pairing_payload e)"
  unfolding pairing_payload_def
  by (intro so.keeps_and_then so.keeps_delivery one_time_key_out keepsI) (auto simp: so.R_refl split: option.splits)

lemma server_addr_out:
  "keeps (stays_out cid ik) (client_set_own_server_addr e addr)" "keeps (stays_out cid ik) clear_own_server_addr"
proof -
  have "keeps (stays_out cid ik) (\<lambda>c. (Ok x, c\<lparr>cl_server_addr := addr\<rparr>))" for x :: unit and addr
    by (rule keepsI) (simp add: stays_out_def)
  then show "keeps (stays_out cid ik) (client_set_own_server_addr e addr)" "keeps (stays_out cid ik) clear_own_server_addr"
    unfolding client_set_own_server_addr_def clear_own_server_addr_def
    by (auto intro!: so.keeps_intros stores_out spawn_out)
qed

lemma backup_out: "keeps (stays_out cid ik) (export_backup e)" "keeps (stays_out cid ik) (push_backup e)"
proof -
  have "keeps (stays_out cid ik) (\<lambda>c. (let (r, s') = assemble (cl_store c) in (r, c\<lparr>cl_store := s'\<rparr>)))"
    by (rule so.keeps_read) (use assemble_reads in \<open>auto simp: keeps_def Let_def case_prod_beta\<close>)
  then have "keeps (stays_out cid ik) (encrypted_bundle e)"
    unfolding encrypted_bundle_def by (auto intro!: so.keeps_intros so.keeps_delivery)
  then show "keeps (stays_out cid ik) (export_backup e)" "keeps (stays_out cid ik) (push_backup e)"
    unfolding export_backup_def push_backup_def by (auto intro!: so.keeps_intros so.keeps_delivery)
qed

section \<open>Receiving\<close>

definition same_rows :: "('acc, 'addr, 'w) client \<Rightarrow> ('acc, 'addr, 'w) client \<Rightarrow> bool" where
  "same_rows c c' \<longleftrightarrow> row_keys (cl_store c') = row_keys (cl_store c)"

lemma same_rows_store_do: "(\<And>s. row_keys (snd (m s)) = row_keys s) \<Longrightarrow> keeps same_rows (store_do m)"
  by (rule keepsI) (simp add: same_rows_def store_do_def case_prod_beta Let_def)

interpretation sc: client_order same_rows
proof unfold_locales
  show "keeps same_rows (store_do (increment_and_get_next_write_n k))" for k
    by (rule same_rows_store_do)
      (simp add: increment_and_get_next_write_n_def and_then_def update_contact_def Let_def row_keys_def map_update_where
        split: option.splits)
qed (auto intro!: same_rows_store_do simp: same_rows_def row_keys_def tick_lamport_def current_def split: option.splits)

interpretation sr: reading_order same_rows
proof unfold_locales
  show "keeps same_rows (store_do (set_contact_pointer_update k a u n))" for k a u n
    by (rule same_rows_store_do)
      (simp add: set_contact_pointer_update_def update_contact_def row_keys_def map_update_where)
qed (auto intro!: keepsI simp: same_rows_def row_keys_def spawn_task_def store_do_def
    list_contacts_def get_contact_def and_then_def load_session_pickle_def save_account_pickle_def upsert_account_def
    save_session_pickle_def observe_lamport_def current_def set_message_status_def insert_message_def Let_def
    split: option.splits outcome.splits prod.splits)

lemma sync_same_rows: "keeps same_rows (sync e)"
proof -
  have "keeps same_rows (store_do get_last_synced_blob_id)" "keeps same_rows (store_do (set_last_synced_blob_id v))"
    "keeps same_rows (store_do (set_message_status_by_msg_id mid st))" for v mid st
    by (rule same_rows_store_do; simp add: get_last_synced_blob_id_def set_last_synced_blob_id_def upsert_account_def
        set_message_status_by_msg_id_def row_keys_def split: option.splits)+
  then show ?thesis
    unfolding sync_def
    by (auto intro!: sc.keeps_intros sc.keeps_delivery sr.keeps_process_blobs sc.keeps_poll_failed split: NodeResponse.splits)
qed

lemma direct_same_rows:
  assumes "direct_accept e bs (Some c) = (r, Some c')"
  shows "same_rows c c'"
proof (cases "length bs > MAX_MESSAGE_SIZE")
  case False
  have "keeps same_rows (direct_ack e bs)"
    unfolding direct_ack_def by (auto intro!: sc.keeps_intros sr.keeps_attribute_and_store split: outcome.splits)
  moreover from False assms have "c' = snd (direct_ack e bs c)"
    by (auto simp: direct_accept_def and_then_def lift_outcome_def Let_def split: prod.splits outcome.splits sum.splits)
  ultimately show ?thesis by (metis keepsD)
qed (use assms in \<open>simp add: direct_accept_def fail_def sc.R_refl\<close>)

lemma received_out:
  assumes "same_rows c c'" and "lookup_row s_contact_id cid (sessions (cl_store c')) = None"
  shows "stays_out cid ik c c'"
  using assms by (simp add: stays_out_def cut_out_row_keys same_rows_def)

section \<open>Until the contact is back\<close>

text \<open>
  Every operation of the client, as in \<open>client_step\<close>, but for adding the contact with the identity
  key \<open>ik\<close> again, and for receiving what establishes a session with the contact \<open>cid\<close>.
\<close>

inductive apart_step ::
  "('acc, 'ses, 'r, 'addr, 'w) env \<Rightarrow> i64 \<Rightarrow> bytes \<Rightarrow> ('acc, 'addr, 'w) client \<Rightarrow> ('acc, 'addr, 'w) client \<Rightarrow> bool"
  for e cid ik where
  apart_send: "apart_step e cid ik c (snd (send e k text c))"
| apart_sync: "lookup_row s_contact_id cid (sessions (cl_store (snd (sync e c)))) = None
    \<Longrightarrow> apart_step e cid ik c (snd (sync e c))"
| apart_direct: "\<lbrakk>direct_accept e bs (Some c) = (r, Some c'); lookup_row s_contact_id cid (sessions (cl_store c')) = None\<rbrakk>
    \<Longrightarrow> apart_step e cid ik c c'"
| apart_task: "cl_spawned c = before @ t # after
    \<Longrightarrow> apart_step e cid ik c (snd (run_task e t (c\<lparr>cl_spawned := before @ after\<rparr>)))"
| apart_payload: "apart_step e cid ik c (snd (pairing_payload e c))"
| apart_one_time_key: "apart_step e cid ik c (snd (generate_one_time_key e c))"
| apart_add: "ik' \<noteq> ik \<Longrightarrow> apart_step e cid ik c (snd (add_contact e ik' ck otk tk name addr secret c))"
| apart_add_payload: "pp_identity_key their \<noteq> ik
    \<Longrightarrow> apart_step e cid ik c (snd (add_contact_from_payload e their my_nonce name c))"
| apart_set_server: "apart_step e cid ik c (snd (client_set_own_server_addr e a c))"
| apart_clear_server: "apart_step e cid ik c (snd (clear_own_server_addr c))"
| apart_push: "apart_step e cid ik c (snd (push_backup e c))"
| apart_export: "apart_step e cid ik c (snd (export_backup e c))"
| apart_world: "apart_step e cid ik c (c\<lparr>cl_world := w\<rparr>)"

lemma apart_is_client_step: "apart_step e cid ik c c' \<Longrightarrow> client_step e c c'"
  by (induction rule: apart_step.induct) (auto intro: client_step.intros)

lemma apart_step_out: "apart_step e cid ik c c' \<Longrightarrow> stays_out cid ik c c'"
proof (induction rule: apart_step.induct)
  case (apart_sync c)
  from received_out[OF keepsD[OF sync_same_rows] this] show ?case .
next
  case (apart_direct bs c r c')
  from received_out[OF direct_same_rows[OF this(1)] this(2)] show ?case .
next
  case (apart_task c before t after)
  from keepsD[OF run_task_out, of cid ik "c\<lparr>cl_spawned := before @ after\<rparr>" e t] show ?case
    by (simp add: stays_out_def)
next
  case (apart_add_payload their c my_nonce name)
  have "keeps (stays_out cid ik) (add_contact_from_payload e their my_nonce name)"
    unfolding add_contact_from_payload_def
    by (auto intro!: so.keeps_intros add_contact_out[OF apart_add_payload] split: option.splits)
  from keepsD[OF this] show ?case .
qed (auto intro: keepsD send_out pairing_payload_out one_time_key_out add_contact_out server_addr_out backup_out so.only_world)

lemma apart_steps_out: "(apart_step e cid ik)\<^sup>*\<^sup>* c c' \<Longrightarrow> stays_out cid ik c c'"
  using apart_step_out by (rule so.keeps_rtranclp)

text \<open>The contact after a first delivery that failed once its session had been opened.\<close>

lemma failed_first_cut_out:
  assumes ses: "lookup_row s_contact_id cid (sessions (cl_store c)) = None"
    and contact: "client_get_contact cid c = (Ok contact, c)" and opened: "open_session e cid contact c = (Ok ses, c1)"
    and ids: "unique_ids (cl_store c)" and failed: "deliver e cid p c = (Err err, c')"
  shows "cut_out cid (identity_key contact) (cl_store c')"
proof -
  have "deliver_in_session e cid contact p ses c1 = (Err err, c')"
    using failed by (simp add: deliver_def and_then_def contact opened)
  from keeps_errD[OF deliver_in_session_err_same_keys this] have "client_same_keys c1 c'" .
  with stranded_open_session[OF ses opened] have "stranded cid (cl_store c')"
    by (auto simp: client_same_keys_def intro: stranded_same_keys)
  moreover from contact obtain r where r: "r \<in> set (contacts (cl_store c))" "row_to_contact r = Ok contact" "c_id r = cid"
    by (auto elim: client_get_contact_OkE)
  then have key: "c_identity_key r = identity_key contact" by (auto simp: row_to_contact_def bind_outcome_Ok_iff)
  have "client_le c c'" using keepsD[OF deliver_le, of c e cid p] failed by simp
  with ids have le: "contacts_le (contacts (cl_store c)) (contacts (cl_store c'))" and ids': "unique_ids (cl_store c')"
    by (simp_all add: client_le_def store_le_def store_grows_def)
  from le r key obtain r' where r': "r' \<in> set (contacts (cl_store c'))" "c_id r' = cid" "c_identity_key r' = identity_key contact"
    by (auto simp: contacts_le_def row_le_def)
  moreover have "c_identity_key x = identity_key contact" if "x \<in> set (contacts (cl_store c'))" "c_id x = cid" for x
  proof -
    have "inj_on c_id (set (contacts (cl_store c')))" using ids' by (simp add: unique_ids_def distinct_map)
    from inj_onD[OF this _ that(1) r'(1)] that(2) r' show ?thesis by simp
  qed
  ultimately show ?thesis by (auto simp: cut_out_def stranded_def)
qed

section \<open>Properties\<close>

text \<open>
  C26: a failed first delivery cannot be retried. The first message to a contact uses up their
  one-time key before it is sent, and the session made with it is saved only after the send. If the
  delivery fails after the session was opened, both are gone; then, whatever the client does and
  receives, every later delivery to the contact, of messages, receipts and announcements alike, fails
  and changes nothing, as long as the contact is not added again and no message received from it
  establishes a session.
\<close>

theorem failed_first_delivery_is_final:
  assumes "lookup_row s_contact_id cid (sessions (cl_store c)) = None" and "unique_ids (cl_store c)"
    and "client_get_contact cid c = (Ok contact, c)" and "open_session e cid contact c = (Ok ses, c1)"
    and "deliver e cid p c = (Err err, c')" and "(apart_step e cid (identity_key contact))\<^sup>*\<^sup>* c' c''"
  shows "\<exists>err'. deliver e cid p' c'' = (Err err', c'')"
proof -
  from failed_first_cut_out[OF assms(1,3,4,2,5)] apart_steps_out[OF assms(6)]
  have "cut_out cid (identity_key contact) (cl_store c'')" by (simp add: stays_out_def)
  from stranded_deliver[OF cut_out_stranded[OF this]] show ?thesis .
qed

theorem failed_first_delivery_is_final_witness:
  "\<exists>c'. deliver dead_env 1 (Chat [7]) (sample_client (paired_store None) None ()) = (Err (TransportErr (Connect [])), c')
     \<and> (let c'' = snd (add_contact dead_env (replicate 32 8) (replicate 32 2) (replicate 32 6) (replicate 32 5) None None
            (replicate 32 4) (snd (send dead_env 1 [9] c'))) in
        \<exists>err'. deliver dead_env 1 (Chat [8]) c'' = (Err err', c''))"
proof -
  let ?c = "sample_client (paired_store None) None ()"
  obtain c' where d: "deliver dead_env 1 (Chat [7]) ?c = (Err (TransportErr (Connect [])), c')"
    using dead_delivery by blast
  let ?c1 = "snd (send dead_env 1 [9] c')"
  let ?c'' = "snd (add_contact dead_env (replicate 32 8) (replicate 32 2) (replicate 32 6) (replicate 32 5) None None
            (replicate 32 4) ?c1)"
  have s: "lookup_row s_contact_id 1 (sessions (cl_store ?c)) = None" by simp
  have k: "client_get_contact 1 ?c = (Ok (contact_of (paired_row None)), ?c)" by (rule paired_contact) simp
  have u: "unique_ids (cl_store ?c)" using paired_store_wf[of None] by (simp add: unique_ids_def store_wf_def)
  have o: "open_session dead_env 1 (contact_of (paired_row None)) ?c =
      (Ok (), sample_client (snd (set_contact_pending_otk 1 None (paired_store None))) None ())"
    unfolding dead_env_def by (rule paired_open_session) simp
  have ik: "identity_key (contact_of (paired_row None)) = replicate 32 1" by (simp add: contact_of_def paired_row_def)
  have "apart_step dead_env 1 (replicate 32 1) ?c1 ?c''" by (rule apart_add) simp
  with apart_send[of dead_env 1 "replicate 32 1" c' 1 "[9]"]
  have "(apart_step dead_env 1 (identity_key (contact_of (paired_row None))))\<^sup>*\<^sup>* c' ?c''"
    unfolding ik by (meson rtranclp.rtrancl_refl rtranclp.rtrancl_into_rtrancl)
  from failed_first_delivery_is_final[OF s u k o d this] d show ?thesis unfolding Let_def by blast
qed

end
