(* ===== verification/Nat_Sim_Peer.thy ===== *)
theory Nat_Sim_Peer
  imports Core_Delivery
begin

text \<open>
  \<^verbatim>\<open>crates/pm-core/examples/nat_sim_peer.rs\<close>: one of two processes that pair through files in a
  shared directory and send each other one message. The program's state is its client; the shared
  files and the clock are part of the outside world, and what the other process and the client's
  background tasks do happens while the program sleeps. A run may have no end (\<open>None\<close>), because a
  loop goes on or because a call it waits for never returns; it ends by returning, with
  \<^verbatim>\<open>exit\<close> and a status (\<open>Err\<close>), or with a panic.
\<close>

section \<open>Runs that may not end\<close>

type_synonym ('s, 'a) run = "'s \<Rightarrow> (('a, nat) outcome \<times> 's) option"

definition run_then :: "('s, 'a) run \<Rightarrow> ('a \<Rightarrow> ('s, 'b) run) \<Rightarrow> ('s, 'b) run" where
  "run_then m k s = (case m s of
       None \<Rightarrow> None
     | Some (Ok a, s') \<Rightarrow> k a s'
     | Some (Err status, s') \<Rightarrow> Some (Err status, s')
     | Some (Panic, s') \<Rightarrow> Some (Panic, s'))"

definition return_run :: "'a \<Rightarrow> ('s, 'a) run" where
  "return_run a s = Some (Ok a, s)"

text \<open>\<^verbatim>\<open>expect\<close> on the result of a call.\<close>

definition expecting :: "('s, 'a, 'e) action \<Rightarrow> ('s, 'a) run" where
  "expecting m s = (let (r, s') = m s in Some (case r of Ok a \<Rightarrow> Ok a | _ \<Rightarrow> Panic, s'))"

lemma run_then_Ok_iff:
  "run_then m k s = Some (Ok b, s'') \<longleftrightarrow> (\<exists>a s'. m s = Some (Ok a, s') \<and> k a s' = Some (Ok b, s''))"
  by (auto simp: run_then_def split: option.splits outcome.splits)

lemma expecting_Ok_iff: "expecting m s = Some (Ok a, s') \<longleftrightarrow> m s = (Ok a, s')"
  by (cases "m s"; cases "fst (m s)") (auto simp: expecting_def)

section \<open>Roles and arguments\<close>

definition PAIRING_DEADLINE :: nat where "PAIRING_DEADLINE = 30000"

definition DELIVERY_DEADLINE :: nat where "DELIVERY_DEADLINE = 30000"

definition POLL_INTERVAL :: nat where "POLL_INTERVAL = 100"

datatype Role = RoleA | RoleB

fun other :: "Role \<Rightarrow> Role" where
  "other RoleA = RoleB"
| "other RoleB = RoleA"

fun role_str :: "Role \<Rightarrow> string" where
  "role_str RoleA = ''a''"
| "role_str RoleB = ''b''"

text \<open>\<^verbatim>\<open>Path::join\<close> with a relative name, on Unix.\<close>

definition path_join :: "string \<Rightarrow> string \<Rightarrow> string" where
  "path_join dir name = (if dir = [] \<or> last dir = CHR ''/'' then dir @ name else dir @ ''/'' @ name)"

record parsed =
  pa_role :: "Role option"
  pa_coord_dir :: string
  pa_store :: "string option"

text \<open>
  The loop over the arguments from the index \<open>i\<close> on, here over the arguments left. An option
  without a value makes the index run out of range.
\<close>

fun parse_loop :: "string list \<Rightarrow> parsed \<Rightarrow> (parsed, nat) outcome" where
  "parse_loop [] p = Ok p"
| "parse_loop (arg # rest) p =
     (if arg = ''--role'' then
        (case rest of
           [] \<Rightarrow> Panic
         | v # rest' \<Rightarrow>
             if v = ''a'' then parse_loop rest' (p\<lparr>pa_role := Some RoleA\<rparr>)
             else if v = ''b'' then parse_loop rest' (p\<lparr>pa_role := Some RoleB\<rparr>)
             else Panic)
      else if arg = ''--coord-dir'' then
        (case rest of [] \<Rightarrow> Panic | v # rest' \<Rightarrow> parse_loop rest' (p\<lparr>pa_coord_dir := v\<rparr>))
      else if arg = ''--store'' then
        (case rest of [] \<Rightarrow> Panic | v # rest' \<Rightarrow> parse_loop rest' (p\<lparr>pa_store := Some v\<rparr>))
      else Panic)"

definition parse_args :: "string list \<Rightarrow> (Role \<times> string \<times> string, nat) outcome" where
  "parse_args args =
     bind_outcome (parse_loop (drop 1 args) \<lparr>pa_role = None, pa_coord_dir = ''/tmp/nat-sim-coord'', pa_store = None\<rparr>) (\<lambda>p.
       case pa_role p of
         None \<Rightarrow> Panic
       | Some role \<Rightarrow> Ok (role, pa_coord_dir p,
           case pa_store p of Some s \<Rightarrow> s | None \<Rightarrow> path_join (pa_coord_dir p) (role_str role @ ''.sqlite'')))"

section \<open>Surroundings\<close>

text \<open>
  \<open>sim_now\<close> is \<^verbatim>\<open>Instant::now\<close> in milliseconds; \<open>sim_files\<close> the shared files;
  \<open>sim_denied\<close> says which paths cannot be written; \<open>sim_sleep\<close> is what has become of the client and the
  world when a sleep is over. \<open>sim_stuck\<close> says of a world that a call the program waits for has not
  returned and never will; what the model goes on to do in such a world has no meaning, and the
  run that awaits the call has no end.
\<close>

record ('acc, 'addr, 'w) sim =
  sim_now :: "'w \<Rightarrow> nat"
  sim_files :: "'w \<Rightarrow> string \<Rightarrow> bytes option"
  sim_set_files :: "(string \<Rightarrow> bytes option) \<Rightarrow> 'w \<Rightarrow> 'w"
  sim_denied :: "string \<Rightarrow> 'w \<Rightarrow> bool"
  sim_sleep :: "nat \<Rightarrow> ('acc, 'addr, 'w) client \<Rightarrow> ('acc, 'addr, 'w) client"
  sim_print :: "string \<Rightarrow> 'w \<Rightarrow> 'w"
  sim_stuck :: "'w \<Rightarrow> bool"
  sim_payload :: "PairingPayload codec"

definition fs_write :: "('acc, 'addr, 'w) sim \<Rightarrow> string \<Rightarrow> bytes \<Rightarrow> (('acc, 'addr, 'w) client, unit, string) action" where
  "fs_write sv path bs c =
     (let w = cl_world c in
      if sim_denied sv path w then (Err ''permission denied'', c)
      else (Ok (), c\<lparr>cl_world := sim_set_files sv ((sim_files sv w)(path \<mapsto> bs)) w\<rparr>))"

definition fs_rename :: "('acc, 'addr, 'w) sim \<Rightarrow> string \<Rightarrow> string \<Rightarrow> (('acc, 'addr, 'w) client, unit, string) action" where
  "fs_rename sv src dst c =
     (let w = cl_world c in
      case sim_files sv w src of
        None \<Rightarrow> (Err ''no such file'', c)
      | Some bs \<Rightarrow>
          if sim_denied sv dst w then (Err ''permission denied'', c)
          else (Ok (), c\<lparr>cl_world := sim_set_files sv ((sim_files sv w)(src := None, dst \<mapsto> bs)) w\<rparr>))"

text \<open>\<^verbatim>\<open>.await\<close> on an operation of the client, and \<^verbatim>\<open>expect\<close> on what it returns.\<close>

definition awaited ::
  "('acc, 'addr, 'w) sim \<Rightarrow> (('acc, 'addr, 'w) client, 'a, 'e) action \<Rightarrow> ('acc, 'addr, 'w) client
    \<Rightarrow> (('a, 'e) outcome \<times> ('acc, 'addr, 'w) client) option" where
  "awaited sv m c = (let (r, c') = m c in if sim_stuck sv (cl_world c') then None else Some (r, c'))"

definition awaiting ::
  "('acc, 'addr, 'w) sim \<Rightarrow> (('acc, 'addr, 'w) client, 'a, 'e) action \<Rightarrow> (('acc, 'addr, 'w) client, 'a) run" where
  "awaiting sv m c = map_option (\<lambda>(r, c'). (case r of Ok a \<Rightarrow> Ok a | _ \<Rightarrow> Panic, c')) (awaited sv m c)"

lemma awaiting_Ok: "awaiting sv m c = Some (Ok a, c') \<Longrightarrow> m c = (Ok a, c')"
  by (cases "m c"; cases "fst (m c)") (auto simp: awaiting_def awaited_def split: if_splits)

section \<open>Coordination\<close>

definition tmp_file :: "string \<Rightarrow> Role \<Rightarrow> string" where
  "tmp_file dir role = path_join dir (role_str role @ ''.tmp'')"

definition json_file :: "string \<Rightarrow> Role \<Rightarrow> string" where
  "json_file dir role = path_join dir (role_str role @ ''.json'')"

definition paired_file :: "string \<Rightarrow> Role \<Rightarrow> string" where
  "paired_file dir role = path_join dir (role_str role @ ''.paired'')"

definition write_own_payload ::
  "('acc, 'addr, 'w) sim \<Rightarrow> string \<Rightarrow> Role \<Rightarrow> PairingPayload \<Rightarrow> (('acc, 'addr, 'w) client, unit) run" where
  "write_own_payload sv dir role payload =
     run_then (expecting (lift_outcome (or_err (\<lambda>e. e) (enc (sim_payload sv) payload)))) (\<lambda>bytes.
     run_then (expecting (fs_write sv (tmp_file dir role) bytes)) (\<lambda>_.
       expecting (fs_rename sv (tmp_file dir role) (json_file dir role))))"

partial_function (option) read_loop ::
  "('acc, 'addr, 'w) sim \<Rightarrow> string \<Rightarrow> nat \<Rightarrow> ('acc, 'addr, 'w) client
    \<Rightarrow> ((PairingPayload, nat) outcome \<times> ('acc, 'addr, 'w) client) option" where
  [code]: "read_loop sv path deadline c =
     (case (case sim_files sv (cl_world c) path of
              None \<Rightarrow> None
            | Some bs \<Rightarrow> (case dec (sim_payload sv) bs of Inl e \<Rightarrow> None | Inr payload \<Rightarrow> Some payload)) of
        Some payload \<Rightarrow> Some (Ok payload, c)
      | None \<Rightarrow>
          if deadline \<le> sim_now sv (cl_world c) then Some (Panic, c)
          else read_loop sv path deadline (sim_sleep sv POLL_INTERVAL c))"

definition read_peer_payload ::
  "('acc, 'addr, 'w) sim \<Rightarrow> string \<Rightarrow> Role \<Rightarrow> (('acc, 'addr, 'w) client, PairingPayload) run" where
  "read_peer_payload sv dir role c =
     read_loop sv (json_file dir role) (sim_now sv (cl_world c) + PAIRING_DEADLINE) c"

text \<open>The loop that waits for the marker of the other role.\<close>

partial_function (option) barrier_loop ::
  "('acc, 'addr, 'w) sim \<Rightarrow> string \<Rightarrow> nat \<Rightarrow> ('acc, 'addr, 'w) client
    \<Rightarrow> ((unit, nat) outcome \<times> ('acc, 'addr, 'w) client) option" where
  [code]: "barrier_loop sv marker deadline c =
     (if sim_files sv (cl_world c) marker \<noteq> None then Some (Ok (), c)
      else if deadline \<le> sim_now sv (cl_world c) then Some (Panic, c)
      else barrier_loop sv marker deadline (sim_sleep sv POLL_INTERVAL c))"

definition barrier :: "('acc, 'addr, 'w) sim \<Rightarrow> string \<Rightarrow> Role \<Rightarrow> (('acc, 'addr, 'w) client, unit) run" where
  "barrier sv dir role =
     run_then (expecting (fs_write sv (paired_file dir role) [])) (\<lambda>_ c.
       barrier_loop sv (paired_file dir (other role)) (sim_now sv (cl_world c) + PAIRING_DEADLINE) c)"

section \<open>One message each way\<close>

fun decimal :: "nat \<Rightarrow> string" where
  "decimal n = (if n < 10 then [char_of (48 + n)] else decimal (n div 10) @ [char_of (48 + n mod 10)])"

declare decimal.simps [simp del]

definition print_result ::
  "('acc, 'addr, 'w) sim \<Rightarrow> Role \<Rightarrow> string \<Rightarrow> bool \<Rightarrow> nat \<Rightarrow> ('acc, 'addr, 'w) client \<Rightarrow> ('acc, 'addr, 'w) client" where
  "print_result sv role field ok elapsed c = c\<lparr>cl_world := sim_print sv
     (''RESULT role='' @ role_str role @ '' '' @ field @ ''='' @ (if ok then ''ok'' else ''err'')
       @ '' elapsed_ms='' @ decimal elapsed) (cl_world c)\<rparr>"

text \<open>
  The warning about a status other than \<^verbatim>\<open>Delivered\<close> goes to standard error and is left out; reading
  the history, which must not fail, is not.
\<close>

definition send_and_confirm ::
  "('acc, 'ses, 'r, 'addr, 'w) env \<Rightarrow> ('acc, 'addr, 'w) sim \<Rightarrow> i64 \<Rightarrow> Role \<Rightarrow> (('acc, 'addr, 'w) client, unit) run" where
  "send_and_confirm e sv contact_id role c =
     (let send_start = sim_now sv (cl_world c) in
      case awaited sv (send e contact_id (as_bytes (''hello from '' @ role_str role))) c of
        None \<Rightarrow> None
      | Some (send_result, c1) \<Rightarrow>
          (let c2 = print_result sv role ''sent'' (is_ok send_result) (sim_now sv (cl_world c1) - send_start) c1
           in case send_result of
                Ok _ \<Rightarrow> run_then (expecting (store_do (messages_for_contact contact_id))) (\<lambda>history. return_run ()) c2
              | Err err \<Rightarrow> Some (Err 1, c2)
              | Panic \<Rightarrow> Some (Panic, c1)))"

partial_function (option) incoming_loop ::
  "('acc, 'addr, 'w) sim \<Rightarrow> i64 \<Rightarrow> nat \<Rightarrow> ('acc, 'addr, 'w) client
    \<Rightarrow> ((bool, nat) outcome \<times> ('acc, 'addr, 'w) client) option" where
  [code]: "incoming_loop sv contact_id deadline c =
     (if sim_now sv (cl_world c) < deadline then
        (case store_do (messages_for_contact contact_id) c of
           (Ok history, c1) \<Rightarrow>
             if list_ex (\<lambda>m. sm_status m = None) history then Some (Ok True, c1)
             else incoming_loop sv contact_id deadline (sim_sleep sv POLL_INTERVAL c1)
         | (_, c1) \<Rightarrow> Some (Panic, c1))
      else Some (Ok False, c))"

definition wait_for_incoming ::
  "('acc, 'addr, 'w) sim \<Rightarrow> i64 \<Rightarrow> Role \<Rightarrow> (('acc, 'addr, 'w) client, unit) run" where
  "wait_for_incoming sv contact_id role c =
     (let start = sim_now sv (cl_world c) in
      run_then (incoming_loop sv contact_id (start + DELIVERY_DEADLINE)) (\<lambda>delivered c1.
        let c2 = print_result sv role ''delivered'' delivered (sim_now sv (cl_world c1) - start) c1
        in Some (if delivered then Ok () else Err 1, c2)) c)"

definition pair_up ::
  "('acc, 'ses, 'r, 'addr, 'w) env \<Rightarrow> ('acc, 'addr, 'w) sim \<Rightarrow> Role \<Rightarrow> string \<Rightarrow> (('acc, 'addr, 'w) client, i64) run" where
  "pair_up e sv role coord_dir =
     run_then (expecting (pairing_payload e)) (\<lambda>my_payload.
     run_then (write_own_payload sv coord_dir role my_payload) (\<lambda>_.
     run_then (read_peer_payload sv coord_dir (other role)) (\<lambda>their_payload.
       awaiting sv (add_contact_from_payload e their_payload (pp_nonce my_payload) (Some (role_str (other role)))))))"

definition exchange ::
  "('acc, 'ses, 'r, 'addr, 'w) env \<Rightarrow> ('acc, 'addr, 'w) sim \<Rightarrow> i64 \<Rightarrow> Role \<Rightarrow> (('acc, 'addr, 'w) client, unit) run" where
  "exchange e sv contact_id role =
     (case role of
        RoleA \<Rightarrow> run_then (send_and_confirm e sv contact_id role) (\<lambda>_. wait_for_incoming sv contact_id role)
      | RoleB \<Rightarrow> run_then (wait_for_incoming sv contact_id role) (\<lambda>_. send_and_confirm e sv contact_id role))"

text \<open>\<^verbatim>\<open>main\<close> once its client is open, and all of it; \<open>stores\<close> are the databases at the store paths.\<close>

definition peer_run ::
  "('acc, 'ses, 'r, 'addr, 'w) env \<Rightarrow> ('acc, 'addr, 'w) sim \<Rightarrow> Role \<Rightarrow> string \<Rightarrow> (('acc, 'addr, 'w) client, unit) run" where
  "peer_run e sv role coord_dir =
     run_then (pair_up e sv role coord_dir) (\<lambda>contact_id.
     run_then (barrier sv coord_dir role) (\<lambda>_. exchange e sv contact_id role))"

definition peer_main ::
  "('mn, 'rnd) bip39 \<Rightarrow> 'rnd \<Rightarrow> ('acc, 'ses, 'r, 'addr, 'w) env \<Rightarrow> ('acc, 'addr, 'w) sim
    \<Rightarrow> (string \<Rightarrow> ('w, unit, string) action) \<Rightarrow> (string \<Rightarrow> store) \<Rightarrow> string list \<Rightarrow> 'w \<Rightarrow> (unit, nat) outcome option" where
  "peer_main b rnd e sv create_dir_all stores args w =
     (case parse_args args of
        Ok (role, coord_dir, store_path) \<Rightarrow>
          (case create_dir_all coord_dir w of
             (Ok _, w1) \<Rightarrow>
               (case seed_generate b rnd of
                  Ok (seed, _) \<Rightarrow>
                    (case client_open e seed (stores store_path, w1) of
                       (r, d) \<Rightarrow>
                         if sim_stuck sv (snd d) then None
                         else (case r of Ok c \<Rightarrow> map_option fst (peer_run e sv role coord_dir c) | _ \<Rightarrow> Some Panic))
                | _ \<Rightarrow> Some Panic)
           | _ \<Rightarrow> Some Panic)
      | _ \<Rightarrow> Some Panic)"

section \<open>Waiting ends\<close>

text \<open>The clock does not stand still while the program sleeps.\<close>

definition clock_runs :: "('acc, 'addr, 'w) sim \<Rightarrow> bool" where
  "clock_runs sv \<longleftrightarrow> (\<forall>d c. sim_now sv (cl_world c) + d \<le> sim_now sv (cl_world (sim_sleep sv d c)))"

text \<open>
  What the calls of the program do with the world. Reading the clock or the random number generator,
  binding the endpoint and the file system are local. While the program sleeps, so do its background
  tasks proceed; that the world is not stuck afterwards says that none of them keeps the send lock for
  ever. A direct call is the one call with a timeout: it returns, or is cut off by tokio. A call to a
  node has none; that it returns is a condition on the nodes and the network.
\<close>

definition local_calls_return :: "('acc, 'ses, 'r, 'addr, 'w) env \<Rightarrow> ('acc, 'addr, 'w) sim \<Rightarrow> bool" where
  "local_calls_return e sv \<longleftrightarrow> (\<forall>w. \<not> sim_stuck sv w \<longrightarrow>
     (\<forall>n. \<not> sim_stuck sv (snd (env_random e n w))) \<and> \<not> sim_stuck sv (snd (env_olm_random e w))
   \<and> \<not> sim_stuck sv (snd (env_now e w)) \<and> (\<forall>k. \<not> sim_stuck sv (snd (env_bind e k w)))
   \<and> (\<forall>fs. \<not> sim_stuck sv (sim_set_files sv fs w)) \<and> (\<forall>line. \<not> sim_stuck sv (sim_print sv line w)))"

definition sleeps_return :: "('acc, 'addr, 'w) sim \<Rightarrow> bool" where
  "sleeps_return sv \<longleftrightarrow> (\<forall>d c. \<not> sim_stuck sv (cl_world c) \<longrightarrow> \<not> sim_stuck sv (cl_world (sim_sleep sv d c)))"

definition direct_calls_bounded :: "('acc, 'ses, 'r, 'addr, 'w) env \<Rightarrow> ('acc, 'addr, 'w) sim \<Rightarrow> bool" where
  "direct_calls_bounded e sv \<longleftrightarrow> (\<forall>a b w. \<not> sim_stuck sv w \<longrightarrow>
     (case env_times_out e a b w of
        Some w' \<Rightarrow> \<not> sim_stuck sv w'
      | None \<Rightarrow> \<not> sim_stuck sv (snd (call_direct (env_net e) (env_ack e) a b w))))"

definition nodes_answer :: "('acc, 'ses, 'r, 'addr, 'w) env \<Rightarrow> ('acc, 'addr, 'w) sim \<Rightarrow> bool" where
  "nodes_answer e sv \<longleftrightarrow> (\<forall>a w. \<not> sim_stuck sv w \<longrightarrow>
     \<not> sim_stuck sv (snd (net_connect (env_net e) a NODE_ALPN w))
   \<and> (\<forall>b n. \<not> sim_stuck sv (snd (net_exchange (env_net e) a NODE_ALPN b n w))))"

definition returning :: "('acc, 'ses, 'r, 'addr, 'w) env \<Rightarrow> ('acc, 'addr, 'w) sim \<Rightarrow> bool" where
  "returning e sv \<longleftrightarrow> local_calls_return e sv \<and> sleeps_return sv \<and> direct_calls_bounded e sv \<and> nodes_answer e sv"

section \<open>Operations of the client return\<close>

definition lively :: "('acc, 'addr, 'w) sim \<Rightarrow> ('acc, 'addr, 'w) client \<Rightarrow> ('acc, 'addr, 'w) client \<Rightarrow> bool" where
  "lively sv c c' \<longleftrightarrow> (\<not> sim_stuck sv (cl_world c) \<longrightarrow> \<not> sim_stuck sv (cl_world c'))"

interpretation lv: step_order "lively sv" for sv
  by unfold_locales (auto simp: lively_def)

lemma lively_same_world: "(\<And>c. cl_world (snd (m c)) = cl_world c) \<Longrightarrow> keeps (lively sv) m"
  by (rule keepsI) (simp add: lively_def)

lemma lively_world_do: "(\<And>w. \<not> sim_stuck sv w \<Longrightarrow> \<not> sim_stuck sv (snd (f w))) \<Longrightarrow> keeps (lively sv) (world_do f)"
  by (rule keepsI) (simp add: lively_def world_do_def case_prod_beta)

named_theorems returns \<open>operations of the client that return\<close>

lemma lively_store_do [returns]: "keeps (lively sv) (store_do m)"
  by (rule lively_same_world) (simp add: store_do_def case_prod_beta)

lemma lively_locals:
  assumes "returning e sv"
  shows "keeps (lively sv) (world_do (env_random e n))" "keeps (lively sv) (world_do (env_olm_random e))"
    "keeps (lively sv) (world_do (env_now e))"
  by (rule lively_world_do, use assms in \<open>auto simp: returning_def local_calls_return_def\<close>)+

lemma and_then_world:
  assumes "\<not> P (snd (m w))" and "\<And>a w'. \<not> P w' \<Longrightarrow> \<not> P (snd (k a w'))"
  shows "\<not> P (snd (and_then m k w))"
  using assms by (cases "m w"; cases "fst (m w)") (auto simp: and_then_def)

lemma lively_call_node:
  assumes "returning e sv"
  shows "keeps (lively sv) (call_node e a req)"
proof -
  have na: "nodes_answer e sv" using assms by (simp add: returning_def)
  have "\<not> sim_stuck sv (snd (call (env_net e) rq rs a req w))" if "\<not> sim_stuck sv w" for rq rs w
    unfolding call_def
    by (intro and_then_world[where P = "sim_stuck sv"]) (use na that in \<open>auto simp: nodes_answer_def lift_outcome_def\<close>)
  then show ?thesis by (intro keepsI) (simp add: lively_def call_node_def case_prod_beta)
qed

lemma lively_try_direct:
  fixes sv :: "('acc, 'addr, 'w) sim"
  assumes "returning e sv"
  shows "keeps (lively sv) (try_direct e a b)"
proof (rule keepsI)
  fix c :: "('acc, 'addr, 'w) client"
  from assms have "\<not> sim_stuck sv (cl_world c) \<longrightarrow> (case env_times_out e a b (cl_world c) of
        Some w' \<Rightarrow> \<not> sim_stuck sv w'
      | None \<Rightarrow> \<not> sim_stuck sv (snd (call_direct (env_net e) (env_ack e) a b (cl_world c))))"
    unfolding returning_def direct_calls_bounded_def by blast
  then show "lively sv c (snd (try_direct e a b c))"
    by (auto simp: lively_def try_direct_def split: option.splits prod.splits)
qed

lemmas returns_outside = lively_locals lively_call_node lively_try_direct

lemma lively_expect_ok [returns]: "keeps (lively sv) (expect_ok e r)"
  unfolding expect_ok_def by (cases r) (simp_all add: lv.keeps_unit)

lemma lively_requests:
  assumes "returning e sv"
  shows "keeps (lively sv) (client_register_slot e a h)" "keeps (lively sv) (schedule_retry e a mid k b)"
  unfolding client_register_slot_def[abs_def] schedule_retry_def[abs_def]
  by (rule lv.keeps_from_state; intro lv.keeps_intros returns returns_outside[OF assms])+

lemma lively_register_slots:
  assumes "returning e sv"
  shows "keeps (lively sv) (register_slots e a secret)"
  unfolding register_slots_def by (intro lv.keeps_intros returns lively_requests[OF assms])

lemma lively_add_contact:
  assumes "returning e sv"
  shows "keeps (lively sv) (add_contact_from_payload e their my_nonce name)"
proof -
  have "keeps (lively sv) (\<lambda>c. when_some (cl_server_addr c) (\<lambda>a. register_slots e a secret) c)" for secret
    by (rule lv.keeps_from_state) (intro lv.keeps_intros lively_register_slots[OF assms])
  then show ?thesis
    unfolding add_contact_from_payload_def add_contact_def by (intro lv.keeps_intros returns)
qed

lemma lively_pairing_payload:
  assumes "returning e sv"
  shows "keeps (lively sv) (pairing_payload e)"
proof -
  have "keeps (lively sv) (\<lambda>c. let (keys, acc') = generate_one_time_keys (env_olm e) 1 r (cl_account c);
           c' = c\<lparr>cl_account := acc'\<rparr>
       in and_then (lift_outcome (map_err Crypto (account_pickle (env_olm e) acc'))) (\<lambda>pickle.
          and_then (store_do (save_account_pickle pickle)) (\<lambda>_.
            lift_outcome (case keys of [] \<Rightarrow> Panic | k # ks \<Rightarrow> Ok k))) c')" for r
    by (rule lively_same_world)
      (auto simp: and_then_def lift_outcome_def store_do_def Let_def split: prod.splits outcome.splits)
  then have "keeps (lively sv) (generate_one_time_key e)"
    unfolding generate_one_time_key_def by (intro lv.keeps_intros returns_outside[OF assms])
  then show ?thesis
    unfolding pairing_payload_def
    by (intro lv.keeps_intros returns_outside[OF assms]) (auto intro!: lively_same_world split: option.splits)
qed

lemma lively_open_session:
  assumes "returning e sv"
  shows "keeps (lively sv) (open_session e cid contact)"
  unfolding open_session_def
  by (rule lv.keeps_and_then[OF lively_store_do])
    (auto intro!: lv.keeps_intros returns returns_outside[OF assms] split: option.split)

lemma lively_deliver_direct:
  assumes "returning e sv"
  shows "keeps (lively sv) (deliver_direct e contact otype ct lam at mid)"
proof -
  have "keeps (lively sv) (\<lambda>c. case cl_server_addr c of None \<Rightarrow> (Err err, c)
      | Some a \<Rightarrow> and_then (attempt (schedule_retry e a mid tk b))
          (\<lambda>queued. if is_ok queued then pure Sent else fail err) c)" for err tk b
  proof -
    have "keeps (lively sv) (and_then (attempt (schedule_retry e a mid tk b))
        (\<lambda>queued. if is_ok queued then pure Sent else fail err))" for a
      by (intro lv.keeps_and_then lv.keeps_attempt lively_requests[OF assms]) (simp add: lv.keeps_unit)
    then show ?thesis by (intro keepsI) (auto simp: lv.R_refl keepsD split: option.split)
  qed
  then show ?thesis
    unfolding deliver_direct_def envelope_bytes_of_def
    by (intro lv.keeps_and_then lv.keeps_unit lv.keeps_require lv.keeps_attempt returns_outside[OF assms])
      (auto intro: lv.keeps_unit split: outcome.split)
qed

lemma lively_send:
  assumes "returning e sv"
  shows "keeps (lively sv) (send e cid plaintext)"
proof -
  have "keeps (lively sv) (deliver_to_server e cid contact addr otype ct lam at mid)" for contact addr otype ct lam at mid
    unfolding deliver_to_server_def envelope_bytes_of_def
    by (intro lv.keeps_intros returns returns_outside[OF assms])
  then have "keeps (lively sv) (deliver_in_session e cid contact payload ses)" for contact payload ses
    unfolding deliver_in_session_def encrypt_payload_def save_session_def
    by (auto intro!: lv.keeps_intros returns returns_outside[OF assms] lively_deliver_direct[OF assms] split: option.split)
  then show ?thesis
    unfolding send_def deliver_def client_get_contact_def
    by (auto intro!: lv.keeps_intros returns lively_open_session[OF assms])
qed

section \<open>Runs that end\<close>

text \<open>
  A run that, from a world that is not stuck, ends in one, and if by \<^verbatim>\<open>exit\<close>, then with the status 1.
\<close>

definition ends_at ::
  "('acc, 'addr, 'w) sim \<Rightarrow> (('acc, 'addr, 'w) client, 'a) run \<Rightarrow> ('acc, 'addr, 'w) client \<Rightarrow> bool" where
  "ends_at sv m c \<longleftrightarrow> (\<not> sim_stuck sv (cl_world c) \<longrightarrow> (\<exists>r c'. m c = Some (r, c')
     \<and> \<not> sim_stuck sv (cl_world c') \<and> (\<forall>status. r = Err status \<longrightarrow> status = 1)))"

definition ends :: "('acc, 'addr, 'w) sim \<Rightarrow> (('acc, 'addr, 'w) client, 'a) run \<Rightarrow> bool" where
  "ends sv m \<longleftrightarrow> (\<forall>c. ends_at sv m c)"

named_theorems ending \<open>runs that end\<close>

lemma ends_at_run_then:
  assumes "ends_at sv m c" and "\<And>a c'. m c = Some (Ok a, c') \<Longrightarrow> ends_at sv (k a) c'"
  shows "ends_at sv (run_then m k) c"
proof (cases "sim_stuck sv (cl_world c)")
  case False
  with assms(1) obtain r c' where "m c = Some (r, c')" "\<not> sim_stuck sv (cl_world c')" "\<forall>status. r = Err status \<longrightarrow> status = 1"
    by (auto simp: ends_at_def)
  with assms(2) show ?thesis by (cases r) (auto simp: ends_at_def run_then_def)
qed (simp add: ends_at_def)

lemma ends_run_then [ending]: "ends sv m \<Longrightarrow> (\<And>a. ends sv (k a)) \<Longrightarrow> ends sv (run_then m k)"
  unfolding ends_def by (blast intro: ends_at_run_then)

lemma ends_calls [ending]:
  "ends sv (return_run a)"
  "keeps (lively sv) m \<Longrightarrow> ends sv (expecting m)" "keeps (lively sv) m \<Longrightarrow> ends sv (awaiting sv m)"
  by (auto simp: ends_def ends_at_def return_run_def expecting_def awaiting_def awaited_def keeps_def lively_def
      Let_def case_prod_beta split: outcome.splits)

text \<open>What holds of a client if it holds of it after a sleep while there is time left, holds.\<close>

lemma poll_induct:
  assumes "clock_runs sv"
    and "\<And>c. (sim_now sv (cl_world c) < deadline \<Longrightarrow> P (sim_sleep sv POLL_INTERVAL c)) \<Longrightarrow> P c"
  shows "P c"
proof (induction "deadline - sim_now sv (cl_world c)" arbitrary: c rule: less_induct)
  case less
  show ?case
  proof (rule assms(2))
    assume "sim_now sv (cl_world c) < deadline"
    moreover have "sim_now sv (cl_world c) + POLL_INTERVAL \<le> sim_now sv (cl_world (sim_sleep sv POLL_INTERVAL c))"
      using assms(1) by (simp add: clock_runs_def)
    ultimately show "P (sim_sleep sv POLL_INTERVAL c)"
      by (intro less) (simp add: POLL_INTERVAL_def)
  qed
qed

lemma read_loop_ends: "clock_runs sv \<Longrightarrow> sleeps_return sv \<Longrightarrow> ends_at sv (read_loop sv path deadline) c"
  by (erule poll_induct[where deadline = deadline])
    (unfold ends_at_def sleeps_return_def, subst read_loop.simps, simp split: option.split)

lemma barrier_loop_ends: "clock_runs sv \<Longrightarrow> sleeps_return sv \<Longrightarrow> ends_at sv (barrier_loop sv marker deadline) c"
  by (erule poll_induct[where deadline = deadline])
    (unfold ends_at_def sleeps_return_def, subst barrier_loop.simps, simp)

lemma messages_for_contact_reads: "store_do (messages_for_contact cid) c = (r, c') \<Longrightarrow> c' = c"
  by (auto simp: store_do_def messages_for_contact_def)

lemma incoming_loop_ends: "clock_runs sv \<Longrightarrow> sleeps_return sv \<Longrightarrow> ends_at sv (incoming_loop sv cid deadline) c"
  by (erule poll_induct[where deadline = deadline])
    (unfold ends_at_def sleeps_return_def, subst incoming_loop.simps,
      auto dest: messages_for_contact_reads split: prod.split outcome.split)

lemma print_result_lively:
  assumes "returning e sv" and "\<not> sim_stuck sv (cl_world c)"
  shows "\<not> sim_stuck sv (cl_world (print_result sv role field ok n c))"
  using assms by (simp add: print_result_def returning_def local_calls_return_def)

lemma files_lively [returns]:
  assumes "returning e sv"
  shows "keeps (lively sv) (fs_write sv path bs)" "keeps (lively sv) (fs_rename sv src dst)"
  using assms by (auto intro!: keepsI simp: lively_def fs_write_def fs_rename_def Let_def returning_def
      local_calls_return_def split: option.split)

lemma ends_loops:
  assumes "clock_runs sv" and ok: "returning e sv"
  shows "ends sv (read_peer_payload sv dir role)" "ends sv (barrier sv dir role)" "ends sv (wait_for_incoming sv cid role)"
proof -
  have sl: "sleeps_return sv" using ok by (simp add: returning_def)
  show "ends sv (read_peer_payload sv dir role)"
    using read_loop_ends[OF assms(1) sl] by (simp add: ends_def ends_at_def read_peer_payload_def)
  have "ends sv (\<lambda>c. barrier_loop sv (paired_file dir (other role)) (sim_now sv (cl_world c) + PAIRING_DEADLINE) c)"
    using barrier_loop_ends[OF assms(1) sl] by (simp add: ends_def ends_at_def)
  then show "ends sv (barrier sv dir role)" unfolding barrier_def by (intro ending files_lively[OF ok])
  have "ends_at sv (run_then (incoming_loop sv cid (start + DELIVERY_DEADLINE)) (\<lambda>delivered c1.
      let c2 = print_result sv role ''delivered'' delivered (sim_now sv (cl_world c1) - start) c1
      in Some (if delivered then Ok () else Err 1, c2))) c" for start c
    by (rule ends_at_run_then[OF incoming_loop_ends[OF assms(1) sl]])
      (simp add: ends_at_def Let_def print_result_lively[OF ok])
  then show "ends sv (wait_for_incoming sv cid role)"
    by (simp add: ends_def ends_at_def wait_for_incoming_def Let_def)
qed

lemma ends_send_and_confirm:
  fixes sv :: "('acc, 'addr, 'w) sim"
  assumes ok: "returning e sv"
  shows "ends sv (send_and_confirm e sv cid role)"
  unfolding ends_def
proof (intro allI)
  fix c :: "('acc, 'addr, 'w) client"
  define msg where "msg = as_bytes (''hello from '' @ role_str role)"
  obtain r c1 where sent: "send e cid msg c = (r, c1)" by fastforce
  have reads: "ends sv (run_then (expecting (store_do (messages_for_contact cid))) (\<lambda>history. return_run ()))"
    by (intro ending returns)
  have "\<not> sim_stuck sv (cl_world c) \<longrightarrow> \<not> sim_stuck sv (cl_world c1)"
    using keepsD[OF lively_send[OF ok], of c cid msg] by (simp add: lively_def sent)
  then show "ends_at sv (send_and_confirm e sv cid role) c"
    using reads print_result_lively[OF ok, of c1]
    unfolding ends_def ends_at_def send_and_confirm_def msg_def[symmetric] awaited_def sent
    by (cases r) auto
qed

lemma peer_run_ends:
  assumes "clock_runs sv" and ok: "returning e sv"
  shows "ends sv (peer_run e sv role dir)"
proof -
  have "ends sv (exchange e sv cid role)" for cid
    unfolding exchange_def by (cases role) (auto intro!: ending ends_loops[OF assms] ends_send_and_confirm[OF ok])
  moreover have "ends sv (pair_up e sv role dir)"
    unfolding pair_up_def write_own_payload_def
    by (intro ending ends_loops[OF assms] lively_pairing_payload[OF ok] lively_add_contact[OF ok] files_lively[OF ok]
        lv.keeps_unit)
  ultimately show ?thesis unfolding peer_run_def by (intro ending ends_loops[OF assms])
qed

text \<open>Opening the client, before there is one.\<close>

definition disk_lively :: "('acc, 'addr, 'w) sim \<Rightarrow> store \<times> 'w \<Rightarrow> store \<times> 'w \<Rightarrow> bool" where
  "disk_lively sv d d' \<longleftrightarrow> (\<not> sim_stuck sv (snd d) \<longrightarrow> \<not> sim_stuck sv (snd d'))"

interpretation ld: step_order "disk_lively sv" for sv
  by unfold_locales (auto simp: disk_lively_def)

lemma disk_lively_local:
  "keeps (disk_lively sv) (disk_do m)" "keeps (disk_lively sv) (open_store e identity)"
  "keeps (disk_lively sv) (from_parts identity acc addr)"
  by (auto intro!: keepsI simp: disk_lively_def disk_do_def open_store_def from_parts_def case_prod_beta Let_def split: outcome.split)

lemma disk_lively_world:
  assumes "returning e sv"
  shows "keeps (disk_lively sv) (bind_endpoint e k)"
    "keeps (disk_lively sv) (\<lambda>d. let (r, w') = env_olm_random e (snd d) in (Ok (acc_new (env_olm e) r), (fst d, w')))"
proof -
  have "\<not> sim_stuck sv (snd (env_olm_random e w)) \<and> (\<forall>k. \<not> sim_stuck sv (snd (env_bind e k w)))"
    if "\<not> sim_stuck sv w" for w
    using assms that by (simp add: returning_def local_calls_return_def)
  then show "keeps (disk_lively sv) (bind_endpoint e k)"
    "keeps (disk_lively sv) (\<lambda>d. let (r, w') = env_olm_random e (snd d) in (Ok (acc_new (env_olm e) r), (fst d, w')))"
    by (simp_all add: keeps_def disk_lively_def bind_endpoint_def case_prod_beta)
qed

lemma client_open_lively:
  assumes "returning e sv"
  shows "keeps (disk_lively sv) (client_open e seed)"
  unfolding client_open_def load_own_server_addr_def
  by (auto intro!: ld.keeps_intros disk_lively_local disk_lively_world[OF assms, unfolded Let_def] split: option.split)

lemma client_open_world: "client_open e seed d = (Ok c, d') \<Longrightarrow> cl_world c = snd d'"
  by (auto simp: client_open_def from_parts_def and_then_def split: prod.splits outcome.splits)

text \<open>
  C37: if the nodes answer, the program ends. Suppose that the clock runs, that local calls return and
  background tasks do not keep the send lock for ever, that a direct call which does not return is cut
  off by its timeout of 20 seconds, and that every call to a node, which has no timeout, returns. Then
  a peer ends whatever its arguments, whatever the other process does or does not do, and whatever
  calls fail: it returns, it exits with status 1, or it panics.
\<close>

theorem peer_always_ends:
  assumes "clock_runs sv" and "local_calls_return e sv" and "sleeps_return sv"
    and "direct_calls_bounded e sv" and "nodes_answer e sv"
    and "\<And>dir. \<not> sim_stuck sv (snd (create_dir_all dir w))"
  shows "\<exists>r. peer_main b rnd e sv create_dir_all stores args w = Some r \<and> (r = Ok () \<or> r = Err 1 \<or> r = Panic)"
proof -
  have ok: "returning e sv" using assms by (simp add: returning_def)
  have run: "\<exists>r. map_option fst (peer_run e sv role dir c) = Some r \<and> (r = Ok () \<or> r = Err 1 \<or> r = Panic)"
    if "\<not> sim_stuck sv (cl_world c)" for role dir c
  proof -
    from peer_run_ends[OF assms(1) ok, of role dir] that obtain r c' where "peer_run e sv role dir c = Some (r, c')"
      and "\<forall>status. r = Err status \<longrightarrow> status = 1" unfolding ends_def ends_at_def by blast
    then show ?thesis by (cases r) simp_all
  qed
  have opened: "\<not> sim_stuck sv (snd (snd (client_open e seed (s, w1))))" if "\<not> sim_stuck sv w1" for seed s w1
    using keepsD[OF client_open_lively[OF ok], of "(s, w1)" seed] that by (simp add: disk_lively_def)
  have started: "\<exists>r. (case client_open e seed (s, w1) of (res, d) \<Rightarrow>
        if sim_stuck sv (snd d) then None
        else (case res of Ok c \<Rightarrow> map_option fst (peer_run e sv role dir c) | _ \<Rightarrow> Some Panic)) = Some r
      \<and> (r = Ok () \<or> r = Err 1 \<or> r = Panic)" if w1: "\<not> sim_stuck sv w1" for seed s w1 role dir
  proof -
    obtain res d where opens: "client_open e seed (s, w1) = (res, d)" by (rule prod.exhaust)
    with opened[OF w1, of seed s] have d: "\<not> sim_stuck sv (snd d)" by simp
    show ?thesis
    proof (cases res)
      case (Ok c)
      with opens d client_open_world[of e seed "(s, w1)" c d] run[of c role dir] show ?thesis by simp
    qed (simp_all add: opens d)
  qed
  show ?thesis
  proof (cases "parse_args args")
    case (Ok p)
    obtain role dir path where p: "p = (role, dir, path)" by (cases p)
    obtain res w1 where made: "create_dir_all dir w = (res, w1)" by fastforce
    with assms(6)[of dir] have w1: "\<not> sim_stuck sv w1" by simp
    show ?thesis
    proof (cases "res = Ok () \<and> is_ok (seed_generate b rnd)")
      case True
      then obtain seed words where "seed_generate b rnd = Ok (seed, words)" by (cases "seed_generate b rnd") auto
      with True started[OF w1] show ?thesis
        by (simp add: peer_main_def Ok p made)
    next
      case False
      then show ?thesis
        by (cases res; cases "seed_generate b rnd") (simp_all add: peer_main_def Ok p made)
    qed
  qed (simp_all add: peer_main_def)
qed

section \<open>What success means\<close>

lemma incoming_loop_True:
  fixes sv :: "('acc, 'addr, 'w) sim"
  assumes "incoming_loop sv cid deadline c = Some (Ok True, c')"
  shows "\<exists>h. store_do (messages_for_contact cid) c' = (Ok h, c') \<and> (\<exists>m \<in> set h. sm_status m = None)"
proof -
  let ?P = "\<lambda>(_ :: ('acc, 'addr, 'w) sim) cid (_ :: nat) (_ :: ('acc, 'addr, 'w) client) (r :: (bool, nat) outcome, c' :: ('acc, 'addr, 'w) client). r = Ok True
    \<longrightarrow> (\<exists>h. store_do (messages_for_contact cid) c' = (Ok h, c') \<and> (\<exists>m \<in> set h. sm_status m = None))"
  have "?P sv cid deadline c (Ok True, c')"
    by (rule incoming_loop.raw_induct[OF _ assms, where P = ?P])
      (auto simp: list_ex_iff split: if_splits prod.splits outcome.splits, metis messages_for_contact_reads)
  then show ?thesis by simp
qed

lemma send_and_confirm_Ok:
  assumes "send_and_confirm e sv cid role c = Some (Ok (), c')"
  obtains c1 where "send e cid (as_bytes (''hello from '' @ role_str role)) c = (Ok (), c1)"
  using assms by (auto simp: send_and_confirm_def awaited_def Let_def split: prod.splits outcome.splits if_splits option.splits)

lemma wait_for_incoming_Ok:
  fixes sv :: "('acc, 'addr, 'w) sim"
  assumes "wait_for_incoming sv cid role c = Some (Ok (), c')"
  obtains h and c1 :: "('acc, 'addr, 'w) client"
    where "store_do (messages_for_contact cid) c1 = (Ok h, c1)" and "\<exists>m \<in> set h. sm_status m = None"
proof -
  from assms obtain c1 where "incoming_loop sv cid (sim_now sv (cl_world c) + DELIVERY_DEADLINE) c = Some (Ok True, c1)"
    by (auto simp: wait_for_incoming_def Let_def run_then_Ok_iff split: if_splits)
  from incoming_loop_True[OF this] that show ?thesis by blast
qed

text \<open>
  A peer that ends with success has sent its message and has seen a message from its contact, whom it
  has added under the name of the other role.
\<close>

lemma peer_success:
  fixes sv :: "('acc, 'addr, 'w) sim"
  assumes "peer_run e sv role dir c = Some (Ok (), c')"
  shows "\<exists>cid their my_nonce ca ca' cs cs' h. \<exists>ch :: ('acc, 'addr, 'w) client.
    add_contact_from_payload e their my_nonce (Some (role_str (other role))) ca = (Ok cid, ca')
    \<and> send e cid (as_bytes (''hello from '' @ role_str role)) cs = (Ok (), cs')
    \<and> store_do (messages_for_contact cid) ch = (Ok h, ch) \<and> (\<exists>m \<in> set h. sm_status m = None)"
proof -
  from assms obtain cid c1 c2 where pair: "pair_up e sv role dir c = Some (Ok cid, c1)"
    and ex: "exchange e sv cid role c2 = Some (Ok (), c')"
    by (auto simp: peer_run_def run_then_Ok_iff)
  from pair obtain their my_nonce ca where
    "add_contact_from_payload e their my_nonce (Some (role_str (other role))) ca = (Ok cid, c1)"
    by (auto simp: pair_up_def run_then_Ok_iff dest!: awaiting_Ok)
  moreover from ex obtain ca1 ca2 cb1 cb2 where sent: "send_and_confirm e sv cid role ca1 = Some (Ok (), ca2)"
    and got: "wait_for_incoming sv cid role cb1 = Some (Ok (), cb2)"
    by (cases role) (auto simp: exchange_def run_then_Ok_iff)
  moreover from sent obtain cs' where "send e cid (as_bytes (''hello from '' @ role_str role)) ca1 = (Ok (), cs')"
    by (rule send_and_confirm_Ok)
  moreover from got obtain h and ch :: "('acc, 'addr, 'w) client"
    where "store_do (messages_for_contact cid) ch = (Ok h, ch)" "\<exists>m \<in> set h. sm_status m = None"
    by (rule wait_for_incoming_Ok)
  ultimately show ?thesis by blast
qed

section \<open>Publishing the payload\<close>

text \<open>
  What the other process may see of the shared files while \<^verbatim>\<open>write_own_payload\<close> runs: the
  temporary file grows byte by byte, and the rename is one step.
\<close>

definition publish_states :: "string \<Rightarrow> Role \<Rightarrow> bytes \<Rightarrow> (string \<Rightarrow> bytes option) \<Rightarrow> (string \<Rightarrow> bytes option) list" where
  "publish_states dir role bs fs =
     fs # map (\<lambda>n. fs(tmp_file dir role \<mapsto> take n bs)) [0..<Suc (length bs)]
     @ [fs(tmp_file dir role := None, json_file dir role \<mapsto> bs)]"

lemma file_names: "tmp_file dir role \<noteq> json_file dir role'"
  by (cases role; cases role') (auto simp: tmp_file_def json_file_def path_join_def)

text \<open>
  A peer's payload is published whole. While it is written, and after, the file the other
  process polls has its earlier content, if any, or is complete and decodes to the payload; when
  \<^verbatim>\<open>write_own_payload\<close> has returned it is complete. (Setting the files and reading them agree.)
\<close>

lemma payload_published_whole:
  assumes "write_own_payload sv dir role payload c = Some (Ok (), c')"
    and "\<And>fs w. sim_files sv (sim_set_files sv fs w) = fs" and "codec_roundtrip (sim_payload sv)"
  shows "\<exists>bs. enc (sim_payload sv) payload = Inr bs \<and> dec (sim_payload sv) bs = Inr payload
    \<and> sim_files sv (cl_world c') = last (publish_states dir role bs (sim_files sv (cl_world c)))
    \<and> sim_files sv (cl_world c') (json_file dir role) = Some bs
    \<and> (\<forall>fs \<in> set (publish_states dir role bs (sim_files sv (cl_world c))).
         fs (json_file dir role) = sim_files sv (cl_world c) (json_file dir role) \<or> fs (json_file dir role) = Some bs)"
proof -
  from assms(1) obtain bs c1 where bs: "enc (sim_payload sv) payload = Inr bs"
    and w: "fs_write sv (tmp_file dir role) bs c = (Ok (), c1)"
    and r: "fs_rename sv (tmp_file dir role) (json_file dir role) c1 = (Ok (), c')"
    by (auto simp: write_own_payload_def run_then_Ok_iff expecting_Ok_iff lift_outcome_def)
  from w assms(2) have "sim_files sv (cl_world c1) = (sim_files sv (cl_world c))(tmp_file dir role \<mapsto> bs)"
    by (auto simp: fs_write_def Let_def split: if_splits)
  with r assms(2) have "sim_files sv (cl_world c') =
      (sim_files sv (cl_world c))(tmp_file dir role := None, json_file dir role \<mapsto> bs)"
    by (auto simp: fs_rename_def Let_def fun_eq_iff file_names split: if_splits option.splits)
  then show ?thesis
    using bs codec_roundtripD[OF assms(3) bs] by (auto simp: publish_states_def file_names file_names[symmetric])
qed

section \<open>Instances\<close>

text \<open>A world that is a clock and the shared files, in which nothing else happens.\<close>

definition nonce_payload :: "bytes \<Rightarrow> PairingPayload" where
  "nonce_payload bs = \<lparr>pp_identity_key = [], pp_curve25519_key = [], pp_transport_key = [], pp_one_time_key = [],
     pp_nonce = bs, pp_server_addr = None\<rparr>"

type_synonym sample_world = "nat \<times> (string \<Rightarrow> bytes option) \<times> bool"

definition sample_sim :: "(unit, nat, sample_world) sim" where
  "sample_sim = \<lparr>sim_now = fst, sim_files = \<lambda>w. fst (snd w), sim_set_files = \<lambda>fs w. (fst w, fs, snd (snd w)),
     sim_denied = \<lambda>_ _. False, sim_sleep = \<lambda>d c. c\<lparr>cl_world := (fst (cl_world c) + d, snd (cl_world c))\<rparr>,
     sim_print = \<lambda>_ w. w, sim_stuck = \<lambda>w. snd (snd w),
     sim_payload = \<lparr>enc = \<lambda>p. if p = nonce_payload (pp_nonce p) then Inr (pp_nonce p) else Inl [],
       dec = \<lambda>bs. Inr (nonce_payload bs)\<rparr>\<rparr>"

text \<open>A network on which nodes refuse connections and peers take a message and never answer.\<close>

definition silent_peers :: "(nat, sample_world) network" where
  "silent_peers = \<lparr>net_connect = \<lambda>_ alpn w. if alpn = NODE_ALPN then (Err (Connect []), w) else (Ok (), w),
     net_exchange = \<lambda>_ alpn _ _ w.
       if alpn = NODE_ALPN then (Err (Stream []), w) else (Ok [], fst w, fst (snd w), True)\<rparr>"

definition timed_env :: "(nat, sample_world) network \<Rightarrow> (unit, unit, unit, nat, sample_world) env" where
  "timed_env net = (sample_env net)\<lparr>env_times_out := \<lambda>_ _ w. Some (fst w + 20000, snd w)\<rparr>"

lemma sample_clock_runs: "clock_runs sample_sim"
  by (simp add: clock_runs_def sample_sim_def)

lemma sample_returning:
  "local_calls_return (timed_env silent_peers) sample_sim" "sleeps_return sample_sim"
  "direct_calls_bounded (timed_env silent_peers) sample_sim" "nodes_answer (timed_env silent_peers) sample_sim"
  by (simp_all add: local_calls_return_def sleeps_return_def direct_calls_bounded_def nodes_answer_def timed_env_def
      sample_env_def sample_sim_def silent_peers_def)

theorem peer_always_ends_witness:
  "snd (snd (snd (call_direct silent_peers (env_ack (timed_env silent_peers)) 0 [] (0, \<lambda>_. None, False))))
   \<and> (\<exists>r. peer_main sample_bip39 ''abc'' (timed_env silent_peers) sample_sim (\<lambda>_ w. (Ok (), w)) (\<lambda>_. empty_store True)
        [''nat_sim_peer'', ''--role'', ''a''] (0, \<lambda>_. None, False) = Some r \<and> (r = Ok () \<or> r = Err 1 \<or> r = Panic))"
proof (rule conjI)
  show "snd (snd (snd (call_direct silent_peers (env_ack (timed_env silent_peers)) 0 [] (0, \<lambda>_. None, False))))"
    by (simp add: call_direct_def silent_peers_def and_then_def lift_outcome_def timed_env_def sample_env_def NODE_ALPN_def
        DIRECT_ALPN_def fail_def)
  show "\<exists>r. peer_main sample_bip39 ''abc'' (timed_env silent_peers) sample_sim (\<lambda>_ w. (Ok (), w)) (\<lambda>_. empty_store True)
        [''nat_sim_peer'', ''--role'', ''a''] (0, \<lambda>_. None, False) = Some r \<and> (r = Ok () \<or> r = Err 1 \<or> r = Panic)"
    by (rule peer_always_ends[OF sample_clock_runs sample_returning]) (simp add: sample_sim_def)
qed

text \<open>
  The condition on the nodes is needed. A peer whose contact cannot be reached directly, and whose own
  node takes the delivery it is handed and never answers, waits for ever, holding the send lock.
\<close>

definition silent_node :: "(nat, sample_world) network" where
  "silent_node = \<lparr>net_connect = \<lambda>_ alpn w. if alpn = NODE_ALPN then (Ok (), w) else (Err (Connect []), w),
     net_exchange = \<lambda>_ _ _ _ w. (Ok [], fst w, fst (snd w), True)\<rparr>"

lemma silent_node_handover:
  assumes "contact_transport_key contact = Some k" and "length ct \<le> 4092"
  shows "deliver_direct (sample_env silent_node) contact otype ct lam at mid (sample_client s (Some 0) (t, fs, False))
    = (Ok Sent, sample_client s (Some 0) (t, fs, True))"
proof -
  let ?c = "sample_client s (Some 0) (t, fs, False)"
  obtain b where b: "envelope_bytes_of (sample_env silent_node) otype ct 0 lam at mid ?c = (Ok b, ?c)"
    by (rule sample_envelope_bytes[OF assms(2)])
  have "attempt (try_direct (sample_env silent_node) (length k) b) ?c
      = (Ok (Err (TransportErr (Connect []))) :: (_, CoreError) outcome, ?c)"
    by (simp add: attempt_def try_direct_def call_direct_def and_then_def silent_node_def NODE_ALPN_def DIRECT_ALPN_def)
  moreover have "attempt (schedule_retry (sample_env silent_node) 0 mid k b) ?c
      = (Ok (Ok ()) :: (_, CoreError) outcome, sample_client s (Some 0) (t, fs, True))"
    by (simp add: attempt_def schedule_retry_def call_node_def call_def and_then_def lift_outcome_def expect_ok_def pure_def
        silent_node_def sample_env_def sample_client_def)
  ultimately show ?thesis
    using b assms(1) by (simp add: deliver_direct_def and_then_def require_def lift_outcome_def pure_def)
qed

lemma unanswered_handover_hangs:
  "send_and_confirm (sample_env silent_node) sample_sim 1 RoleA (sample_client (paired_store None) (Some 0) (0, fs, False)) = None"
proof -
  let ?e = "sample_env silent_node" and ?s = "snd (set_contact_pending_otk 1 None (paired_store None))"
  have clock: "local_clock ?s = Integer 0" by (simp add: set_contact_pending_otk_def update_contact_def)
  have "\<exists>r c'. deliver_in_session ?e 1 (contact_of (paired_row None)) (Chat t) () (sample_client ?s (Some 0) (0, fs, False)) = (r, c')
     \<and> cl_world c' = (0, fs, True)" if "length t \<le> 4000" for t
    unfolding deliver_in_session_def using that
    by (simp add: and_then_def sample_encrypt sample_world_do sample_tick[OF clock] silent_node_handover)
      (auto simp: save_session_def and_then_def lift_outcome_def store_do_def pure_def Let_def split: prod.splits outcome.splits)
  then have "\<exists>r c'. deliver ?e 1 (Chat t) (sample_client (paired_store None) (Some 0) (0, fs, False)) = (r, c')
     \<and> cl_world c' = (0, fs, True)" if "length t \<le> 4000" for t
    using that by (simp add: deliver_def and_then_def paired_contact paired_open_session)
  moreover have "length (as_bytes (''hello from '' @ role_str RoleA)) \<le> 4000" by (simp add: as_bytes_def)
  ultimately obtain r c' where
    "deliver ?e 1 (Chat (as_bytes (''hello from '' @ role_str RoleA))) (sample_client (paired_store None) (Some 0) (0, fs, False)) = (r, c')"
    "cl_world c' = (0, fs, True)" by blast
  then have "cl_world (snd (send ?e 1 (as_bytes (''hello from '' @ role_str RoleA)) (sample_client (paired_store None) (Some 0) (0, fs, False))))
      = (0, fs, True)"
    by (cases r) (simp_all add: send_def and_then_def store_do_def case_prod_beta)
  then show ?thesis by (simp add: send_and_confirm_def awaited_def case_prod_beta sample_sim_def)
qed

lemma payload_published_whole_witness:
  "\<exists>c'. write_own_payload sample_sim ''d'' RoleA (nonce_payload [1, 2]) (sample_client (empty_store True) None (0, \<lambda>_. None, False))
       = Some (Ok (), c')
     \<and> sim_files sample_sim (cl_world c') ''d/a.json'' = Some [1, 2]"
proof -
  let ?c = "sample_client (empty_store True) None (0, \<lambda>_. None, False) :: (unit, nat, sample_world) client"
  have enc: "enc (sim_payload sample_sim) (nonce_payload [1, 2]) = Inr [1, 2]"
    by (simp add: sample_sim_def nonce_payload_def)
  obtain c' where c': "write_own_payload sample_sim ''d'' RoleA (nonce_payload [1, 2]) ?c = Some (Ok (), c')"
    by (simp add: write_own_payload_def run_then_def expecting_def lift_outcome_def enc fs_write_def fs_rename_def)
      (simp add: sample_sim_def expecting_def fs_rename_def)
  have lens: "\<And>fs w. sim_files sample_sim (sim_set_files sample_sim fs w) = fs" by (simp add: sample_sim_def)
  have codec: "codec_roundtrip (sim_payload sample_sim)" by (auto simp: codec_roundtrip_def sample_sim_def split: if_splits)
  have "json_file ''d'' RoleA = ''d/a.json''" by (simp add: json_file_def path_join_def)
  with payload_published_whole[OF c' lens codec] enc c' show ?thesis by auto
qed

end
