(* ===== verification/Size_Limits.thy ===== *)
theory Size_Limits
  imports End_To_End
begin

text \<open>
  What the limit on the size of one message of the node protocol
  (\<^verbatim>\<open>MAX_MESSAGE_SIZE\<close> of \<^verbatim>\<open>crates/pm-proto/src/node_protocol.rs\<close>) means for the parts
  that use it: \<^verbatim>\<open>Fetch\<close> answers with everything that was ever stored, and
  \<^verbatim>\<open>PutBackup\<close> carries the whole history in one request.
\<close>

section \<open>A full mailbox\<close>

text \<open>The bytes of all stored blobs, which no request makes fewer.\<close>

definition stored_bytes :: "node_db \<Rightarrow> nat" where
  "stored_bytes db = length (concat (map br_blob (blobs db)))"

lemma map_blob_fold_ack_one [simp]: "map br_blob (fold ack_one ids rows) = map br_blob rows"
  by (induction ids arbitrary: rows) (simp_all add: ack_one_def map_update_where)

lemma handle_stored: "stored_bytes db \<le> stored_bytes (snd (handle sha key now req db))"
  by (cases req)
    (auto simp: register_slot_def ack_def put_backup_def schedule_def take_failed_def stored_bytes_def store_write_def Let_def
      split: prod.splits outcome.splits WriteError.splits)

lemma serve_stored: "stored_bytes (mh_db h) \<le> stored_bytes (mh_db (serve sha rq rs conn h))"
  by (cases rule: accept_db[of sha rq rs "conn_at conn" "conn_remote conn" "conn_bytes conn" h])
    (simp_all add: serve_def handle_stored)

lemma serve_all_stored: "stored_bytes (mh_db h) \<le> stored_bytes (mh_db (serve_all sha rq rs cs h))"
proof (induction cs arbitrary: h)
  case (Cons conn cs)
  then show ?case
    using serve_stored[of h sha rq rs conn] order_trans by (fastforce simp: serve_all_def)
qed (simp add: serve_all_def)

lemma length_concat_sort_key: "length (concat (map f (sort_key k xs))) = length (concat (map f xs))"
proof -
  have "mset (map (length \<circ> f) (sort_key k xs)) = mset (map (length \<circ> f) xs)" by (simp only: mset_map mset_sort)
  then have "sum_list (map (length \<circ> f) (sort_key k xs)) = sum_list (map (length \<circ> f) xs)"
    by (metis sum_mset_sum_list)
  then show ?thesis by (simp add: length_concat)
qed

lemma fetched_bytes: "length (concat (map blob_data (fetch_all db))) = stored_bytes db"
  by (simp add: fetch_all_def row_to_blob_def o_def stored_bytes_def length_concat_sort_key)

text \<open>bincode writes every byte of a blob.\<close>

definition carries_blobs :: "NodeResponse codec \<Rightarrow> bool" where
  "carries_blobs rs \<longleftrightarrow>
     (\<forall>bs out. enc rs (Blobs bs) = Inr out \<longrightarrow> length (concat (map blob_data bs)) \<le> length out)"

lemma answer_Fetch_eq:
  "answer sha now me (Inr (Fetch k)) h =
     (Ok (if k \<noteq> mh_mailbox_key h then not_the_owner else Blobs (fetch_all (mh_db h))), h)"
  by (simp add: answer_def)

text \<open>A call, by what the node makes of the request.\<close>

lemma call_node_eq:
  assumes "talks_to_node e now me" and "enc (env_request e) req = Inr b"
    and "accept (env_sha256 e) (env_request e) (env_response e) now me b (cl_world c) = (r, h')"
  shows "call_node e addr req c =
    (case r of
       Ok rb \<Rightarrow> if MAX_MESSAGE_SIZE < length rb then Err (TransportErr (Stream ''too long''))
               else map_err TransportErr (or_err Codec (dec (env_response e) rb))
     | _ \<Rightarrow> Err (TransportErr (Stream ''closed'')), c\<lparr>cl_world := h'\<rparr>)"
  using assms
  by (auto simp: talks_to_node_def call_node_def call_def and_then_def node_network_def lift_outcome_def split: outcome.split)

lemma call_node_unencodable:
  assumes "talks_to_node e now me" and "enc (env_request e) req = Inl x"
  shows "call_node e addr req c = (Err (TransportErr (Codec x)), c)"
  using assms by (simp add: talks_to_node_def call_node_def call_def and_then_def node_network_def lift_outcome_def)

lemma overfull_call:
  assumes node: "talks_to_node e now me" and carries: "carries_blobs (env_response e)"
    and full: "MAX_MESSAGE_SIZE < stored_bytes (mh_db (cl_world c))"
  shows "(\<exists>err. call_node e addr (Fetch k) c = (Err (TransportErr err), c)) \<or> call_node e addr (Fetch k) c = (Ok not_the_owner, c)"
proof (cases "enc (env_request e) (Fetch k)")
  case (Inl x)
  then show ?thesis using call_node_unencodable[OF node] by blast
next
  case (Inr b)
  let ?resp = "if k \<noteq> mh_mailbox_key (cl_world c) then not_the_owner else Blobs (fetch_all (mh_db (cl_world c)))"
  have dec: "dec (env_request e) b = Inr (Fetch k)" using codec_roundtripD[OF _ Inr] node by (simp add: talks_to_node_def)
  have acc: "accept (env_sha256 e) (env_request e) (env_response e) now me b (cl_world c) =
    (if MAX_MESSAGE_SIZE < length b then Err TooLong
     else case enc (env_response e) ?resp of Inl x \<Rightarrow> Panic | Inr bs \<Rightarrow> Ok bs, cl_world c)"
    by (simp add: accept_def and_then_def dec answer_Fetch_eq split: sum.splits)
  show ?thesis
  proof (cases "k = mh_mailbox_key (cl_world c)")
    case True
    then have "MAX_MESSAGE_SIZE < length rb" if "enc (env_response e) ?resp = Inr rb" for rb
      using that carries full fetched_bytes[of "mh_db (cl_world c)"] unfolding carries_blobs_def by fastforce
    then show ?thesis using call_node_eq[OF node Inr acc] by (auto split: sum.splits)
  next
    case False
    then have "dec (env_response e) rb = Inr not_the_owner" if "enc (env_response e) not_the_owner = Inr rb" for rb
      using codec_roundtripD[OF _ that] node by (simp add: talks_to_node_def)
    with False show ?thesis using call_node_eq[OF node Inr acc, of addr] by (auto split: sum.splits)
  qed
qed

text \<open>
  C20: a mailbox that has grown over the limit can never be synchronised again. Once the blobs a node
  has stored are together longer than 1 MiB, the answer to \<^verbatim>\<open>Fetch\<close> is longer than a client
  reads, delivered or not; no request makes the stored blobs fewer. So whatever requests the node
  serves from then on, every synchronisation of its owner fails, receives nothing, and acknowledges
  nothing.
\<close>

theorem full_mailbox_stops_sync:
  assumes "talks_to_node e now me" and "carries_blobs (env_response e)"
    and "MAX_MESSAGE_SIZE < stored_bytes (mh_db h)"
    and "cl_world c = serve_all (env_sha256 e) (env_request e) (env_response e) cs h"
  shows "\<exists>err. sync e c = (Err err, c)"
proof -
  have full: "MAX_MESSAGE_SIZE < stored_bytes (mh_db (cl_world c))"
    using assms(3,4) serve_all_stored order.strict_trans2 by metis
  show ?thesis
  proof (cases "cl_server_addr c")
    case None
    then show ?thesis by (simp add: sync_def and_then_def require_def lift_outcome_def)
  next
    case (Some addr)
    then show ?thesis
      using overfull_call[OF assms(1,2) full, of addr "mailbox_key (cl_identity c)"]
      by (auto simp: sync_def and_then_def require_def lift_outcome_def not_the_owner_def fail_def)
  qed
qed

text \<open>
  A codec that writes the bytes of a single blob, and a node that holds one blob that is too long.
\<close>

definition full_blob :: "bytes \<Rightarrow> StoredBlob" where
  "full_blob b = \<lparr>blob_id = 1, blob_data = b, blob_delivered = True\<rparr>"

definition full_response :: "NodeResponse codec" where
  "full_response =
     \<lparr>enc = \<lambda>r. (case r of Blobs [b] \<Rightarrow> if b = full_blob (blob_data b) then Inr (blob_data b) else Inl [] | _ \<Rightarrow> Inl []),
      dec = \<lambda>bs. Inr (Blobs [full_blob bs])\<rparr>"

lemma full_response_ok: "codec_roundtrip full_response" "carries_blobs full_response"
  by (auto simp: codec_roundtrip_def carries_blobs_def full_response_def split: NodeResponse.splits list.splits if_splits)

definition full_env :: "(unit, unit, unit, nat, string MailboxHandler) env" where
  "full_env = (sample_env (node_network (\<lambda>b. b) mail_request full_response 0 ''bob''))\<lparr>
     env_request := mail_request, env_response := full_response\<rparr>"

definition full_node :: "string MailboxHandler" where
  "full_node = mail_node\<lparr>mh_db := (mh_db mail_node)\<lparr>blobs :=
     [\<lparr>br_id = 1, br_blob = replicate (Suc MAX_MESSAGE_SIZE) 7, br_delivered = 1\<rparr>]\<rparr>\<rparr>"

theorem full_mailbox_stops_sync_witness:
  "\<exists>err. sync full_env (sample_client (session_store None) (Some 0) full_node)
     = (Err err, sample_client (session_store None) (Some 0) full_node)"
proof (rule full_mailbox_stops_sync[where cs = "[]" and h = full_node])
  show "talks_to_node full_env 0 ''bob''" "carries_blobs (env_response full_env)"
    by (simp_all add: talks_to_node_def full_env_def full_response_ok mail_codecs sample_env_def)
  show "MAX_MESSAGE_SIZE < stored_bytes (mh_db full_node)" by (simp add: stored_bytes_def full_node_def)
qed (simp add: serve_all_def sample_client_def)

section \<open>A large history\<close>

text \<open>bincode writes every byte of a backup, and the cipher adds a tag to what it encrypts.\<close>

definition carries_backups :: "NodeRequest codec \<Rightarrow> bool" where
  "carries_backups rq \<longleftrightarrow> (\<forall>k b out. enc rq (PutBackup k b) = Inr out \<longrightarrow> length b \<le> length out)"

definition adds_tag :: "aead \<Rightarrow> bool" where
  "adds_tag a \<longleftrightarrow> (\<forall>k n p ct. aead_encrypt a k n p = Some ct \<longrightarrow> length ct = length p + 16)"

lemma backup_bucket_jumps: "524280 < n \<Longrightarrow> MAX_MESSAGE_SIZE \<le> backup_bucket n"
proof -
  assume "524280 < n"
  then have gt: "2 ^ 19 < backup_bucket n" using backup_bucket_ge[of n] by simp
  obtain k where k: "backup_bucket n = 2 ^ k" using backup_bucket_power by blast
  from gt k have "19 < k" using power_less_imp_less_exp[of "2::nat" 19 k] by simp
  then have "(2::nat) ^ 20 \<le> 2 ^ k" by (intro power_increasing) simp_all
  with k show ?thesis by (simp add: MAX_MESSAGE_SIZE_def)
qed

lemma large_backup_blob:
  assumes "adds_tag a" and "encrypt_backup a key nonce pt = Ok blob" and "524280 < length pt"
  shows "MAX_MESSAGE_SIZE < length blob"
proof -
  from assms(2) obtain p ct where "backup_pad pt = Ok p" "aead_encrypt a key nonce p = Some ct" "blob = nonce @ ct"
    by (auto simp: encrypt_backup_def bind_outcome_Ok_iff split: option.splits)
  moreover from this(1) have "length p = backup_bucket (length pt)"
    by (auto simp: backup_pad_def Let_def split: if_splits)
  ultimately show ?thesis
    using assms(1) backup_bucket_jumps[OF assms(3)] unfolding adds_tag_def by fastforce
qed

lemma oversized_call:
  assumes "talks_to_node e now me" and "\<And>out. enc (env_request e) req = Inr out \<Longrightarrow> MAX_MESSAGE_SIZE < length out"
  shows "\<exists>err. call_node e addr req c = (Err (TransportErr err), c)"
proof (cases "enc (env_request e) req")
  case (Inl x)
  then show ?thesis using call_node_unencodable[OF assms(1)] by blast
next
  case (Inr b)
  then have "accept (env_sha256 e) (env_request e) (env_response e) now me b (cl_world c) = (Err TooLong, cl_world c)"
    using assms(2) by (simp add: accept_def and_then_def)
  from call_node_eq[OF assms(1) Inr this] show ?thesis by simp
qed

text \<open>
  C21: a backup on the node has a size limit. The padded backup is sent to the node in one
  request, which the node reads up to 1 MiB; the padding doubles, so as soon as the serialised
  contacts and history are longer than 524280 bytes the request is too long. Pushing the backup
  then fails, whatever the state of the node, and leaves the device and the node as they were: an
  older backup stays in place.
\<close>

theorem large_history_cannot_be_pushed:
  assumes "talks_to_node e now me" and "reads_only e" and "carries_backups (env_request e)" and "adds_tag (env_aead e)"
    and "assemble (cl_store c) = (Ok bundle, cl_store c)" and "bundle_serialize (env_bundle e) bundle = Ok pt"
    and "524280 < length pt"
  shows "\<exists>r. push_backup e c = (r, c) \<and> r \<noteq> Ok ()"
proof -
  define nonce where "nonce = fst (env_random e NONCE_LEN (cl_world c))"
  have "env_random e NONCE_LEN (cl_world c) = (nonce, cl_world c)"
    using assms(2) by (simp add: reads_only_def nonce_def prod_eq_iff)
  then have bun: "encrypted_bundle e c =
      (map_err Crypto (encrypt_backup (env_aead e) (backup_key (cl_identity c)) nonce pt), c)"
    using assms(5,6) by (simp add: encrypted_bundle_def and_then_def lift_outcome_def world_do_def)
  have call: "\<exists>err. call_node e addr (PutBackup k blob) c = (Err (TransportErr err), c)"
    if "encrypt_backup (env_aead e) (backup_key (cl_identity c)) nonce pt = Ok blob" for addr k blob
    using oversized_call[OF assms(1)] large_backup_blob[OF assms(4) that assms(7)] assms(3)
    unfolding carries_backups_def by (meson order.strict_trans2)
  show ?thesis
  proof (cases "cl_server_addr c")
    case (Some addr)
    show ?thesis
    proof (cases "encrypt_backup (env_aead e) (backup_key (cl_identity c)) nonce pt")
      case (Ok blob)
      from call[OF this] obtain err where "call_node e addr (PutBackup (mailbox_key (cl_identity c)) blob) c
          = (Err (TransportErr err), c)" by blast
      with Ok bun Some show ?thesis by (simp add: push_backup_def and_then_def require_def lift_outcome_def)
    qed (simp_all add: push_backup_def and_then_def require_def lift_outcome_def bun Some)
  qed (simp add: push_backup_def and_then_def require_def lift_outcome_def)
qed

definition large_env :: "(unit, unit, unit, nat, string MailboxHandler) env" where
  "large_env = alice_env\<lparr>env_bundle := single_codec (bundle_of alice_store alice_account 0) (replicate 600000 5)\<rparr>"

theorem large_history_cannot_be_pushed_witness:
  "\<exists>r. push_backup large_env alice_client = (r, alice_client) \<and> r \<noteq> Ok ()"
proof (rule large_history_cannot_be_pushed)
  have "env_request large_env = alice_request" by (simp add: large_env_def alice_env_def)
  then show "talks_to_node large_env 0 ''alice''" "carries_backups (env_request large_env)"
    by (simp_all add: talks_to_node_def large_env_def alice_env_def alice_codecs sample_env_def)
      (simp add: carries_backups_def alice_request_def)
  show "reads_only large_env" "adds_tag (env_aead large_env)"
    by (simp_all add: large_env_def alice_env_def sample_env_def reads_only_def adds_tag_def sample_aead_def)
  show "assemble (cl_store alice_client) = (Ok (bundle_of alice_store alice_account 0), cl_store alice_client)"
    using assemble_ok[OF alice_store_ok] by (simp add: alice_client_def)
  show "bundle_serialize (env_bundle large_env) (bundle_of alice_store alice_account 0) = Ok (replicate 600000 5)"
    by (simp add: bundle_serialize_def large_env_def single_codec_def)
  show "524280 < length (replicate 600000 (5 :: byte))" by (simp only: length_replicate)
qed

end
