(* ===== verification/Conversation.thy ===== *)
theory Conversation
  imports Failure_Reports
begin

text \<open>
  Several messages in one conversation: a client sends a list of messages through the recipient's
  node, and the recipient reads all of them in one synchronisation, each with the state the Olm
  session is in after the one before.
\<close>

section \<open>A channel over several messages\<close>

text \<open>Reading moves a reader on: a session is advanced, an account gives the new session.\<close>

fun moves :: "('acc, 'ses, 'r) vodozemac \<Rightarrow> byte \<Rightarrow> bytes \<Rightarrow> bytes \<Rightarrow> ('acc, 'ses) reader \<Rightarrow> ('acc, 'ses) reader \<Rightarrow> bool" where
  "moves v otype ct pt (InSession ses) rd' \<longleftrightarrow>
     (\<exists>ses'. session_decrypt v otype ct ses = (Ok pt, ses') \<and> rd' = InSession ses')"
| "moves v otype ct pt (Opening key acc) rd' \<longleftrightarrow>
     (\<exists>ses acc'. accept_incoming v key otype ct acc = (Ok (ses, pt), acc') \<and> rd' = InSession ses)"

text \<open>
  What Olm documents of a whole conversation in one direction: the two ends \<open>L\<close> that belong
  together read what the other has encrypted and belong together again afterwards, and the other
  readers refuse all of it, also after the account has given up the one-time key it was opened with.
\<close>

definition olm_link ::
  "('acc, 'ses, 'r) vodozemac \<Rightarrow> ('ses \<Rightarrow> ('acc, 'ses) reader \<Rightarrow> bool) \<Rightarrow> ('acc, 'ses) reader set \<Rightarrow> bool" where
  "olm_link v L others \<longleftrightarrow>
     (\<forall>ses rd r pt otype ct ses'. L ses rd \<and> session_encrypt v r pt ses = (Ok (otype, ct), ses')
        \<longrightarrow> (\<exists>rd'. moves v otype ct pt rd rd' \<and> L ses' rd') \<and> (\<forall>x \<in> others. refuses v otype ct x))
   \<and> (\<forall>key otype ct acc r acc' k. accept_incoming v key otype ct acc = (Ok r, acc') \<and> Opening k acc \<in> others
        \<longrightarrow> Opening k acc' \<in> others)"

section \<open>Sending several messages\<close>

text \<open>What a delivery leaves alone: the addresses of the contacts and the history.\<close>

definition same_routes :: "('acc, 'addr, 'w) client \<Rightarrow> ('acc, 'addr, 'w) client \<Rightarrow> bool" where
  "same_routes c c' \<longleftrightarrow> messages (cl_store c') = messages (cl_store c)
     \<and> map (\<lambda>r. (c_id r, c_server_addr r)) (contacts (cl_store c')) = map (\<lambda>r. (c_id r, c_server_addr r)) (contacts (cl_store c))"

lemma same_routes_update:
  assumes "\<And>r. c_id (f r) = c_id r \<and> c_server_addr (f r) = c_server_addr r"
  shows "keeps same_routes (store_do (update_contact cid f))"
  using assms by (intro keepsI) (simp add: same_routes_def store_do_def update_contact_def update_where_def)

interpretation ro: client_order same_routes
proof unfold_locales
  fix cid
  show "keeps same_routes (store_do (increment_and_get_next_write_n cid))"
    by (rule keepsI) (auto simp: same_routes_def store_do_def increment_and_get_next_write_n_def and_then_def
        update_contact_def update_where_def Let_def split: option.splits)
qed (auto intro!: keepsI simp: same_routes_def store_do_def tick_lamport_def current_def Let_def split: option.splits)

lemma same_routes_store:
  "keeps same_routes (store_do (load_session_pickle cid))" "keeps same_routes (store_do (save_session_pickle cid p))"
  "keeps same_routes (store_do (get_contact cid))" "keeps same_routes (store_do (set_contact_pending_otk cid otk))"
  by (auto intro!: keepsI same_routes_update simp: same_routes_def store_do_def load_session_pickle_def save_session_pickle_def
      get_contact_def list_contacts_def and_then_def set_contact_pending_otk_def split: outcome.splits)

lemma deliver_same_routes: "keeps same_routes (deliver e cid payload)"
  unfolding deliver_def deliver_in_session_def client_get_contact_def open_session_def save_session_def
  by (auto intro!: ro.keeps_intros ro.keeps_delivery same_routes_store split: option.splits)

text \<open>Every contact row with the id has an address, so the message goes to the node at it.\<close>

definition routed :: "i64 \<Rightarrow> ('acc, 'addr, 'w) client \<Rightarrow> bool" where
  "routed cid c \<longleftrightarrow> (\<forall>r \<in> set (contacts (cl_store c)). c_id r = cid \<longrightarrow> c_server_addr r \<noteq> None)"

lemma routed_same: "same_routes c c' \<Longrightarrow> routed cid c' = routed cid c"
proof -
  have eq: "routed cid c \<longleftrightarrow> (\<forall>p \<in> set (map (\<lambda>r. (c_id r, c_server_addr r)) (contacts (cl_store c))).
      fst p = cid \<longrightarrow> snd p \<noteq> None)" for c :: "('a, 'b, 'c) client" by (auto simp: routed_def)
  assume "same_routes c c'"
  then show ?thesis by (simp only: eq same_routes_def)
qed

lemma routed_contact:
  assumes "routed cid c" and "client_get_contact cid c = (Ok contact, c')"
  shows "\<exists>ab. server_addr contact = Some ab"
  by (rule client_get_contact_OkE[OF assms(2)]) (use assms(1) in \<open>auto simp: routed_def row_to_contact_def bind_outcome_Ok_iff\<close>)

lemma routed_of_contact:
  assumes "store_wf (cl_store c)" and "client_get_contact cid c = (Ok contact, c)" and "server_addr contact = Some ab"
  shows "routed cid c"
proof -
  obtain r where r: "r \<in> set (contacts (cl_store c))" "row_to_contact r = Ok contact" "c_id r = cid"
    using client_get_contact_OkE[OF assms(2)] by metis
  then have "c_server_addr r = Some ab" using assms(3) by (auto simp: row_to_contact_def bind_outcome_Ok_iff)
  moreover have "x = r" if "x \<in> set (contacts (cl_store c))" "c_id x = cid" for x
    using that r assms(1) by (metis store_wf_def distinct_map inj_onD)
  ultimately show ?thesis by (auto simp: routed_def)
qed

text \<open>A saved session is the one the next delivery is encrypted in.\<close>

lemma open_session_saved:
  assumes "session_at e cid (cl_store c) ses"
  shows "open_session e cid contact c = (Ok ses, c)"
  using assms by (auto simp: session_at_def open_session_def and_then_def store_do_def lift_outcome_def)

text \<open>The session the next delivery is made in, saved or opened for it, belongs to the reader.\<close>

definition linked_to ::
  "('acc, 'ses, 'r, 'addr, 'w) env \<Rightarrow> i64 \<Rightarrow> ('acc, 'addr, 'w) client \<Rightarrow> ('ses \<Rightarrow> ('acc, 'ses) reader \<Rightarrow> bool)
    \<Rightarrow> ('acc, 'ses) reader \<Rightarrow> bool" where
  "linked_to e cid c L rd \<longleftrightarrow> (\<forall>contact sa c1. client_get_contact cid c = (Ok contact, c)
     \<longrightarrow> open_session e cid contact c = (Ok sa, c1) \<longrightarrow> L sa rd)"

text \<open>
  What the node holds after several sends: the bytes, the envelope in them and the text it is for.
  It is legible to a reader that reads one after the other.
\<close>

type_synonym letter = "bytes \<times> Envelope \<times> bytes"

fun legible :: "('acc, 'ses, 'r, 'addr, 'w) env \<Rightarrow> ('acc, 'ses) reader set \<Rightarrow> ('acc, 'ses) reader \<Rightarrow> letter list \<Rightarrow> bool" where
  "legible e others rd [] \<longleftrightarrow> True"
| "legible e others rd ((blob, v, t) # xs) \<longleftrightarrow> from_padded_bytes (env_envelope e) blob = Ok v
     \<and> (\<forall>x \<in> others. refuses (env_olm e) (olm_type v) (ciphertext v) x)
     \<and> (\<exists>pt rd'. payload_deserialize (env_payload e) pt = Some (Chat t)
          \<and> moves (env_olm e) (olm_type v) (ciphertext v) pt rd rd' \<and> legible e others rd' xs)"

fun new_rows :: "int \<Rightarrow> bytes list \<Rightarrow> blob_row list" where
  "new_rows n [] = []"
| "new_rows n (b # bs) = \<lparr>br_id = n + 1, br_blob = b, br_delivered = 0\<rparr> # new_rows (n + 1) bs"

text \<open>The sender's own row for a letter.\<close>

definition sent_row :: "i64 \<Rightarrow> letter \<Rightarrow> message_row" where
  "sent_row cid x = (case x of (blob, v, t) \<Rightarrow> \<lparr>m_contact_id = cid, m_msg_id = env_msg_id v, m_direction = ''outgoing'',
     m_lamport = as_i64 (env_lamport v), m_sent_at = as_i64 (env_sent_at v), m_plaintext = t, m_status = Some ''sent''\<rparr>)"

lemma store_write_appends:
  assumes "store_write sha a b db = (Ok i, db')" and "mailbox_wf db"
  shows "blobs db' = blobs db @ new_rows (blobs_seq db) [b] \<and> blobs_seq db' = blobs_seq db + 1
    \<and> mailbox_wf db' \<and> blobs_seq db < i64_max"
  using assms(1) store_write_wf[OF assms(2), of sha a b]
  by (auto simp: store_write_def Let_def split: if_splits)

lemma send_reaches_node:
  assumes node: "talks_to_node a now me" and reads: "reads_only a" and formats: "same_formats a b"
    and codec: "codec_roundtrip (ses_json (env_olm a))" and link: "olm_link (env_olm a) L others"
    and route: "routed cid c" and wf: "mailbox_wf (mh_db (cl_world c))"
    and start: "linked_to a cid c L rd"
    and send: "send a cid t c = (Ok (), c')"
  obtains blob v pt rd' sa where "from_padded_bytes (env_envelope b) blob = Ok v"
    and "\<forall>x \<in> others. refuses (env_olm b) (olm_type v) (ciphertext v) x"
    and "payload_deserialize (env_payload b) pt = Some (Chat t)"
    and "moves (env_olm b) (olm_type v) (ciphertext v) pt rd rd'" and "L sa rd'"
    and "session_at a cid (cl_store c') sa" and "routed cid c'" and "mailbox_wf (mh_db (cl_world c'))"
    and "blobs (mh_db (cl_world c')) = blobs (mh_db (cl_world c)) @ new_rows (blobs_seq (mh_db (cl_world c))) [blob]"
    and "blobs_seq (mh_db (cl_world c')) = blobs_seq (mh_db (cl_world c)) + 1"
    and "blobs_seq (mh_db (cl_world c)) < i64_max"
    and "messages (cl_store c') = messages (cl_store c) @ [sent_row cid (blob, v, t)]"
proof -
  from send obtain mid lam at st d where dl: "deliver a cid (Chat t) c = (Ok (mid, lam, at, st), d)"
    and ins: "store_do (insert_message cid \<lparr>nm_msg_id = mid, nm_direction = Outgoing, nm_lamport = lam,
        nm_sent_at = at, nm_plaintext = t, nm_status = Some st\<rparr>) d = (Ok (), c')"
    by (auto simp: send_def and_then_Ok_iff)
  from dl obtain contact sa s1 where contact: "client_get_contact cid c = (Ok contact, c)"
    and ses: "open_session a cid contact c = (Ok sa, s1)"
    by (auto simp: deliver_def and_then_Ok_iff elim: client_get_contact_OkE)
  obtain ab where addr: "server_addr contact = Some ab" using routed_contact[OF route contact] by blast
  from deliver_reaches_node[OF node reads contact addr ses dl] obtain r pt otype ct sa' n blob au i where
    pt: "payload_serialize (env_payload a) (Chat t) = Ok pt"
    and enc: "session_encrypt (env_olm a) r pt sa = (Ok (otype, ct), sa')"
    and blob: "to_padded_bytes (env_envelope a) (Envelope_new otype ct n lam at mid) = Ok blob"
    and wr: "store_write (env_sha256 a) au blob (mh_db (cl_world c)) = (Ok i, mh_db (cl_world d))"
    and st: "st = Sent" and sat: "session_at a cid (cl_store d) sa'"
    using codec by metis
  let ?v = "Envelope_new otype ct n lam at mid"
  note fm = formats[unfolded same_formats_def]
  have v: "olm_type ?v = otype" "ciphertext ?v = ct" by (simp_all add: Envelope_new_def)
  obtain rd' where rd': "moves (env_olm a) otype ct pt rd rd'" "L sa' rd'" and ref: "\<forall>x \<in> others. refuses (env_olm a) otype ct x"
    using link start contact ses enc unfolding olm_link_def linked_to_def by metis
  have same: "same_routes c d" using keeps_run[OF deliver_same_routes dl] .
  have ins': "messages (cl_store c') = messages (cl_store d) @ [sent_row cid (blob, ?v, t)]"
    "contacts (cl_store c') = contacts (cl_store d)" "sessions (cl_store c') = sessions (cl_store d)" "cl_world c' = cl_world d"
    using ins st by (auto simp: store_do_def insert_message_def sent_row_def Envelope_new_def split: if_splits)
  note stored = store_write_appends[OF wr wf]
  show ?thesis
  proof (rule that[of blob ?v pt rd' sa'])
    show "from_padded_bytes (env_envelope b) blob = Ok ?v" using from_to_padded_bytes[OF _ blob] fm by simp
    show "payload_deserialize (env_payload b) pt = Some (Chat t)" using payload_roundtrip[OF _ pt] fm by simp
    show "session_at a cid (cl_store c') sa'" using sat ins'(3) by (simp add: session_at_def load_session_pickle_def)
    show "routed cid c'" using route routed_same[OF same] ins'(2) by (simp add: routed_def)
  qed (use rd' ref fm v stored ins' same in \<open>simp_all add: same_routes_def\<close>)
qed

lemma sends_reach_node:
  assumes node: "talks_to_node a now me" and reads: "reads_only a" and formats: "same_formats a b"
    and codec: "codec_roundtrip (ses_json (env_olm a))" and link: "olm_link (env_olm a) L others"
    and "routed cid c" and "mailbox_wf (mh_db (cl_world c))"
    and "linked_to a cid c L rd"
    and "for_each (send a cid) ts c = (Ok (), c')"
  shows "\<exists>xs. map (snd \<circ> snd) xs = ts \<and> legible b others rd xs \<and> mailbox_wf (mh_db (cl_world c'))
    \<and> blobs (mh_db (cl_world c')) = blobs (mh_db (cl_world c)) @ new_rows (blobs_seq (mh_db (cl_world c))) (map fst xs)
    \<and> blobs_seq (mh_db (cl_world c')) = blobs_seq (mh_db (cl_world c)) + int (length xs)
    \<and> messages (cl_store c') = messages (cl_store c) @ map (sent_row cid) xs"
  using assms(6-9)
proof (induction ts arbitrary: c rd)
  case Nil
  then show ?case by (intro exI[of _ "[]"]) (simp add: pure_def)
next
  case (Cons t ts)
  from Cons.prems(4) obtain d where send: "send a cid t c = (Ok (), d)" and rest: "for_each (send a cid) ts d = (Ok (), c')"
    by (auto simp: and_then_Ok_iff)
  show ?case
  proof (rule send_reaches_node[OF node reads formats codec link Cons.prems(1-3) send])
    fix blob v pt rd' sa
    assume this1: "from_padded_bytes (env_envelope b) blob = Ok v"
      "\<forall>x \<in> others. refuses (env_olm b) (olm_type v) (ciphertext v) x"
      "payload_deserialize (env_payload b) pt = Some (Chat t)"
      "moves (env_olm b) (olm_type v) (ciphertext v) pt rd rd'"
      and link': "L sa rd'" and sat: "session_at a cid (cl_store d) sa"
      and d: "routed cid d" "mailbox_wf (mh_db (cl_world d))"
      and node_d: "blobs (mh_db (cl_world d)) = blobs (mh_db (cl_world c)) @ new_rows (blobs_seq (mh_db (cl_world c))) [blob]"
        "blobs_seq (mh_db (cl_world d)) = blobs_seq (mh_db (cl_world c)) + 1"
      and msgs: "messages (cl_store d) = messages (cl_store c) @ [sent_row cid (blob, v, t)]"
    have "linked_to a cid d L rd'" using link' open_session_saved[OF sat] by (simp add: linked_to_def)
    from Cons.IH[OF d this rest] obtain xs where xs: "map (snd \<circ> snd) xs = ts" "legible b others rd' xs"
      "mailbox_wf (mh_db (cl_world c'))"
      "blobs (mh_db (cl_world c')) = blobs (mh_db (cl_world d)) @ new_rows (blobs_seq (mh_db (cl_world d))) (map fst xs)"
      "blobs_seq (mh_db (cl_world c')) = blobs_seq (mh_db (cl_world d)) + int (length xs)"
      "messages (cl_store c') = messages (cl_store d) @ map (sent_row cid) xs" by blast
    from xs this1 have "legible b others rd ((blob, v, t) # xs)" by auto
    with xs node_d msgs show ?thesis by (intro exI[of _ "(blob, v, t) # xs"]) (simp add: o_def)
  qed
qed

section \<open>The blobs the recipient is told of\<close>

lemma new_rows_ids: "sorted_wrt (<) (map br_id (new_rows n bs)) \<and> (\<forall>r \<in> set (new_rows n bs). n < br_id r \<and> br_id r \<le> n + int (length bs))"
proof (induction bs arbitrary: n)
  case (Cons b bs)
  from Cons[of "n + 1"] show ?case by fastforce
qed simp

lemma new_rows_blobs [simp]: "map br_blob (new_rows n bs) = bs"
  by (induction bs arbitrary: n) simp_all

lemma as_u64_less: "0 \<le> m \<Longrightarrow> m < n \<Longrightarrow> n \<le> i64_max \<Longrightarrow> as_u64 m < as_u64 n"
  by (simp add: word_less_nat_alt unat_as_u64)

lemma only_new_blobs:
  assumes wf: "mailbox_wf db" and wf': "mailbox_wf db'" and app: "blobs db' = blobs db @ new_rows (blobs_seq db) bs"
    and seq: "blobs_seq db' = blobs_seq db + int (length bs)"
  shows "sort_key blob_id (filter (\<lambda>x. as_u64 (blobs_seq db) < blob_id x) (fetch_all db'))
    = map row_to_blob (new_rows (blobs_seq db) bs)"
proof -
  let ?new = "new_rows (blobs_seq db) bs"
  have max: "0 \<le> blobs_seq db" "blobs_seq db + int (length bs) \<le> i64_max"
    using wf wf' seq by (simp_all add: mailbox_wf_def)
  have old: "\<not> as_u64 (blobs_seq db) < as_u64 (br_id r)" if "r \<in> set (blobs db)" for r
  proof -
    have "0 < br_id r" "br_id r \<le> blobs_seq db" using that wf by (auto simp: mailbox_wf_def)
    then show ?thesis using max by (simp add: word_less_nat_alt unat_as_u64)
  qed
  have new: "as_u64 (blobs_seq db) < as_u64 (br_id r)" if "r \<in> set ?new" for r
    using that new_rows_ids[of "blobs_seq db" bs] max by (intro as_u64_less) auto
  have "fetch_all db' = map row_to_blob (blobs db @ ?new)" using fetch_all_unsorted[OF wf'] app by simp
  then have "filter (\<lambda>x. as_u64 (blobs_seq db) < blob_id x) (fetch_all db') = map row_to_blob ?new"
    using old new by (simp add: filter_map o_def row_to_blob_def)
  moreover have "sorted_wrt (<) (map (as_u64 \<circ> br_id) ?new)"
    using new_rows_ids[of "blobs_seq db" bs] max unfolding sorted_wrt_map
    by (elim conjE) (erule sorted_wrt_mono_rel[rotated], fastforce intro!: as_u64_less)
  then have "sorted (map blob_id (map row_to_blob ?new))"
    by (simp add: row_to_blob_def o_def strict_sorted_iff)
  ultimately show ?thesis by (simp add: sort_key_id_if_sorted)
qed

section \<open>Reading several messages\<close>

text \<open>Decrypting an envelope saves the session of its contact, and for a first message the account.\<close>

definition decrypted ::
  "('acc, 'ses, 'r, 'addr, 'w) env \<Rightarrow> Envelope \<Rightarrow> i64 \<Rightarrow> ('acc, 'addr, 'w) client \<Rightarrow> ('acc, 'addr, 'w) client \<Rightarrow> bool" where
  "decrypted e v cid c c' \<longleftrightarrow> contacts (cl_store c') = contacts (cl_store c) \<and> messages (cl_store c') = messages (cl_store c)
     \<and> local_clock (cl_store c') = local_clock (cl_store c) \<and> cl_spawned c' = cl_spawned c
     \<and> (\<forall>k. k \<noteq> cid \<longrightarrow> lookup_row s_contact_id k (sessions (cl_store c')) = lookup_row s_contact_id k (sessions (cl_store c)))
     \<and> (cl_account c' = cl_account c
        \<or> (\<exists>key r. accept_incoming (env_olm e) key (olm_type v) (ciphertext v) (cl_account c) = (Ok r, cl_account c')))"

lemma save_session_decrypted:
  assumes "save_session e cid ses c = (Ok (), c')"
  shows "decrypted e v cid c c'"
  using assms
  by (auto simp: save_session_def and_then_Ok_iff lift_outcome_def store_do_def save_session_pickle_def
      lookup_row_upsert decrypted_def split: if_splits)

lemma try_contact_moves:
  assumes "reader_at e c k rd" and "moves (env_olm e) (olm_type v) (ciphertext v) pt rd rd'"
    and codec: "codec_roundtrip (ses_json (env_olm e))" and "try_contact e v k c = (Ok x, c')"
  obtains a c1 where "x = Some a" and "handle_decrypted e (cr_id k) v pt c1 = (Ok a, c')"
    and "reader_at e c1 k rd'" and "decrypted e v (cr_id k) c c1"
proof (cases rd)
  case (InSession ses)
  with assms(2) obtain ses' where dec: "session_decrypt (env_olm e) (olm_type v) (ciphertext v) ses = (Ok pt, ses')"
    and rd': "rd' = InSession ses'" by auto
  have "try_contact e v k c = try_session e v (cr_id k) ses c"
    using assms(1) InSession by (auto simp: try_contact_def session_at_def and_then_def store_do_def lift_outcome_def)
  with assms(4) obtain a c1 where save: "save_session e (cr_id k) ses' c = (Ok (), c1)"
    and "x = Some a" and "handle_decrypted e (cr_id k) v pt c1 = (Ok a, c')"
    by (auto simp: try_session_def dec and_then_Ok_iff pure_Ok_iff)
  with that rd' save_session_at[OF codec save] save_session_decrypted[OF save] show ?thesis by simp
next
  case (Opening key acc)
  with assms(1,2) obtain ses acc' where
    dec: "accept_incoming (env_olm e) (curve25519_key k) (olm_type v) (ciphertext v) (cl_account c) = (Ok (ses, pt), acc')"
    and rd': "rd' = InSession ses" and none: "lookup_row s_contact_id (cr_id k) (sessions (cl_store c)) = None" by auto
  have "try_first_message e v k c = (Ok x, c')"
    using assms(4) by (simp add: try_contact_def and_then_def load_session_none[OF none])
  then obtain a p c1 c2 where sa: "store_do (save_account_pickle p) (c\<lparr>cl_account := acc'\<rparr>) = (Ok (), c1)"
    and save: "save_session e (cr_id k) ses c1 = (Ok (), c2)"
    and x: "x = Some a" "handle_decrypted e (cr_id k) v pt c2 = (Ok a, c')"
    by (auto simp: try_first_message_def dec and_then_Ok_iff lift_Ok_iff pure_Ok_iff)
  have "cl_account c2 = cl_account c1"
    using save
    by (auto simp: save_session_def and_then_Ok_iff lift_outcome_def store_do_def save_session_pickle_def split: if_splits)
  with sa save_session_decrypted[OF save, of v] dec have "decrypted e v (cr_id k) c c2"
    by (auto simp: decrypted_def store_do_def save_account_pickle_def upsert_account_def)
  with that x rd' save_session_at[OF codec save] show ?thesis by simp
qed

text \<open>The row a chat message is stored as, and what storing it does to the clock.\<close>

definition received_row :: "i64 \<Rightarrow> int \<Rightarrow> letter \<Rightarrow> message_row" where
  "received_row cid lam x = (case x of (blob, v, t) \<Rightarrow> \<lparr>m_contact_id = cid, m_msg_id = env_msg_id v,
     m_direction = ''incoming'', m_lamport = lam, m_sent_at = as_i64 (env_sent_at v), m_plaintext = t, m_status = None\<rparr>)"

lemma Integer_less: "Integer i < Integer j \<longleftrightarrow> i < j"
  by (auto simp: less_sqlnum_def)

lemma observe_lamport_clock:
  assumes "observe_lamport remote s = (Ok lam, s')"
  shows "s' = s\<lparr>local_clock := Integer (as_i64 lam)\<rparr> \<and> local_clock s < Integer (as_i64 lam) \<and> as_i64 remote < as_i64 lam"
proof -
  from assms obtain i where i: "sql_succ (max (local_clock s) (Integer (as_i64 remote))) = Integer i"
    and lam: "lam = as_u64 i" and s': "s' = s\<lparr>local_clock := Integer i\<rparr>"
    by (auto simp: observe_lamport_def current_def split: option.splits elim!: get_i64.elims)
  from i obtain j where j: "local_clock s = Integer j" by (cases "local_clock s") (auto simp: max_def split: if_splits)
  with i as_i64_bounds[of remote] have "i = max j (as_i64 remote) + 1" "i \<le> i64_max" by (auto split: if_splits)
  then show ?thesis using as_i64_bounds[of remote] lam s' j by (simp add: as_i64_as_u64 Integer_less)
qed

lemma handle_chat_row:
  assumes "payload_deserialize (env_payload e) pt = Some (Chat t)" and "handle_decrypted e cid v pt c = (Ok a, c')"
  obtains lam where "a = AttrChat" and "as_i64 (env_lamport v) < lam" and "local_clock (cl_store c) < Integer lam"
    and "local_clock (cl_store c') = Integer lam"
    and "messages (cl_store c') = messages (cl_store c) @ [received_row cid lam (blob, v, t)]"
    and "cl_spawned c' = cl_spawned c @ [SendReceipt cid (env_msg_id v)]"
    and "contacts (cl_store c') = contacts (cl_store c)" and "sessions (cl_store c') = sessions (cl_store c)"
    and "cl_account c' = cl_account c"
proof -
  from assms obtain lam c1 c2 where obs: "store_do (observe_lamport (env_lamport v)) c = (Ok lam, c1)"
    and ins: "store_do (insert_message cid \<lparr>nm_msg_id = env_msg_id v, nm_direction = Incoming, nm_lamport = lam,
      nm_sent_at = env_sent_at v, nm_plaintext = t, nm_status = None\<rparr>) c1 = (Ok (), c2)"
    and c': "c' = c2\<lparr>cl_spawned := cl_spawned c2 @ [SendReceipt cid (env_msg_id v)]\<rparr>" and a: "a = AttrChat"
    by (auto simp: handle_decrypted_def and_then_Ok_iff pure_Ok_iff spawn_task_def)
  from obs obtain s where s: "observe_lamport (env_lamport v) (cl_store c) = (Ok lam, s)" and c1: "c1 = c\<lparr>cl_store := s\<rparr>"
    by (auto simp: store_do_def Let_def split: prod.splits)
  have "messages (cl_store c2) = messages (cl_store c1) @ [received_row cid (as_i64 lam) (blob, v, t)]"
    "c2 = c1\<lparr>cl_store := (cl_store c1)\<lparr>messages := messages (cl_store c2)\<rparr>\<rparr>"
    using ins by (auto simp: store_do_def insert_message_def received_row_def split: if_splits)
  with observe_lamport_clock[OF s] c' c1 a show ?thesis
    by (intro that[of "as_i64 lam"]) (auto simp: client.defs store.defs elim: subst)
qed

text \<open>A reader stays where it is when the contact's session and the account do.\<close>

lemma reader_at_cong:
  assumes "lookup_row s_contact_id (cr_id k) (sessions (cl_store c')) = lookup_row s_contact_id (cr_id k) (sessions (cl_store c))"
    and "cl_account c' = cl_account c"
  shows "reader_at e c' k rd = reader_at e c k rd"
  using assms by (cases rd) (simp_all add: session_at_def load_session_pickle_def)

lemma other_reader:
  assumes "reader_at e c k x" and "x \<in> others" and dec: "decrypted e v cid c c'" and "cr_id k \<noteq> cid"
    and link: "olm_link (env_olm e) L others"
  shows "\<exists>x \<in> others. reader_at e c' k x"
proof (cases x)
  case (InSession ses)
  with assms(1,2) dec assms(4) show ?thesis
    by (intro bexI[of _ x]) (simp_all add: decrypted_def session_at_def load_session_pickle_def)
next
  case (Opening key acc)
  with assms(1) have acc: "acc = cl_account c" by simp
  have "Opening key (cl_account c') \<in> others"
    using dec link Opening assms(2) acc unfolding decrypted_def olm_link_def by metis
  with assms(1,4) dec Opening show ?thesis
    by (intro bexI[of _ "Opening key (cl_account c')"]) (simp_all add: decrypted_def)
qed

lemma letter_read:
  assumes ready: "ready_for e c r rd others" and link: "olm_link (env_olm e) L others"
    and codec: "codec_roundtrip (ses_json (env_olm e))"
    and refuse: "\<forall>x \<in> others. refuses (env_olm e) (olm_type v) (ciphertext v) x"
    and pay: "payload_deserialize (env_payload e) pt = Some (Chat t)"
    and moves: "moves (env_olm e) (olm_type v) (ciphertext v) pt rd rd'"
    and att: "attribute_and_store e v c = (Ok a, c')"
  obtains lam where "a = AttrChat" and "as_i64 (env_lamport v) < lam" and "local_clock (cl_store c) < Integer lam"
    and "local_clock (cl_store c') = Integer lam" and "ready_for e c' r rd' others"
    and "messages (cl_store c') = messages (cl_store c) @ [received_row (c_id r) lam (blob, v, t)]"
    and "cl_spawned c' = cl_spawned c @ [SendReceipt (c_id r) (env_msg_id v)]"
proof -
  note ready' = ready[unfolded ready_for_def]
  have k: "cr_id (contact_of r) = c_id r" by (simp add: contact_of_def)
  from attribute_and_store_tries[OF ready refuse att] obtain x c2 ks where x: "try_contact e v (contact_of r) c = (Ok x, c2)"
    and rest: "(case x of Some a \<Rightarrow> pure a | None \<Rightarrow> attribute_among e v ks) c2 = (Ok a, c')" .
  obtain c1 where h: "handle_decrypted e (c_id r) v pt c1 = (Ok a, c')" and rd': "reader_at e c1 (contact_of r) rd'"
    and dec: "decrypted e v (c_id r) c c1"
    by (rule try_contact_moves[OF _ moves codec x]) (use ready' rest k in \<open>auto simp: pure_Ok_iff\<close>)
  from dec have same: "contacts (cl_store c1) = contacts (cl_store c)" "messages (cl_store c1) = messages (cl_store c)"
    "local_clock (cl_store c1) = local_clock (cl_store c)" "cl_spawned c1 = cl_spawned c" by (simp_all add: decrypted_def)
  show ?thesis
  proof (rule handle_chat_row[OF pay h, where blob = blob])
    fix lam
    assume lam: "a = AttrChat" "as_i64 (env_lamport v) < lam" "local_clock (cl_store c1) < Integer lam"
      "local_clock (cl_store c') = Integer lam"
      "messages (cl_store c') = messages (cl_store c1) @ [received_row (c_id r) lam (blob, v, t)]"
      "cl_spawned c' = cl_spawned c1 @ [SendReceipt (c_id r) (env_msg_id v)]"
      and frame: "contacts (cl_store c') = contacts (cl_store c1)" "sessions (cl_store c') = sessions (cl_store c1)"
      "cl_account c' = cl_account c1"
    have at: "reader_at e c' k0 x0 = reader_at e c1 k0 x0" for k0 x0 using frame by (intro reader_at_cong) simp_all
    have "\<exists>x \<in> others. reader_at e c1 (contact_of r') x" if "r' \<in> set (contacts (cl_store c))" "c_id r' < c_id r" for r'
      using ready' that other_reader[OF _ _ dec _ link, of "contact_of r'"] by (fastforce simp: contact_of_def)
    then have "ready_for e c' r rd' others"
      using ready' rd' by (simp add: ready_for_def at frame(1) same(1))
    with lam same show ?thesis by (intro that[of lam]) simp_all
  qed
qed

text \<open>The loop over all of them: a row for each, in order, at increasing Lamport times.\<close>

definition stored_at :: "i64 \<Rightarrow> letter list \<Rightarrow> int list \<Rightarrow> message_row list" where
  "stored_at cid xs lams = map (\<lambda>(x, lam). received_row cid lam x) (zip xs lams)"

lemma letters_read:
  assumes "ready_for e c r rd others" and link: "olm_link (env_olm e) L others"
    and codec: "codec_roundtrip (ses_json (env_olm e))" and "legible e others rd xs" and "map blob_data bs = map fst xs"
    and "process_blobs e bs (k, hi, ids) c = (Ok (n, hi', ids'), c')"
  shows "n = k + length xs \<and> (\<exists>lams. sorted_wrt (<) lams \<and> (\<forall>l \<in> set lams. local_clock (cl_store c) < Integer l)
    \<and> list_all2 (\<lambda>x l. as_i64 (env_lamport (fst (snd x))) < l) xs lams
    \<and> messages (cl_store c') = messages (cl_store c) @ stored_at (c_id r) xs lams)
    \<and> cl_spawned c' = cl_spawned c @ map (\<lambda>x. SendReceipt (c_id r) (env_msg_id (fst (snd x)))) xs"
  using assms(1,4-6)
proof (induction xs arbitrary: bs c rd k hi ids)
  case Nil
  then show ?case by (auto simp: pure_def stored_at_def intro!: exI[of _ "[]"])
next
  case (Cons x xs)
  obtain blob v t where x: "x = (blob, v, t)" by (cases x)
  from Cons.prems(3) obtain b bs' where bs: "bs = b # bs'" "blob_data b = blob" "map blob_data bs' = map fst xs"
    by (auto simp: x)
  from Cons.prems(2)[unfolded x] obtain pt rd' where parse: "from_padded_bytes (env_envelope e) blob = Ok v"
    and refuse: "\<forall>x \<in> others. refuses (env_olm e) (olm_type v) (ciphertext v) x"
    and pay: "payload_deserialize (env_payload e) pt = Some (Chat t)"
    and moves: "moves (env_olm e) (olm_type v) (ciphertext v) pt rd rd'" and rest: "legible e others rd' xs" by auto
  from Cons.prems(4) obtain a c1 where att: "attribute_and_store e v c = (Ok a, c1)"
    and loop: "process_blobs e bs' (if a = AttrChat then k + 1 else k, max hi (blob_id b), ids @ [blob_id b]) c1
      = (Ok (n, hi', ids'), c')"
    by (auto simp: bs parse Let_def and_then_Ok_iff)
  show ?case
  proof (rule letter_read[OF Cons.prems(1) link codec refuse pay moves att, where blob = blob])
    fix lam
    assume a: "a = AttrChat" and lam: "as_i64 (env_lamport v) < lam" "local_clock (cl_store c) < Integer lam"
      "local_clock (cl_store c1) = Integer lam" and ready: "ready_for e c1 r rd' others"
      and c1: "messages (cl_store c1) = messages (cl_store c) @ [received_row (c_id r) lam (blob, v, t)]"
        "cl_spawned c1 = cl_spawned c @ [SendReceipt (c_id r) (env_msg_id v)]"
    from Cons.IH[OF ready rest bs(3) loop] obtain lams where "sorted_wrt (<) lams"
      and after: "\<forall>l \<in> set lams. Integer lam < Integer l"
      and "list_all2 (\<lambda>x l. as_i64 (env_lamport (fst (snd x))) < l) xs lams"
      and "messages (cl_store c') = messages (cl_store c1) @ stored_at (c_id r) xs lams"
      and "n = k + 1 + length xs"
      and "cl_spawned c' = cl_spawned c1 @ map (\<lambda>x. SendReceipt (c_id r) (env_msg_id (fst (snd x)))) xs"
      by (auto simp: a lam(3))
    moreover have "\<forall>l \<in> set (lam # lams). local_clock (cl_store c) < Integer l"
      using lam(2) after by (auto intro: order.strict_trans)
    ultimately show ?thesis
      using lam(1) c1 after by (auto simp: x stored_at_def Integer_less intro!: exI[of _ "lam # lams"])
  qed
qed

lemma stored_at_simps [simp]:
  "stored_at cid [] lams = []" "stored_at cid (x # xs) (l # lams) = received_row cid l x # stored_at cid xs lams"
  by (simp_all add: stored_at_def)

lemma letter_rows [simp]:
  "m_lamport (received_row cid l x) = l" "m_contact_id (received_row cid l x) = cid"
  "m_direction (received_row cid l x) = ''incoming''" "fixed_part (received_row cid l x) = received_row cid l x"
  "m_plaintext (received_row cid l x) = snd (snd x)" "m_plaintext (sent_row k x) = snd (snd x)"
  "m_msg_id (received_row cid l x) = env_msg_id (fst (snd x))" "m_msg_id (sent_row k x) = env_msg_id (fst (snd x))"
  "m_sent_at (received_row cid l x) = as_i64 (env_sent_at (fst (snd x)))" "m_sent_at (sent_row k x) = as_i64 (env_sent_at (fst (snd x)))"
  "m_lamport (sent_row k x) = as_i64 (env_lamport (fst (snd x)))"
  by (simp_all add: received_row_def sent_row_def fixed_part_def split: prod.split)

lemma stored_rows:
  assumes "list_all2 (\<lambda>x l. as_i64 (env_lamport (fst (snd x))) < l) xs lams"
  shows "map m_lamport (stored_at cid xs lams) = lams"
    and "map (\<lambda>m. (m_plaintext m, m_msg_id m, m_sent_at m)) (stored_at cid xs lams)
      = map (\<lambda>m. (m_plaintext m, m_msg_id m, m_sent_at m)) (map (sent_row k) xs)"
    and "list_all2 (\<lambda>m m'. m_lamport m < m_lamport m') (map (sent_row k) xs) (stored_at cid xs lams)"
    and "map fixed_part (stored_at cid xs lams) = stored_at cid xs lams"
    and "\<forall>m \<in> set (stored_at cid xs lams). m_contact_id m = cid \<and> m_direction m = ''incoming''"
  using assms by (induction xs lams rule: list_all2_induct) simp_all

lemma letters_synced:
  assumes node: "talks_to_node e now me" and wf: "mailbox_wf db" "mailbox_wf (mh_db (cl_world c))"
    and rows: "blobs (mh_db (cl_world c)) = blobs db @ new_rows (blobs_seq db) (map fst xs)"
      "blobs_seq (mh_db (cl_world c)) = blobs_seq db + int (length xs)"
    and mark: "watermark (cl_store c) = as_u64 (blobs_seq db)"
    and ready: "ready_for e c r rd others" and link: "olm_link (env_olm e) L others"
    and codec: "codec_roundtrip (ses_json (env_olm e))" and leg: "legible e others rd xs"
    and sync: "sync e c = (Ok n, c')"
  shows "n = length xs \<and> (\<exists>lams. sorted_wrt (<) lams
    \<and> list_all2 (\<lambda>x l. as_i64 (env_lamport (fst (snd x))) < l) xs lams
    \<and> map fixed_part (messages (cl_store c')) = map fixed_part (messages (cl_store c)) @ stored_at (c_id r) xs lams)
    \<and> cl_spawned c' = cl_spawned c @ map (\<lambda>x. SendReceipt (c_id r) (env_msg_id (fst (snd x)))) xs"
proof -
  from sync obtain addr bs c1 w c2 high ids c3 c4 c5
    where fetch: "call_node e addr (Fetch (mailbox_key (cl_identity c))) c = (Ok (Blobs bs), c1)"
      and w: "store_do get_last_synced_blob_id c1 = (Ok w, c2)"
      and proc: "process_blobs e (sort_key blob_id (filter (\<lambda>b. w < blob_id b) bs)) (0, w, []) c2
        = (Ok (n, high, ids), c3)"
      and rest: "ack_blobs e ids c3 = (Ok (), c4)" "store_do (set_last_synced_blob_id high) c4 = (Ok (), c5)"
        "poll_failed e c5 = (Ok (), c')" by (rule sync_OkE)
  from call_node_Ok[OF node fetch] obtain h' where bs: "bs = fetch_all (mh_db (cl_world c))"
    and c1: "c1 = c\<lparr>cl_world := h'\<rparr>" by (metis answer_Fetch)
  from w c1 have c2: "c2 = c\<lparr>cl_world := h'\<rparr>" and "w = watermark (cl_store c)"
    by (auto simp: store_do_def get_last_synced_blob_id_def watermark_def split: option.splits)
  with proc bs mark only_new_blobs[OF wf rows(1)] rows(2) have
    loop: "process_blobs e (map row_to_blob (new_rows (blobs_seq db) (map fst xs))) (0, w, []) c2 = (Ok (n, high, ids), c3)"
    by simp
  have "map blob_data (map row_to_blob (new_rows (blobs_seq db) (map fst xs))) = map fst xs"
    by (simp add: row_to_blob_def o_def)
  moreover have "ready_for e c2 r rd others" using ready by (simp add: ready_for_def c2)
  ultimately obtain lams where "n = length xs" "sorted_wrt (<) lams"
    and lams: "list_all2 (\<lambda>x l. as_i64 (env_lamport (fst (snd x))) < l) xs lams"
    and msgs: "messages (cl_store c3) = messages (cl_store c) @ stored_at (c_id r) xs lams"
    and sp: "cl_spawned c3 = cl_spawned c @ map (\<lambda>x. SendReceipt (c_id r) (env_msg_id (fst (snd x)))) xs"
    using letters_read[OF _ link codec leg _ loop, of r] unfolding c2 by auto
  moreover have "map fixed_part (messages (cl_store c')) = map fixed_part (messages (cl_store c)) @ stored_at (c_id r) xs lams"
    using sync_end_received[OF rest] msgs stored_rows(4)[OF lams] by (simp add: received_0)
  moreover have "cl_spawned c' = cl_spawned c3" by (rule sync_end_same_tasks[OF rest])
  ultimately show ?thesis by auto
qed

text \<open>
  C1: messages arrive, completely and in order. A client sends any number of chat messages to a
  contact whose node it knows, starting in the session it has with the contact or in a new one made
  with the contact's one-time key; the recipient had seen everything its node held. When its next
  synchronisation returns, it has received exactly these messages: one row for each is appended to
  its history, from the sender, in the order they were sent, with the sender's texts, message ids and
  sending times. Their Lamport times increase, and each is later than the one the message was sent
  with, so the history lists them in this order; and a receipt for each is about to be sent.
  (The contacts tried before the sender, in the order of their row ids, have sessions or keys that
  refuse the messages.)
\<close>

theorem messages_arrive_in_order:
  assumes "talks_to_node a now me" and "reads_only a" and "talks_to_node b now' me'" and "same_formats a b"
    and "codec_roundtrip (ses_json (env_olm a))" and "store_wf (cl_store sender)"
    and "client_get_contact cid sender = (Ok contact, sender)" and "server_addr contact = Some ab"
    and "open_session a cid contact sender = (Ok sa, s1)" and "for_each (send a cid) texts sender = (Ok (), sender')"
    and "cl_world rcpt = cl_world sender'" and "mailbox_wf (mh_db (cl_world sender))"
    and "watermark (cl_store rcpt) = as_u64 (blobs_seq (mh_db (cl_world sender)))"
    and "ready_for b rcpt r rd others" and "olm_link (env_olm a) L others" and "L sa rd" and "sync b rcpt = (Ok n, rcpt')"
  shows "n = length texts \<and> (\<exists>sent rcvd. messages (cl_store sender') = messages (cl_store sender) @ sent
    \<and> map fixed_part (messages (cl_store rcpt')) = map fixed_part (messages (cl_store rcpt)) @ rcvd
    \<and> map m_plaintext sent = texts
    \<and> map (\<lambda>m. (m_plaintext m, m_msg_id m, m_sent_at m)) rcvd = map (\<lambda>m. (m_plaintext m, m_msg_id m, m_sent_at m)) sent
    \<and> (\<forall>m \<in> set rcvd. m_contact_id m = c_id r \<and> m_direction m = ''incoming'')
    \<and> sorted_wrt (<) (map m_lamport rcvd) \<and> list_all2 (\<lambda>m m'. m_lamport m < m_lamport m') sent rcvd
    \<and> cl_spawned rcpt' = cl_spawned rcpt @ map (\<lambda>m. SendReceipt (c_id r) (m_msg_id m)) sent)"
proof -
  have "routed cid sender" by (rule routed_of_contact[OF assms(6-8)])
  moreover have "linked_to a cid sender L rd" using assms(7,9,16) by (simp add: linked_to_def)
  ultimately obtain xs where xs: "map (snd \<circ> snd) xs = texts" "legible b others rd xs" "mailbox_wf (mh_db (cl_world rcpt))"
    "blobs (mh_db (cl_world rcpt)) = blobs (mh_db (cl_world sender)) @ new_rows (blobs_seq (mh_db (cl_world sender))) (map fst xs)"
    "blobs_seq (mh_db (cl_world rcpt)) = blobs_seq (mh_db (cl_world sender)) + int (length xs)"
    and sent: "messages (cl_store sender') = messages (cl_store sender) @ map (sent_row cid) xs"
    using sends_reach_node[OF assms(1,2,4,5,15) _ assms(12) _ assms(10)] unfolding assms(11) by blast
  have olm: "env_olm b = env_olm a" using assms(4) by (simp add: same_formats_def)
  from letters_synced[OF assms(3,12) xs(3-5) assms(13,14) _ _ xs(2) assms(17), unfolded olm, OF assms(15,5)]
  obtain lams where n: "n = length xs" and inc: "sorted_wrt (<) lams"
    and lams: "list_all2 (\<lambda>x l. as_i64 (env_lamport (fst (snd x))) < l) xs lams"
    and rcvd: "map fixed_part (messages (cl_store rcpt')) = map fixed_part (messages (cl_store rcpt)) @ stored_at (c_id r) xs lams"
    and sp: "cl_spawned rcpt' = cl_spawned rcpt @ map (\<lambda>x. SendReceipt (c_id r) (env_msg_id (fst (snd x)))) xs" by blast
  have "n = length texts" "map m_plaintext (map (sent_row cid) xs) = texts" using n by (simp_all add: xs(1)[symmetric] o_def)
  moreover note rows = stored_rows[OF lams]
  ultimately show ?thesis
    by (intro conjI) (assumption, rule exI[of _ "map (sent_row cid) xs"], rule exI[of _ "stored_at (c_id r) xs lams"],
      intro conjI sent rcvd rows(2,3,5), simp_all add: rows(1) inc sp o_def)
qed

section \<open>Two messages\<close>

text \<open>A codec for the values of a list, each written as its place in the list.\<close>

definition place_of :: "'a list \<Rightarrow> 'a \<Rightarrow> nat" where
  "place_of xs x = length (takeWhile (\<lambda>y. y \<noteq> x) xs)"

definition table_codec :: "'a list \<Rightarrow> 'a codec" where
  "table_codec xs =
     \<lparr>enc = \<lambda>x. if place_of xs x < min 256 (length xs) then Inr [word_of_nat (place_of xs x)] else Inl [],
      dec = \<lambda>bs. (case bs of [b] \<Rightarrow> if unat b < length xs then Inr (xs ! unat b) else Inl [] | _ \<Rightarrow> Inl [])\<rparr>"

lemma nth_place_of: "place_of xs x < length xs \<Longrightarrow> xs ! place_of xs x = x"
  unfolding place_of_def using nth_length_takeWhile by fastforce

lemma table_codec_ok: "codec_roundtrip (table_codec xs)"
  by (auto simp: codec_roundtrip_def table_codec_def unat_of_nat nth_place_of split: if_splits)

definition two_hkdf :: hkdf_fun where
  "two_hkdf ikm info len = (if len \<le> 8160 then Some (resize len 0 (take 24 ikm @ drop 8 info)) else None)"

definition two_letter :: "byte \<Rightarrow> Envelope" where
  "two_letter i = Envelope_new 1 [0, 7 + i] (word_of_nat (unat i)) (word_of_nat (Suc (unat i))) 5 (replicate 16 i)"

definition two_auth :: "byte \<Rightarrow> bytes" where
  "two_auth i = (case derive_auth two_hkdf (replicate 32 4) (word_of_nat (unat i)) of Ok a \<Rightarrow> a | _ \<Rightarrow> [])"

definition two_bytes :: "byte \<Rightarrow> bytes" where
  "two_bytes i = (case pad [i] of Ok b \<Rightarrow> b | _ \<Rightarrow> [])"

definition two_request :: "NodeRequest codec" where
  "two_request = table_codec [Write (two_auth 0) (two_bytes 0), Write (two_auth 1) (two_bytes 1), Fetch (replicate 32 3),
     Ack (replicate 32 3) [1, 2], PollFailedDeliveries (replicate 32 3)]"

definition two_response :: "NodeResponse codec" where
  "two_response = table_codec [RespOk, FailedDeliveries [], Blobs [\<lparr>blob_id = 1, blob_data = two_bytes 0, blob_delivered = False\<rparr>,
     \<lparr>blob_id = 2, blob_data = two_bytes 1, blob_delivered = False\<rparr>]]"

definition two_env :: "string \<Rightarrow> (unit, unit, unit, nat, string MailboxHandler) env" where
  "two_env me = (sample_env (node_network (\<lambda>b. b) two_request two_response 0 me))\<lparr>
     env_request := two_request, env_response := two_response, env_hkdf := two_hkdf,
     env_envelope := table_codec [two_letter 0, two_letter 1], env_payload := mail_payload,
     env_random := \<lambda>n w. (replicate n (word_of_nat (length (blobs (mh_db w)))), w)\<rparr>"

definition two_node :: "string MailboxHandler" where
  "two_node = MailboxHandler_new (register_slot (two_auth 1) (register_slot (two_auth 0) empty_node_db))
     (RateLimiter_new 60 60000) (replicate 32 3)"

lemma two_distinct: "two_auth 0 \<noteq> two_auth 1" "two_letter 0 \<noteq> two_letter 1"
  by code_simp+

lemma two_auth_derived: "derive_auth two_hkdf (replicate 32 4) (word_of_nat (unat i)) = Ok (two_auth i)"
proof -
  have "hkdf_sha256_lengths two_hkdf" by (auto simp: hkdf_sha256_lengths_def two_hkdf_def)
  then show ?thesis
    using derive_auth_Ok[of two_hkdf "replicate 32 4" "word_of_nat (unat i)"] by (auto simp: two_auth_def)
qed

lemma two_padded: "pad [i] = Ok (two_bytes i)"
  using pad_Ok_iff[of "[i]"] by (auto simp: two_bytes_def split: outcome.splits)

lemma two_codes:
  "enc two_request (Write (two_auth 0) (two_bytes 0)) = Inr [0]" "enc two_request (Write (two_auth 1) (two_bytes 1)) = Inr [1]"
  "enc two_request (Fetch (replicate 32 3)) = Inr [2]" "enc two_request (Ack (replicate 32 3) [1, 2]) = Inr [3]"
  "enc two_request (PollFailedDeliveries (replicate 32 3)) = Inr [4]" "enc two_response RespOk = Inr [0]"
  "enc two_response (FailedDeliveries []) = Inr [1]"
  "enc two_response (Blobs [\<lparr>blob_id = 1, blob_data = two_bytes 0, blob_delivered = False\<rparr>,
     \<lparr>blob_id = 2, blob_data = two_bytes 1, blob_delivered = False\<rparr>]) = Inr [2]"
  using two_distinct(1) by (simp_all add: two_request_def two_response_def table_codec_def place_of_def)

lemma two_calls:
  assumes "answer (\<lambda>b. b) 0 me (Inr req) (cl_world c) = (Ok resp, h)"
    and "enc two_request req = Inr [k]" and "enc two_response resp = Inr [j]"
  shows "call_node (two_env me) addr req c = (Ok resp, c\<lparr>cl_world := h\<rparr>)"
proof -
  have "codec_roundtrip two_request" "codec_roundtrip two_response"
    by (simp_all add: two_request_def two_response_def table_codec_ok)
  note codec_roundtripD[OF this(1) assms(2)] codec_roundtripD[OF this(2) assms(3)]
  then have "call (node_network (\<lambda>b. b) two_request two_response 0 me) two_request two_response addr req (cl_world c)
      = (Ok resp, h)"
    by (intro node_call_Ok[OF assms(2) _ _ assms(1,3)]) (simp_all add: MAX_MESSAGE_SIZE_def)
  then show ?thesis by (simp add: call_node_def two_env_def)
qed

lemma two_env_simps [simp]:
  "env_olm (two_env me) = sample_olm" "env_envelope (two_env me) = table_codec [two_letter 0, two_letter 1]"
  "env_payload (two_env me) = mail_payload" "env_sha256 (two_env me) bs = bs"
  "env_random (two_env me) n w = (replicate n (word_of_nat (length (blobs (mh_db w)))), w)" "env_olm_random (two_env me) w = ((), w)"
  "env_now (two_env me) w = (5, w)" "env_hkdf (two_env me) = two_hkdf" "dec (env_addr (two_env me)) bs = Inr (length bs)"
  by (simp_all add: two_env_def sample_env_def)

lemma two_letter_bytes:
  "to_padded_bytes (table_codec [two_letter 0, two_letter 1]) (two_letter 0) = Ok (two_bytes 0)"
  "to_padded_bytes (table_codec [two_letter 0, two_letter 1]) (two_letter 1) = Ok (two_bytes 1)"
  using two_distinct(2) two_padded[of 0] two_padded[of 1]
  by (simp_all add: to_padded_bytes_def table_codec_def place_of_def)

lemma two_cases: "unat (i :: byte) < 2 \<Longrightarrow> i = 0 \<or> i = 1"
  by (auto simp: less_2_cases_iff word_unat_eq_iff)

text \<open>The steps of one delivery, by the number of the message.\<close>

definition two_store :: "nat \<Rightarrow> nat \<Rightarrow> message_row list \<Rightarrow> store" where
  "two_store n lam ms = (session_store (Some [0]))\<lparr>contacts := [(paired_row (Some [0]))\<lparr>c_next_write_n := Integer (int n)\<rparr>],
     local_clock := Integer (int lam), messages := ms\<rparr>"

lemma two_contact:
  assumes "n < 2"
  shows "client_get_contact 1 (sample_client (two_store n lam ms) addr h)
    = (Ok (contact_of ((paired_row (Some [0]))\<lparr>c_next_write_n := Integer (int n)\<rparr>)), sample_client (two_store n lam ms) addr h)"
proof -
  have "list_all contact_ok (contacts (two_store n lam ms))"
    using assms by (simp add: two_store_def contact_ok_def paired_row_def i64_max_def)
  from list_contacts_rows[OF this] show ?thesis
    by (simp add: client_get_contact_def run_simps get_contact_def two_store_def contact_of_def paired_row_def sample_client_def)
qed

lemma two_begin:
  assumes "unat i = k" and "k < 2" and "length (blobs (mh_db h)) = k"
  shows "deliver_begin (two_env me) 1 (Chat [7 + i]) (sample_client (two_store k k ms) None h)
    = (Ok \<lparr>pd_cid = 1, pd_contact = contact_of ((paired_row (Some [0]))\<lparr>c_next_write_n := Integer (int k)\<rparr>), pd_session = (),
        pd_otype = 1, pd_ciphertext = [0, 7 + i], pd_lamport = word_of_nat (Suc k), pd_sent_at = 5,
        pd_msg_id = replicate 16 i\<rparr>, sample_client (two_store k (Suc k) ms) None h)"
proof -
  let ?c = "sample_client (two_store k k ms) None h"
  have "open_session (two_env me) 1 contact ?c = (Ok (), ?c)" for contact
    by (simp add: open_session_def run_simps load_session_pickle_def session_from_pickle_def sample_olm_def two_store_def
        session_store_def sample_client_def)
  moreover have "encrypt_payload (two_env me) (Chat [7 + i]) () ?c = (Ok ((), 1, [0, 7 + i]), ?c)"
    by (simp add: encrypt_payload_def run_simps payload_serialize_def mail_payload_def session_encrypt_def sample_olm_def
        sample_client_def)
  moreover have "word_of_nat k = i" using assms(1) by auto
  then have "world_do (env_random (two_env me) 16) ?c = (Ok (replicate 16 i), ?c)" "world_do (env_now (two_env me)) ?c = (Ok 5, ?c)"
    using assms(3) by (simp_all add: world_do_def)
  moreover have "store_do tick_lamport ?c = (Ok (word_of_nat (Suc k)), sample_client (two_store k (Suc k) ms) None h)"
    using assms(2) by (simp add: store_do_def tick_lamport_def current_def i64_max_def sample_client_def two_store_def as_u64_def)
  ultimately show ?thesis
    by (simp add: deliver_begin_def and_then_def two_contact[OF assms(2)] pure_def)
qed

lemma two_transmit:
  assumes i: "unat i = k" "k < 2" and ok: "answer (\<lambda>b. b) 0 ''alice'' (Inr (Write (two_auth i) (two_bytes i))) h = (Ok RespOk, h')"
  shows "deliver_to_server (two_env ''alice'') 1 (contact_of ((paired_row (Some [0]))\<lparr>c_next_write_n := Integer (int k)\<rparr>)) [0]
      1 [0, 7 + i] (word_of_nat (Suc k)) 5 (replicate 16 i) (sample_client (two_store k lam ms) None h)
    = (Ok Sent, sample_client (two_store (Suc k) lam ms) None h')"
proof -
  let ?c = "sample_client (two_store (Suc k) lam ms) None h"
  have n: "store_do (increment_and_get_next_write_n 1) (sample_client (two_store k lam ms) None h) = (Ok (word_of_nat k), ?c)"
    using i by (simp add: store_do_def increment_and_get_next_write_n_def and_then_def update_contact_def two_store_def
        sample_client_def paired_row_def i64_max_def as_u64_def)
  have "i = 0 \<or> i = 1" using i by (intro two_cases) simp
  then have bytes: "to_padded_bytes (table_codec [two_letter 0, two_letter 1]) (two_letter i) = Ok (two_bytes i)"
    and req: "enc two_request (Write (two_auth i) (two_bytes i)) = Inr [i]"
    using two_letter_bytes two_codes by auto
  have "two_letter i = Envelope_new 1 [0, 7 + i] (word_of_nat k) (word_of_nat (Suc k)) 5 (replicate 16 i)"
    using i by (simp add: two_letter_def)
  moreover have "call_node (two_env ''alice'') addr (Write (two_auth i) (two_bytes i)) ?c = (Ok RespOk, ?c\<lparr>cl_world := h'\<rparr>)" for addr
    by (rule two_calls[OF _ req two_codes(6)]) (simp add: ok)
  ultimately show ?thesis
    using n bytes two_auth_derived[of i] i
    by (simp add: deliver_to_server_def run_simps(1,4-) envelope_bytes_of_def expect_ok_def contact_of_def paired_row_def
        sample_client_def to_array_self)
qed

lemma two_send:
  assumes i: "unat i = k" "k < 2" and ok: "answer (\<lambda>b. b) 0 ''alice'' (Inr (Write (two_auth i) (two_bytes i))) h = (Ok RespOk, h')"
    and "length (blobs (mh_db h)) = k" and "\<forall>m \<in> set ms. m_msg_id m \<noteq> replicate 16 i"
  shows "send (two_env ''alice'') 1 [7 + i] (sample_client (two_store k k ms) None h)
    = (Ok (), sample_client (two_store (Suc k) (Suc k) (ms @ [sent_row 1 (two_bytes i, two_letter i, [7 + i])])) None h')"
proof -
  let ?c = "sample_client (two_store (Suc k) (Suc k) ms) None h'"
  have "save_session (two_env ''alice'') 1 () ?c = (Ok (), ?c)"
    by (simp add: save_session_def run_simps session_pickle_def sample_olm_def save_session_pickle_def fk_violated_def
        upsert_def sample_client_def two_store_def session_store_def paired_row_def)
  then have "deliver (two_env ''alice'') 1 (Chat [7 + i]) (sample_client (two_store k k ms) None h)
      = (Ok (replicate 16 i, word_of_nat (Suc k), 5, Sent), ?c)"
    using two_transmit[OF i ok, of "Suc k" ms] i
    by (simp add: deliver_phases and_then_def two_begin[OF i assms(4)] deliver_transmit_def deliver_commit_def pure_def
        contact_of_def paired_row_def)
  moreover have "env_msg_id (two_letter i) = replicate 16 i" "env_lamport (two_letter i) = word_of_nat (Suc k)"
    "env_sent_at (two_letter i) = 5" using i by (simp_all add: two_letter_def Envelope_new_def)
  ultimately show ?thesis
    using assms(5) by (simp add: send_def run_simps insert_message_def fk_violated_def sample_client_def two_store_def
        paired_row_def sent_row_def)
qed

text \<open>The recipient's side of it.\<close>

definition two_history :: "nat \<Rightarrow> message_row list \<Rightarrow> store" where
  "two_history l ms = (session_store None)\<lparr>local_clock := Integer (int l), messages := ms\<rparr>"

lemma two_read:
  assumes i: "unat i = k" "k < 2" and "l < 9" and "\<forall>m \<in> set ms. m_msg_id m \<noteq> replicate 16 i"
  shows "attribute_and_store (two_env me) (two_letter i) ((sample_client (two_history l ms) (Some 0) h)\<lparr>cl_spawned := ts\<rparr>)
    = (Ok AttrChat, (sample_client (two_history (Suc (max l (Suc k)))
        (ms @ [received_row 1 (int (Suc (max l (Suc k)))) (two_bytes i, two_letter i, [7 + i])])) (Some 0) h)
        \<lparr>cl_spawned := ts @ [SendReceipt 1 (replicate 16 i)]\<rparr>)"
proof -
  let ?c = "(sample_client (two_history l ms) (Some 0) h)\<lparr>cl_spawned := ts\<rparr>"
  have "list_all contact_ok (contacts (two_history l ms))"
    using session_store_wf[of None] by (simp add: two_history_def store_wf_def)
  from list_contacts_rows[OF this] have "store_do list_contacts ?c = (Ok [contact_of (paired_row None)], ?c)"
    by (simp add: store_do_def sample_client_def two_history_def)
  moreover have "store_do (load_session_pickle 1) ?c = (Ok (Some []), ?c)"
    by (simp add: store_do_def load_session_pickle_def sample_client_def two_history_def)
  moreover have "save_session (two_env me) 1 () ?c = (Ok (), ?c)"
    by (simp add: save_session_def run_simps session_pickle_def sample_olm_def save_session_pickle_def fk_violated_def
        upsert_def sample_client_def two_history_def session_store_def)
  moreover have lam: "as_i64 (env_lamport (two_letter i)) = int (Suc k)"
    using i by (auto simp: two_letter_def Envelope_new_def less_2_cases_iff as_i64_def)
  have max: "max (int l) (1 + int k) + 1 = 1 + int (max l (Suc k))" by simp
  have "as_i64 (as_u64 (1 + int (max l (Suc k)))) = 1 + int (max l (Suc k))"
    using assms(2,3) by (intro as_i64_as_u64) (simp_all add: i64_min_def i64_max_def)
  then have "handle_decrypted (two_env me) 1 (two_letter i) [0, 7 + i] ?c = (Ok AttrChat,
     (sample_client (two_history (Suc (max l (Suc k)))
        (ms @ [received_row 1 (int (Suc (max l (Suc k)))) (two_bytes i, two_letter i, [7 + i])])) (Some 0) h)
        \<lparr>cl_spawned := ts @ [SendReceipt 1 (replicate 16 i)]\<rparr>)"
    using assms lam max
    by (simp add: handle_decrypted_def payload_deserialize_def mail_payload_def run_simps observe_lamport_def current_def
        i64_max_def insert_message_def fk_violated_def spawn_task_def sample_client_def two_history_def received_row_def
        two_letter_def Envelope_new_def add.commute)
  moreover have "olm_type (two_letter i) = 1" "ciphertext (two_letter i) = [0, 7 + i]"
    by (simp_all add: two_letter_def Envelope_new_def)
  ultimately show ?thesis
    by (simp add: attribute_and_store_def try_contact_def try_session_def and_then_def lift_outcome_def pure_def
        session_from_pickle_def session_decrypt_def sample_olm_def)
qed

text \<open>The node, before and after the writes.\<close>

definition two_after :: "byte \<Rightarrow> string MailboxHandler \<Rightarrow> string MailboxHandler" where
  "two_after i h = snd (answer (\<lambda>b. b) 0 ''alice'' (Inr (Write (two_auth i) (two_bytes i))) h)"

abbreviation two_full :: "string MailboxHandler" where
  "two_full \<equiv> two_after 1 (two_after 0 two_node)"

lemma two_written:
  "answer (\<lambda>b. b) 0 ''alice'' (Inr (Write (two_auth 0) (two_bytes 0))) two_node = (Ok RespOk, two_after 0 two_node)"
  "answer (\<lambda>b. b) 0 ''alice'' (Inr (Write (two_auth 1) (two_bytes 1))) (two_after 0 two_node) = (Ok RespOk, two_full)"
  "length (blobs (mh_db (two_after 0 two_node))) = 1" "blobs (mh_db two_node) = []" "blobs_seq (mh_db two_node) = 0"
  "mh_mailbox_key two_full = replicate 32 3" "failed_deliveries (mh_db two_full) = []"
  "fetch_all (mh_db two_full) = [\<lparr>blob_id = 1, blob_data = two_bytes 0, blob_delivered = False\<rparr>,
     \<lparr>blob_id = 2, blob_data = two_bytes 1, blob_delivered = False\<rparr>]"
  using two_distinct(1)
  by (simp_all add: two_after_def answer_def two_node_def MailboxHandler_new_def allow_def current_window_def expired_def
      RateLimiter_new_def store_write_def register_slot_def insert_or_ignore_def empty_node_db_def Let_def delete_where_def
      saturating_sub_def i64_min_def fetch_all_def row_to_blob_def i64_max_def as_u64_def)

definition two_sender :: "(unit, nat, string MailboxHandler) client" where
  "two_sender = sample_client (two_store 0 0 []) None two_node"

definition two_sent :: "(unit, nat, string MailboxHandler) client" where
  "two_sent = sample_client (two_store 2 2 (map (\<lambda>i. sent_row 1 (two_bytes i, two_letter i, [7 + i])) [0, 1])) None two_full"

lemma two_sends: "for_each (send (two_env ''alice'') 1) [[7], [8]] two_sender = (Ok (), two_sent)"
proof -
  have "m_msg_id (sent_row 1 (two_bytes 0, two_letter 0, [7])) \<noteq> replicate 16 1"
    by (simp add: two_letter_def Envelope_new_def)
  then show ?thesis
    using two_send[of 0 0 two_node "two_after 0 two_node" "[]"]
      two_send[of 1 1 "two_after 0 two_node" two_full "[sent_row 1 (two_bytes 0, two_letter 0, [7])]"] two_written
    by (simp add: and_then_def two_sender_def two_sent_def pure_def numeral_2_eq_2 del: letter_rows)
qed

definition two_recipient :: "(unit, nat, string MailboxHandler) client" where
  "two_recipient = sample_client (two_history 0 []) (Some 0) two_full"

lemma two_parsed:
  "from_padded_bytes (table_codec [two_letter 0, two_letter 1]) (two_bytes 0) = Ok (two_letter 0)"
  "from_padded_bytes (table_codec [two_letter 0, two_letter 1]) (two_bytes 1) = Ok (two_letter 1)"
  using two_letter_bytes by (auto intro: from_to_padded_bytes[OF table_codec_ok])

lemma two_processed:
  "\<exists>s ts. process_blobs (two_env ''bob'') [\<lparr>blob_id = 1, blob_data = two_bytes 0, blob_delivered = False\<rparr>,
     \<lparr>blob_id = 2, blob_data = two_bytes 1, blob_delivered = False\<rparr>] (0, 0, []) two_recipient
    = (Ok (2, 2, [1, 2]), (sample_client s (Some 0) two_full)\<lparr>cl_spawned := ts\<rparr>)"
proof -
  let ?m = "received_row 1 2 (two_bytes 0, two_letter 0, [7])"
  have "m_msg_id ?m \<noteq> replicate 16 1" by (simp add: two_letter_def Envelope_new_def)
  then have "attribute_and_store (two_env ''bob'') (two_letter 0) two_recipient
      = (Ok AttrChat, (sample_client (two_history 2 [?m]) (Some 0) two_full)\<lparr>cl_spawned := [SendReceipt 1 (replicate 16 0)]\<rparr>)"
    "\<exists>s ts. attribute_and_store (two_env ''bob'') (two_letter 1)
        ((sample_client (two_history 2 [?m]) (Some 0) two_full)\<lparr>cl_spawned := [SendReceipt 1 (replicate 16 0)]\<rparr>)
      = (Ok AttrChat, (sample_client s (Some 0) two_full)\<lparr>cl_spawned := ts\<rparr>)"
    using two_read[of 0 0 0 "[]" "''bob''" "[]" two_full]
      two_read[of 1 1 2 "[?m]" "''bob''" "[SendReceipt 1 (replicate 16 0)]" two_full]
    by (auto simp: two_recipient_def sample_client_def numeral_2_eq_2 simp del: letter_rows)
  then obtain s ts where "process_blobs (two_env ''bob'') [\<lparr>blob_id = 1, blob_data = two_bytes 0, blob_delivered = False\<rparr>,
     \<lparr>blob_id = 2, blob_data = two_bytes 1, blob_delivered = False\<rparr>] (0, 0, []) two_recipient
    = (Ok (2, 2, [1, 2]), (sample_client s (Some 0) two_full)\<lparr>cl_spawned := ts\<rparr>)"
    by (auto simp: two_parsed and_then_def pure_def max_def)
  then show ?thesis by (intro exI)
qed

lemma two_synced: "\<exists>c'. sync (two_env ''bob'') two_recipient = (Ok 2, c')"
proof -
  let ?e = "two_env ''bob''"
  have key: "mailbox_key sample_identity = replicate 32 3" by (simp add: sample_identity_def)
  have fetch: "call_node ?e 0 (Fetch (replicate 32 3)) two_recipient = (Ok (Blobs [\<lparr>blob_id = 1, blob_data = two_bytes 0,
     blob_delivered = False\<rparr>, \<lparr>blob_id = 2, blob_data = two_bytes 1, blob_delivered = False\<rparr>]), two_recipient)"
    using two_calls[OF _ two_codes(3,8), of "''bob''" two_recipient two_full 0]
    by (simp add: answer_def two_written two_recipient_def sample_client_def)
  obtain s ts where proc: "process_blobs ?e [\<lparr>blob_id = 1, blob_data = two_bytes 0, blob_delivered = False\<rparr>,
     \<lparr>blob_id = 2, blob_data = two_bytes 1, blob_delivered = False\<rparr>] (0, 0, []) two_recipient
    = (Ok (2, 2, [1, 2]), (sample_client s (Some 0) two_full)\<lparr>cl_spawned := ts\<rparr>)" using two_processed by blast
  let ?c = "(sample_client s (Some 0) two_full)\<lparr>cl_spawned := ts\<rparr>"
  obtain h where h: "answer (\<lambda>b. b) 0 ''bob'' (Inr (Ack (replicate 32 3) [1, 2])) two_full = (Ok RespOk, h)"
    "mh_mailbox_key h = replicate 32 3" "failed_deliveries (mh_db h) = []"
    by (simp add: answer_def two_written(6,7) ack_def)
  have ack: "ack_blobs ?e [1, 2] ?c = (Ok (), ?c\<lparr>cl_world := h\<rparr>)"
    using two_calls[OF _ two_codes(4,6), of "''bob''" ?c h 0] h(1)
    by (simp add: ack_blobs_def own_addr_def and_then_def key expect_ok_def pure_def sample_client_def)
  obtain s2 where mark: "store_do (set_last_synced_blob_id 2) (?c\<lparr>cl_world := h\<rparr>) = (Ok (), ?c\<lparr>cl_world := h, cl_store := s2\<rparr>)"
    by (simp add: store_do_def set_last_synced_blob_id_def)
  obtain h2 where h2: "answer (\<lambda>b. b) 0 ''bob'' (Inr (PollFailedDeliveries (replicate 32 3))) h = (Ok (FailedDeliveries []), h2)"
    by (simp add: answer_def h(2,3) take_failed_def)
  have poll: "poll_failed ?e (?c\<lparr>cl_world := h, cl_store := s2\<rparr>) = (Ok (), ?c\<lparr>cl_store := s2, cl_world := h2\<rparr>)"
    using two_calls[OF _ two_codes(5,7), of "''bob''" "?c\<lparr>cl_world := h, cl_store := s2\<rparr>" h2 0] h2
    by (simp add: poll_failed_def own_addr_def and_then_def key pure_def sample_client_def)
  have "store_do get_last_synced_blob_id two_recipient = (Ok 0, two_recipient)"
    by (simp add: store_do_def get_last_synced_blob_id_def two_recipient_def two_history_def sample_client_def as_u64_def)
  moreover have "cl_server_addr two_recipient = Some 0" "mailbox_key (cl_identity two_recipient) = replicate 32 3"
    by (simp_all add: key two_recipient_def)
  ultimately show ?thesis
    by (simp add: sync_def and_then_def require_def lift_outcome_def fetch proc ack mark poll pure_def del: process_blobs.simps)
qed

theorem messages_arrive_in_order_witness:
  "\<exists>rcpt'. for_each (send (two_env ''alice'') 1) [[7], [8]] two_sender = (Ok (), two_sent)
     \<and> sync (two_env ''bob'') two_recipient = (Ok 2, rcpt')
     \<and> map m_plaintext (map fixed_part (messages (cl_store rcpt'))) = [[7], [8]]"
proof -
  obtain rcpt' where sync: "sync (two_env ''bob'') two_recipient = (Ok 2, rcpt')" using two_synced by blast
  let ?k = "contact_of ((paired_row (Some [0]))\<lparr>c_next_write_n := Integer 0\<rparr>)"
  have talks: "talks_to_node (two_env me) 0 me" for me
    by (simp add: talks_to_node_def two_env_def two_request_def two_response_def table_codec_ok sample_env_def)
  have formats: "same_formats (two_env ''alice'') (two_env ''bob'')" "reads_only (two_env ''alice'')"
    by (simp_all add: same_formats_def reads_only_def table_codec_ok mail_codecs)
  have codec: "codec_roundtrip (ses_json (env_olm (two_env ''alice'')))" by (simp add: codec_roundtrip_def sample_olm_def)
  have wf: "store_wf (cl_store two_sender)"
    using session_store_wf[of "Some [0]"]
    by (simp add: two_sender_def two_store_def store_wf_def contact_ok_def paired_row_def i64_max_def)
  have contact: "client_get_contact 1 two_sender = (Ok ?k, two_sender)"
    using two_contact[of 0] by (simp add: two_sender_def)
  have addr: "server_addr ?k = Some [0]" by (simp add: contact_of_def paired_row_def)
  have ses: "open_session (two_env ''alice'') 1 ?k two_sender = (Ok (), two_sender)"
    by (simp add: open_session_def run_simps load_session_pickle_def session_from_pickle_def sample_olm_def two_store_def
        session_store_def sample_client_def two_sender_def)
  have world: "cl_world two_recipient = cl_world two_sent" by (simp add: two_recipient_def two_sent_def)
  have mark: "mailbox_wf (mh_db (cl_world two_sender))"
    "watermark (cl_store two_recipient) = as_u64 (blobs_seq (mh_db (cl_world two_sender)))"
    using two_written(5)
    by (simp_all add: two_sender_def two_recipient_def two_history_def watermark_def)
      (simp add: two_node_def MailboxHandler_new_def register_slot_wf)
  have ready: "ready_for (two_env ''bob'') two_recipient (paired_row None) (InSession ()) {}"
    using session_store_wf[of None]
    by (simp add: ready_for_def two_recipient_def two_history_def session_at_def load_session_pickle_def
        session_from_pickle_def sample_olm_def contact_of_def store_wf_def)
  have link: "olm_link (env_olm (two_env ''alice'')) (\<lambda>_ rd. rd = InSession ()) {}"
    by (auto simp: olm_link_def session_encrypt_def session_decrypt_def sample_olm_def)
  note arrived = messages_arrive_in_order[OF talks formats(2) talks formats(1) codec wf contact addr ses two_sends world mark
      ready link refl sync]
  have "map m_plaintext (map fixed_part (messages (cl_store rcpt'))) = [[7], [8]]"
    using arrived[THEN conjunct2]
  proof (elim exE conjE)
    fix sent rcvd
    assume "map m_plaintext sent = [[7], [8]]"
      and eq: "map (\<lambda>m. (m_plaintext m, m_msg_id m, m_sent_at m)) rcvd = map (\<lambda>m. (m_plaintext m, m_msg_id m, m_sent_at m)) sent"
      and rows: "map fixed_part (messages (cl_store rcpt')) = map fixed_part (messages (cl_store two_recipient)) @ rcvd"
    moreover have "map m_plaintext rcvd = map m_plaintext sent" using arg_cong[OF eq, of "map fst"] by (simp add: o_def)
    moreover have "messages (cl_store two_recipient) = []" by (simp add: two_recipient_def two_history_def)
    ultimately show "map m_plaintext (map fixed_part (messages (cl_store rcpt'))) = [[7], [8]]"
      unfolding rows by (simp only: list.map append_Nil)
  qed
  with two_sends sync show ?thesis by (intro exI conjI)
qed

end
