(* ===== verification/Spec2Isabelle.thy ===== *)
theory Spec2Isabelle
  imports Node_Live Node_Work Node_Main Ffi Core_Sessions Core_Stranded Nat_Sim_Peer Size_Limits Conversation
begin

text \<open>
  \<^bold>\<open>The yougle messenger.\<close> A verification of the Rust crates under \<^verbatim>\<open>src/crates\<close>: an
  end-to-end encrypted messenger in which every user may run a mailbox server of their own, the
  node, and in which phones also deliver to each other directly.

  \<^bold>\<open>The program.\<close> A phone runs a client (\<^verbatim>\<open>pm-core\<close>) over an encrypted database
  (\<^verbatim>\<open>pm-store\<close>), with keys derived from a recovery phrase and Olm sessions
  (\<^verbatim>\<open>pm-crypto\<close>), and is driven by the app through \<^verbatim>\<open>pm-ffi\<close>. It talks to nodes and to
  other phones through \<^verbatim>\<open>pm-transport\<close> in the formats of \<^verbatim>\<open>pm-proto\<close>. A node
  (\<^verbatim>\<open>pm-node\<close>) keeps blobs for its owner: anyone may write, but only by presenting a value
  whose SHA-256 the owner has registered as a slot, which the write uses up. Two phones that have
  exchanged pairing payloads derive the same sequence of such values, so each can register the
  slots the other will write to. The node also keeps an encrypted backup, and retries deliveries
  to phones that were not reachable.

  \<^bold>\<open>Theories, and what they model.\<close>

  \<^item> \<^verbatim>\<open>Yougle_Prelude\<close>: machine integers, results of Rust functions (a value, an error or a
    panic), state-passing actions, byte encodings, SQL tables as lists of rows with the five
    statement shapes the sources use, SQLite integers that overflow into floating point.
  \<^item> \<^verbatim>\<open>Proto_Padding\<close>, \<^verbatim>\<open>Proto_Derive\<close>, \<^verbatim>\<open>Proto_Wire\<close>: \<^verbatim>\<open>pm-proto\<close>
    (\<^verbatim>\<open>padding.rs\<close>, \<^verbatim>\<open>derive.rs\<close>, \<^verbatim>\<open>envelope.rs\<close>, \<^verbatim>\<open>node_protocol.rs\<close>,
    \<^verbatim>\<open>direct_protocol.rs\<close>) and the pairing secrets of \<^verbatim>\<open>pm-core/src/pairing.rs\<close>.
  \<^item> \<^verbatim>\<open>Node_Store\<close>, \<^verbatim>\<open>Node_Retry\<close>, \<^verbatim>\<open>Node_Rate\<close>, \<^verbatim>\<open>Node_Handler\<close>:
    \<^verbatim>\<open>pm-node\<close>'s \<^verbatim>\<open>store.rs\<close>, \<^verbatim>\<open>retry_queue.rs\<close>, \<^verbatim>\<open>rate_limit.rs\<close> and
    \<^verbatim>\<open>handler.rs\<close>, one definition per method. The state is the database, a \<open>record\<close> of
    tables, and the limiter.
  \<^item> \<^verbatim>\<open>Node_Run\<close>: \<^verbatim>\<open>lib.rs\<close> and the configuration of \<^verbatim>\<open>main.rs\<close>. The running node is
    a step relation: a connection served, a tick of the sweep, the end of one of the dial attempts
    that run concurrently, a restart, time passing, the clock being set. It has two clocks, the wall
    clock that the queue and the limiter read and the monotonic one of the timeouts; a restart, an
    event of the environment, keeps the database and nothing else.
    \<^verbatim>\<open>Node_Main\<close>: \<^verbatim>\<open>spawn\<close> with its errors, \<^verbatim>\<open>shutdown\<close>, \<^verbatim>\<open>main\<close>, and the
    task that a sweep spawns for one delivery.
  \<^item> \<^verbatim>\<open>Node_Spec\<close>, \<^verbatim>\<open>Node_Live\<close>, \<^verbatim>\<open>Node_Work\<close>: what the running node promises. The
    abstract mailbox and the simulation by traces; progress of the retry queue over infinite
    executions; a measure that bounds the dialling.
  \<^item> \<^verbatim>\<open>Crypto_Backup\<close>, \<^verbatim>\<open>Crypto_Keys\<close>: \<^verbatim>\<open>pm-crypto\<close>'s \<^verbatim>\<open>backup.rs\<close>,
    \<^verbatim>\<open>seed.rs\<close>, \<^verbatim>\<open>identity.rs\<close>, \<^verbatim>\<open>session.rs\<close>.
  \<^item> \<^verbatim>\<open>Store_DB\<close>: \<^verbatim>\<open>pm-store\<close>'s \<^verbatim>\<open>lib.rs\<close> and \<^verbatim>\<open>lamport.rs\<close>.
    \<^verbatim>\<open>Migrations\<close>: the migration runners and SQL files of both databases,
    \<^verbatim>\<open>Store::open\<close> and \<^verbatim>\<open>pm-node/src/db.rs\<close>.
  \<^item> \<^verbatim>\<open>Transport\<close>: \<^verbatim>\<open>pm-transport\<close>'s client around an endpoint, its calls, and
    addresses as text.
  \<^item> \<^verbatim>\<open>Core_Base\<close>, \<^verbatim>\<open>Core_Backup\<close>, \<^verbatim>\<open>Core_Client\<close>: \<^verbatim>\<open>pm-core\<close>'s
    \<^verbatim>\<open>error.rs\<close>, \<^verbatim>\<open>message.rs\<close>, \<^verbatim>\<open>backup.rs\<close> and \<^verbatim>\<open>client.rs\<close>; the
    background tasks a client spawns are a list in its state and run as operations of their own.
    \<^verbatim>\<open>Core_Progress\<close> and \<^verbatim>\<open>Core_Delivery\<close> hold the theorems about single clients.
    \<^verbatim>\<open>Core_Concurrent\<close>: a delivery in the three phases it has between its waits, and any
    number of tasks that each call one, as a step relation: a task calls, waits for
    \<^verbatim>\<open>send_lock\<close>, takes it if the lock lets it, waits for the network, finishes or is cancelled,
    and messages come in at any point; that deliveries exclude each other is a theorem about the lock.
    \<^verbatim>\<open>Core_Stranded\<close>: what can and what can not bring a contact back whose first delivery
    failed. \<^verbatim>\<open>Nat_Sim_Peer\<close>: the program \<^verbatim>\<open>pm-core/examples/nat_sim_peer.rs\<close>
    around a client, whose calls may never return.
  \<^item> \<^verbatim>\<open>Ffi\<close>: \<^verbatim>\<open>pm-ffi/src/lib.rs\<close>, every exported method, and the messages of all error
    types.
  \<^item> \<^verbatim>\<open>Connected\<close>, \<^verbatim>\<open>Connected_Examples\<close>: the client of \<^verbatim>\<open>Core_Client\<close> on a network
    whose other end is the handler of \<^verbatim>\<open>Node_Handler\<close>, or another client.
    \<^verbatim>\<open>End_To_End\<close>: two clients and the recipient's node between them.
    \<^verbatim>\<open>Core_Sessions\<close>: what becomes of messages when sessions are advanced concurrently, when
    deliveries fail, and when the two ends do not have the same session.
    \<^verbatim>\<open>Conversation\<close>: several messages through one node, read in one synchronisation.
    \<^verbatim>\<open>Failure_Reports\<close>: the way from a delivery the node gave up to the sender's history.
    \<^verbatim>\<open>Size_Limits\<close>: what the largest size of one protocol message means for mailboxes and
    backups.

  \<^bold>\<open>Interfaces.\<close> Where one part relies on another the contract is a locale, proved of the model's
  definitions by interpretation: \<open>mailbox\<close> (what the handler expects of the store),
  \<open>retry_queue\<close> (what the sweep expects of the queue), \<open>column\<close> (a table column with a primary
  key), \<open>simulation\<close> (refinement by traces), \<open>migration_runner\<close> (the two copies of the runner),
  \<open>step_order\<close>, \<open>client_order\<close> and \<open>reading_order\<close> (orders that client operations keep), \<open>padding_scheme\<close> and
  \<open>length_prefixed\<close> (the padding of envelopes and of backups) and \<open>pickled\<close> (accounts and sessions as
  bytes).

  \<^bold>\<open>What is proved.\<close>

  \<^item> The node is a mailbox: its traces are traces of the abstract mailbox, so what the owner fetches
    is exactly what writes were accepted for, each slot takes as many blobs as it was opened times,
    and nothing is lost. Those without the mailbox key can only use up open slots, and only at the
    rate of the limiter. A delivery is dialled at most three times for each
    time it is scheduled while the clock is not set forward, and on a node that keeps running it is
    delivered or reported as failed. It is never dialled twice at once, as long as the owner does not
    schedule it again while it is dialled and the clock is not set in the meantime; both disturbances
    are shown to make attempts overlap.
    The program starts exactly with usable keys, an endpoint and a database.
  \<^item> A client never goes back: no operation removes contacts or messages or moves a counter back. An
    address announcement is applied exactly when it is signed and newer; a sync stores every blob
    once; a sent message is stored exactly when it was handed over, with the id, the times and the
    status of that handing over. (Operations are taken one after the other.)
  \<^item> Across parts: messages sent through the recipient's node are in the recipient's history after
    its next synchronisation, each once, in the order of sending and at increasing Lamport times, with
    the same text, id and sending time, whether the session is new or not, and the receipt for a
    message marks it as delivered; pairing opens
    eight slots at the server, which accepts writes made with them; a backup pushed to the server
    restores to the same identity, account and contacts; a message marked as delivered was
    attributed by the recipient; a delivery the node gave up is shown as failed after the next
    synchronisation, and no other is. Deliveries started by concurrent tasks exclude each other, and
    while nothing is received they have the effect of deliveries one after the other.
  \<^item> Formats: padding, envelopes, backups, keys, the store's rows and the interface to the app round
    trip, with the exact inputs that are refused and the exact way each is refused; every released
    schema version upgrades to the same tables.

  \<^bold>\<open>Parameters and hypotheses.\<close> HKDF, SHA-256, Ed25519, XChaCha20-Poly1305, vodozemac, BIP-39,
  base64, bincode, SQLCipher and iroh are arguments of the definitions, gathered in records
  (\<open>env\<close>, \<open>network\<close>, \<open>vodozemac\<close>, \<open>ffi_libs\<close> and others), and so are the clock and the random
  number generator. Theorems that need something of them name it: a value that serialises is read
  back (\<open>codec_roundtrip\<close>), HKDF returns the length asked for (\<open>hkdf_sha256_lengths\<close>), a
  signature verifies under its key (\<open>ed25519_documented\<close>), key sizes (\<open>key_sizes\<close>), a new device can
  bind its endpoint and open its database (\<open>new_device_works\<close>), what one end
  of an Olm session encrypts the other end decrypts, and no one else (\<open>olm_channel\<close>; \<open>olm_chain\<close> for the
  message keys of a session whose sending ratchet is active; \<open>olm_link\<close> for a
  whole conversation, and \<open>olm_deaf\<close> of sessions that do not belong together), bincode writes all bytes of a blob and of a
  backup (\<open>carries_blobs\<close>, \<open>carries_backups\<close>) and the cipher adds its tag (\<open>adds_tag\<close>), the clock runs while a program sleeps
  (\<open>clock_runs\<close>), local calls and sleeps return, tokio cuts direct calls off, and, where it is needed, nodes answer
  (\<open>local_calls_return\<close>, \<open>sleeps_return\<close>, \<open>direct_calls_bounded\<close>, \<open>nodes_answer\<close>). Each such
  theorem has an instance in which the parameters are concrete functions.

  \<^bold>\<open>Bounds.\<close> The loops of the libraries are over finite lists or counters, so no definition needs
  fuel; the polling loops of \<^verbatim>\<open>nat_sim_peer.rs\<close>, which depend on the clock, are partial functions
  that are shown to end when the clock runs and the calls made in between return. Blob ids and counters keep their 64-bit width; statements about the node assume that fewer
  than \<open>2 ^ 63\<close> blobs were stored. \<open>lag\<close> is how long after its ten-second timeout a dial attempt may
  still be running; the twelve-second grace period allows for less than two seconds.

  \<^bold>\<open>What the model shows about the code.\<close> A node without a configured key accepts the all-zero key as
  the owner's; a backup with an extreme length prefix panics instead of being refused; a peer can
  make the Lamport clock unreadable with one message; a contact whose first delivery failed can not be
  sent to until it is added again or a message of theirs opens a session; an interrupted migration locks the database; a restore forgets the guard against
  replayed announcements; a message received while a delivery waits for the network is forgotten by
  the session, because receiving does not take the lock that deliveries take; a message sent after
  one that failed is encrypted with the same message key, if the sending ratchet was active; two devices that both write first lose
  each other's messages without an error; a mailbox that has grown over one MiB can not be
  synchronised any more; a history of more than half a MiB can not be backed up to the node; an owner
  who schedules a delivery again, or a clock that is set forward, makes the node dial a phone twice at
  once; pruning the limiter shows when the clock goes back; a device whose node takes a request and
  never answers waits for ever, with the send lock held. Each is a theorem here.

  \<^bold>\<open>Not modelled.\<close> The app (\<^verbatim>\<open>src/app\<close>), which is not Rust; iroh endpoints and the router
  beyond the calls made to them, and QUIC streams beyond the bytes they carry; the uniffi
  scaffolding, which is generated; logging and what is written to standard error; the unit and
  integration tests. The mutexes around the client's account and address and around the node's
  database are held only within one operation, and such operations are single steps; the one lock
  that is held across a wait, \<^verbatim>\<open>send_lock\<close>, is modelled. Their poisoning is not: a
  panic ends the operation in which it happens and not those after it. Receiving takes no
  lock and is a single step here, so two messages received at the same moment are not interleaved
  statement by statement; nor is a process killed between two statements of one operation, except in
  a migration. Of the columns in the migration scripts only the names are kept; their types and the
  constraints NOT NULL, DEFAULT and UNIQUE are not.
\<close>

section \<open>Pairing and the node\<close>

text \<open>
  C16: pairing opens eight write slots. When a contact is added on a device with its own server,
  over the real handler of that server, and the call succeeds, the server has exactly the slots it
  had before and the hashes of the first eight write authorisations of the pair; so, in the state
  it is in then, it takes a write made with any of the eight.
\<close>

theorem pairing_opens_eight_slots:
  assumes "talks_to_node e now me" and "cl_server_addr c = Some own"
    and "add_contact e ik ck otk tk name addr secret c = (Ok cid, c')"
    and "blobs_seq (mh_db (cl_world c')) < i64_max"
  shows "slots_at c' = slots_at c \<union> auth_hash e secret ` {..<8}
    \<and> (\<forall>n < 8. \<exists>a i db'. derive_auth (env_hkdf e) secret (word_of_nat n) = Ok a
         \<and> store_write (env_sha256 e) a blob (mh_db (cl_world c')) = (Ok i, db'))"
proof -
  obtain c1 where w: "cl_world c1 = cl_world c" and reg: "register_slots e own secret c1 = (Ok (), c')"
    using add_contact_slots[OF assms(3,2)] .
  note loop = register_loop[OF assms(1) reg[unfolded register_slots_def SLOT_REPLENISH_BATCH_def]]
  from w loop have slots: "slots_at c' = slots_at c \<union> auth_hash e secret ` {..<8}"
    by (simp add: slots_at_def lessThan_atLeast0)
  have "\<exists>a i db'. derive_auth (env_hkdf e) secret (word_of_nat n) = Ok a
      \<and> store_write (env_sha256 e) a blob (mh_db (cl_world c')) = (Ok i, db')" if "n < 8" for n
  proof -
    from that loop obtain a where a: "derive_auth (env_hkdf e) secret (word_of_nat n) = Ok a" by force
    from that have "auth_hash e secret n \<in> slots_at c'" unfolding slots by blast
    then have "env_sha256 e a \<in> slots (mh_db (cl_world c'))" by (simp add: auth_hash_def a slots_at_def)
    with a assms(4) show ?thesis by (simp add: store_write_Ok_iff)
  qed
  with slots show ?thesis by blast
qed

theorem pairing_opens_eight_slots_witness:
  "\<exists>cid c'. add_contact alice_env (replicate 32 1) (replicate 32 2) (replicate 32 6) (replicate 32 5) None None
      (replicate 32 4) alice_client = (Ok cid, c')
    \<and> slots_at c' = slots_at alice_client \<union> auth_hash alice_env (replicate 32 4) ` {..<8}"
proof -
  obtain cid c' where add: "add_contact alice_env (replicate 32 1) (replicate 32 2) (replicate 32 6) (replicate 32 5)
      None None (replicate 32 4) alice_client = (Ok cid, c')" and "busy 60 (cl_world c')"
    using alice_adds_bob by blast
  then have "blobs_seq (mh_db (cl_world c')) < i64_max" by (simp add: busy_def i64_max_def)
  with pairing_opens_eight_slots[OF alice_talks _ add, of 0] add show ?thesis
    by (auto simp: alice_client_def)
qed

section \<open>Losing a device\<close>

text \<open>
  C7: a pushed backup brings everything back. After a successful push to the device's own server,
  restoring on a new device from the recovery seed and the server's address can fail only in the
  transport; when it does not, the new device has the same identity and Olm account, and what it
  would back up is what the lost device backed up, with the server's address as its own.
\<close>

theorem pushed_backup_restores:
  assumes "talks_to_node e now me" and "new_device_works e" and "aead_correct (env_aead e)"
    and "\<And>n w. length (fst (env_random e n w)) = n" and "codec_roundtrip (env_bundle e)"
    and "Identity_derive (env_hkdf e) seed = Ok (cl_identity c)"
    and "store_wf (cl_store c)" and "account (cl_store c) = Some a"
    and "a_pointer_broadcast_seq a = Integer seq"
    and "account_from_pickle (env_olm e) (a_pickle a) = Ok acc" and "enc (env_addr e) addr = Inr ab"
    and "push_backup e c = (Ok (), c')"
  shows "case restore e seed addr (empty_store fk, cl_world c') of
      (Ok new, _) \<Rightarrow> cl_identity new = cl_identity c \<and> cl_account new = acc \<and> cl_server_addr new = Some addr
        \<and> (\<exists>b. fst (assemble (cl_store c)) = Ok b
             \<and> fst (assemble (cl_store new)) = Ok (b\<lparr>bb_own_server_addr := Some ab\<rparr>))
    | (Err err, _) \<Rightarrow> (\<exists>t. err = TransportErr t)
    | (Panic, _) \<Rightarrow> False"
proof -
  let ?b = "bundle_of (cl_store c) a seq"
  note asm = assemble_ok[OF assms(7-9)]
  note ok = bundle_of_contacts[OF assms(7), of a seq]
  obtain blob pt where row: "backup_row (mh_db (cl_world c')) = Some blob"
    and key: "mh_mailbox_key (cl_world c') = mailbox_key (cl_identity c)"
    and dec: "decrypt_backup (env_aead e) (backup_key (cl_identity c)) blob = Ok pt"
      "bundle_deserialize (env_bundle e) pt = Ok ?b"
    by (rule pushed_backup[OF assms(1,3,4,5) asm assms(12)])
  have acc: "account_from_pickle (env_olm e) (bb_account_pickle ?b) = Ok acc"
    using assms(10) by (simp add: bundle_of_def)
  show ?thesis
  proof (cases rule: fetched_backup[OF assms(1) key row, of addr])
    case (1 t h')
    from restore_transport_error[OF assms(2,6) 1, of "empty_store fk"] show ?thesis
      by (cases "restore e seed addr (empty_store fk, cl_world c')") simp
  next
    case 2
    from restore_from_node[OF assms(2,6) 2 dec ok acc assms(11), of fk]
      assemble_restored_device[OF ok, of fk ab] asm
    show ?thesis by auto
  qed
qed

theorem pushed_backup_restores_witness:
  "\<exists>c'. push_backup alice_env alice_client = (Ok (), c')
     \<and> (case restore alice_env (replicate 32 7) 0 (empty_store True, cl_world c') of
          (Ok new, _) \<Rightarrow> cl_identity new = alice | (Err err, _) \<Rightarrow> (\<exists>t. err = TransportErr t) | (Panic, _) \<Rightarrow> False)"
proof -
  obtain c' where push: "push_backup alice_env alice_client = (Ok (), c')" using alice_pushes by blast
  have env: "new_device_works alice_env" "aead_correct (env_aead alice_env)" "codec_roundtrip (env_bundle alice_env)"
    "\<And>n w. length (fst (env_random alice_env n w)) = n" "enc (env_addr alice_env) 0 = Inr [0]"
    "account_from_pickle (env_olm alice_env) (a_pickle alice_account) = Ok ()"
    by (simp_all add: new_device_works_def alice_env_def sample_env_def sample_aead_correct single_codec_roundtrip
        account_from_pickle_def sample_olm_def)
  have st: "Identity_derive (env_hkdf alice_env) (replicate 32 7) = Ok (cl_identity alice_client)"
    "store_wf (cl_store alice_client)" "account (cl_store alice_client) = Some alice_account"
    "a_pointer_broadcast_seq alice_account = Integer 0"
    by (simp_all add: alice_env_def alice_client_def alice_derived alice_store_ok)
  have "cl_identity alice_client = alice" by (simp add: alice_client_def)
  with push pushed_backup_restores[OF alice_talks env(1,2,4,3) st env(6,5) push, of True] show ?thesis
    by (auto split: prod.splits outcome.splits)
qed

section \<open>Direct delivery\<close>

text \<open>
  C2: a message marked as delivered has been received. When a client delivers directly to another
  and records the status \<^verbatim>\<open>delivered\<close>, the recipient was there, read an envelope with exactly
  this message id, Lamport value and time, and attributed it to one of its contacts; when it was
  a chat message, the recipient's history has grown by it.
\<close>

theorem delivered_means_received:
  assumes "env_net e = direct_network peer_env" and "env_ack e = env_ack peer_env"
    and "codec_roundtrip (env_ack peer_env)" and "env_envelope e = env_envelope peer_env"
    and "codec_roundtrip (env_envelope e)"
    and "deliver e cid payload c = (Ok (mid, lam, at, Delivered), c')"
  shows "\<exists>peer peer' envelope a. cl_world c' = Some peer'
    \<and> attribute_and_store peer_env envelope peer = (Ok a, peer') \<and> a \<noteq> Unattributed
    \<and> env_msg_id envelope = mid \<and> env_lamport envelope = lam \<and> env_sent_at envelope = at
    \<and> received (chats a) peer peer'"
proof -
  obtain otype ct addr blob w where
    pad: "to_padded_bytes (env_envelope e) (Envelope_new otype ct 0 lam at mid) = Ok blob"
    and call: "call_direct (env_net e) (env_ack e) addr blob w = (Ok (), cl_world c')"
    by (rule delivered_directly[OF assms(6)])
  obtain peer peer' where world: "cl_world c' = Some peer'" and ack: "direct_ack peer_env blob peer = (Ok AckOk, peer')"
    by (rule call_direct_Ok[OF assms(3) call[unfolded assms(1,2)]])
  obtain envelope a where env: "from_padded_bytes (env_envelope peer_env) blob = Ok envelope"
    and a: "attribute_and_store peer_env envelope peer = (Ok a, peer')" "a \<noteq> Unattributed"
    by (rule direct_ack_Ok[OF ack])
  from from_to_padded_bytes[OF assms(5) pad] env assms(4) have "envelope = Envelope_new otype ct 0 lam at mid"
    by simp
  then have "env_msg_id envelope = mid" "env_lamport envelope = lam" "env_sent_at envelope = at"
    by (simp_all add: Envelope_new_def)
  with world a attribute_and_store_received[OF a(1)] show ?thesis by blast
qed

theorem delivered_means_received_witness:
  "\<exists>c' bob bob' envelope a.
     deliver carol_env 1 (Chat [7]) (sample_client (paired_store None) None (Some session_client))
       = (Ok (replicate 16 9, 1, 5, Delivered), c')
   \<and> cl_world c' = Some bob' \<and> attribute_and_store bob_env envelope bob = (Ok a, bob')
   \<and> env_msg_id envelope = replicate 16 9"
proof -
  obtain c' where d: "deliver carol_env 1 (Chat [7]) (sample_client (paired_store None) None (Some session_client))
      = (Ok (replicate 16 9, 1, 5, Delivered), c')" using carol_delivers by blast
  have "env_net carol_env = direct_network bob_env" "env_ack carol_env = env_ack bob_env"
    "codec_roundtrip (env_ack bob_env)" "env_envelope carol_env = env_envelope bob_env"
    "codec_roundtrip (env_envelope carol_env)"
    by (simp_all add: carol_env_def bob_env_def meeting_codec_def single_codec_roundtrip)
  from delivered_means_received[OF this d] d show ?thesis by blast
qed

end
